(* ===== verification/Obi_Prelude.thy ===== *)
theory Obi_Prelude
  imports Main "HOL-Library.Word" "HOL-Library.Char_ord" "HOL-Library.List_Lexorder"
    "HOL-Library.Sublist"
begin

text \<open>
  Shared material of the development: the Rust \<open>Result\<close> type, the machine integer types, the
  kinds of \<open>std::io::Error\<close> the sources distinguish, the byte reader and byte writer that stand
  for \<open>std::io::Read\<close> and \<open>std::io::Write\<close>, and the generic lemmas on lists that the component
  theories use.
\<close>

section \<open>Machine integers and results\<close>

type_synonym u8 = "8 word"
type_synonym u16 = "16 word"
type_synonym u32 = "32 word"
type_synonym u64 = "64 word"

named_theorems obi_consts "constants of the sources, unfolded when a term is evaluated"
named_theorems io_simps "equations of the reader and writer operations"

datatype ('a, 'e) result = Ok 'a | Err 'e

primrec is_ok :: "('a, 'e) result \<Rightarrow> bool" where
  "is_ok (Ok x) = True"
| "is_ok (Err e) = False"

primrec map_err :: "('e \<Rightarrow> 'f) \<Rightarrow> ('a, 'e) result \<Rightarrow> ('a, 'f) result" where
  "map_err f (Ok x) = Ok x"
| "map_err f (Err e) = Err (f e)"

primrec and_then :: "('a, 'e) result \<Rightarrow> ('a \<Rightarrow> ('b, 'e) result) \<Rightarrow> ('b, 'e) result" where
  "and_then (Ok x) f = f x"
| "and_then (Err e) f = Err e"

primrec ok :: "('a, 'e) result \<Rightarrow> 'a option" where
  "ok (Ok x) = Some x"
| "ok (Err e) = None"

primrec ok_or :: "'a option \<Rightarrow> 'e \<Rightarrow> ('a, 'e) result" where
  "ok_or None e = Err e"
| "ok_or (Some x) e = Ok x"

lemma and_then_Ok_iff: "and_then r f = Ok y \<longleftrightarrow> (\<exists>x. r = Ok x \<and> f x = Ok y)"
  by (cases r) auto

lemma and_then_Err_iff: "and_then r f = Err e \<longleftrightarrow> r = Err e \<or> (\<exists>x. r = Ok x \<and> f x = Err e)"
  by (cases r) auto

lemma map_err_Ok_iff [simp]: "map_err f r = Ok x \<longleftrightarrow> r = Ok x"
  by (cases r) auto

lemma ok_or_Ok_iff [simp]: "ok_or v e = Ok x \<longleftrightarrow> v = Some x"
  by (cases v) auto

text \<open>\<open>collect::<Result<Vec<_>, _>>()\<close>: the first error wins.\<close>

fun collect_results :: "('a, 'e) result list \<Rightarrow> ('a list, 'e) result" where
  "collect_results [] = Ok []"
| "collect_results (r # rs) =
     (case r of Err e \<Rightarrow> Err e
      | Ok x \<Rightarrow> (case collect_results rs of Err e \<Rightarrow> Err e | Ok xs \<Rightarrow> Ok (x # xs)))"

lemma collect_results_map_Ok [simp]: "collect_results (map Ok xs) = Ok xs"
  by (induction xs) auto

lemma collect_results_OkD: "collect_results rs = Ok xs \<Longrightarrow> rs = map Ok xs"
  by (induction rs arbitrary: xs) (auto split: result.splits)

lemma collect_results_Ok_iff: "collect_results rs = Ok xs \<longleftrightarrow> rs = map Ok xs"
  by (auto dest: collect_results_OkD)

text \<open>Arithmetic of the Rust standard library on \<open>usize\<close> (64 bit targets) and on words.\<close>

definition usize_max :: nat where
  "usize_max = 2 ^ 64 - 1"

definition saturating_add_usize :: "nat \<Rightarrow> nat \<Rightarrow> nat" where
  "saturating_add_usize a b = min (a + b) usize_max"

definition saturating_sub_usize :: "nat \<Rightarrow> nat \<Rightarrow> nat" where
  "saturating_sub_usize a b = a - b"

definition saturating_add_word :: "'l::len word \<Rightarrow> 'l word \<Rightarrow> 'l word" where
  "saturating_add_word a b = (if unat a + unat b < 2 ^ LENGTH('l) then a + b else - 1)"

definition saturating_sub_word :: "'l::len word \<Rightarrow> 'l word \<Rightarrow> 'l word" where
  "saturating_sub_word a b = (if a < b then 0 else a - b)"

lemma unat_saturating_add_word:
  "unat (saturating_add_word (a :: 'l::len word) b) = min (unat a + unat b) (2 ^ LENGTH('l) - 1)"
proof (cases "unat a + unat b < 2 ^ LENGTH('l)")
  case True
  then show ?thesis
    by (simp add: saturating_add_word_def unat_word_ariths)
next
  case False
  then show ?thesis
    by (simp add: saturating_add_word_def unsigned_minus_1_eq_mask mask_eq_exp_minus_1)
qed

lemma unat_saturating_sub_word:
  "unat (saturating_sub_word a b) = unat a - unat b"
  by (simp add: saturating_sub_word_def word_less_nat_alt unat_sub word_le_nat_alt)

section \<open>Input and output\<close>

text \<open>
  The kinds of \<open>std::io::Error\<close> that the sources match on; every other kind is \<open>OtherKind\<close> with a
  number that tells them apart.
\<close>

datatype io_error =
    Interrupted | UnexpectedEof | ConnectionRefused | NotFound | PermissionDenied | WouldBlock
  | OtherKind nat

text \<open>
  A reader is what is still to come on the stream: bytes, and failures of single \<open>read\<close> calls
  between them; the end of the list is the end of the stream.
\<close>

datatype rd_item = Byte u8 | Fail io_error

type_synonym reader = "rd_item list"

fun read1 :: "reader \<Rightarrow> (u8 option, io_error) result \<times> reader" where
  "read1 [] = (Ok None, [])"
| "read1 (Byte b # r) = (Ok (Some b), r)"
| "read1 (Fail e # r) = (Err e, r)"

text \<open>
  \<open>Read::read_exact\<close>: interrupted reads are retried, the end of the stream is the error
  \<open>UnexpectedEof\<close>, and the bytes read before a failure are lost.
\<close>

fun read_exact :: "nat \<Rightarrow> reader \<Rightarrow> (u8 list, io_error) result \<times> reader" where
  "read_exact 0 r = (Ok [], r)"
| "read_exact (Suc n) [] = (Err UnexpectedEof, [])"
| "read_exact (Suc n) (Byte b # r) =
     (case read_exact n r of
        (Ok bs, r') \<Rightarrow> (Ok (b # bs), r')
      | (Err e, r') \<Rightarrow> (Err e, r'))"
| "read_exact (Suc n) (Fail e # r) =
     (if e = Interrupted then read_exact (Suc n) r else (Err e, r))"

text \<open>
  A writer keeps what was written, and fails with a given error once its budget of bytes is used
  up (no budget: it never fails).
\<close>

record writer =
  wr_out :: "u8 list"
  wr_budget :: "(nat \<times> io_error) option"

fun write_all :: "writer \<Rightarrow> u8 list \<Rightarrow> (unit, io_error) result \<times> writer" where
  "write_all w bs =
     (case wr_budget w of
        None \<Rightarrow> (Ok (), w\<lparr>wr_out := wr_out w @ bs\<rparr>)
      | Some (n, e) \<Rightarrow>
          (if length bs \<le> n
           then (Ok (), w\<lparr>wr_out := wr_out w @ bs, wr_budget := Some (n - length bs, e)\<rparr>)
           else (Err e, w\<lparr>wr_out := wr_out w @ take n bs, wr_budget := Some (0, e)\<rparr>)))"

definition reader_of :: "u8 list \<Rightarrow> reader" where
  "reader_of bs = map Byte bs"

definition empty_writer :: writer where
  "empty_writer = \<lparr>wr_out = [], wr_budget = None\<rparr>"

lemma reader_of_simps [simp, io_simps]:
  "reader_of [] = []"
  "reader_of (b # bs) = Byte b # reader_of bs"
  "reader_of (xs @ ys) = reader_of xs @ reader_of ys"
  by (simp_all add: reader_of_def)

lemma reader_of_Nil_iff [simp]: "reader_of bs = [] \<longleftrightarrow> bs = []"
  by (simp add: reader_of_def)

lemma read_exact_bytes [io_simps]:
  "read_exact (length bs) (reader_of bs @ r) = (Ok bs, r)"
  by (induction bs) auto

lemma read_exact_short:
  "length bs < n \<Longrightarrow> read_exact n (reader_of bs) = (Err UnexpectedEof, [])"
proof (induction bs arbitrary: n)
  case Nil
  then show ?case by (cases n) auto
next
  case (Cons b bs)
  then show ?case by (cases n) auto
qed

lemma read_exact_Ok_length:
  "read_exact n r = (Ok bs, r') \<Longrightarrow> length bs = n"
  by (induction n r arbitrary: bs r' rule: read_exact.induct)
    (auto split: prod.splits result.splits if_splits)

lemma read_exact_consumes:
  "read_exact n r = (res, r') \<Longrightarrow> length r' \<le> length r"
  by (induction n r arbitrary: res r' rule: read_exact.induct)
    (auto split: prod.splits result.splits if_splits dest: le_SucI)

lemma read_exact_suffix:
  "read_exact n r = (res, r') \<Longrightarrow> suffix r' r"
  by (induction n r arbitrary: res r' rule: read_exact.induct)
    (auto split: prod.splits result.splits if_splits intro: suffix_ConsI)

section \<open>Lists\<close>

text \<open>The last \<open>n\<close> elements of a list, all of it when it is shorter.\<close>

definition last_n :: "nat \<Rightarrow> 'a list \<Rightarrow> 'a list" where
  "last_n n xs = drop (length xs - n) xs"

lemma length_last_n [simp]: "length (last_n n xs) = min n (length xs)"
  by (auto simp: last_n_def)

lemma last_n_all: "length xs \<le> n \<Longrightarrow> last_n n xs = xs"
  by (simp add: last_n_def)

lemma last_n_Nil [simp]: "last_n n [] = []"
  by (simp add: last_n_def)

lemma last_n_append_long: "n \<le> length ys \<Longrightarrow> last_n n (xs @ ys) = last_n n ys"
  by (simp add: last_n_def)

lemma last_n_append_short:
  "length ys \<le> n \<Longrightarrow> last_n n (xs @ ys) = last_n (n - length ys) xs @ ys"
  by (simp add: last_n_def)

lemma last_n_last_n_append:
  "last_n n (last_n n xs @ ys) = last_n n (xs @ ys)"
proof (cases "length xs \<le> n")
  case False
  then have "length xs + length ys - (length xs - n + n) + (length xs - n)
      = length xs + length ys - n"
    by linarith
  then show ?thesis by (simp add: last_n_def)
qed (simp add: last_n_all)

lemma suffix_last_n: "suffix (last_n n xs) xs"
  by (simp add: last_n_def suffix_drop)

section \<open>Strings\<close>

text \<open>
  A Rust \<open>String\<close> is modelled by its UTF-8 bytes: \<open>string\<close> is a list of 8-bit characters.
\<close>

definition digit_char :: "nat \<Rightarrow> char" where
  "digit_char d = char_of (48 + d)"

fun show_nat :: "nat \<Rightarrow> string" where
  "show_nat n = (if n < 10 then [digit_char n] else show_nat (n div 10) @ [digit_char (n mod 10)])"

declare show_nat.simps [simp del]

definition digit_of :: "char \<Rightarrow> nat option" where
  "digit_of c = (let n = of_char c in if 48 \<le> n \<and> n \<le> 57 then Some (n - 48) else None)"

fun parse_digits :: "nat \<Rightarrow> string \<Rightarrow> nat option" where
  "parse_digits acc [] = Some acc"
| "parse_digits acc (c # cs) =
     (case digit_of c of None \<Rightarrow> None | Some d \<Rightarrow> parse_digits (10 * acc + d) cs)"

text \<open>
  \<open>str::parse::<usize>\<close>: one optional plus sign, at least one digit, and no overflow.
\<close>

definition parse_usize :: "string \<Rightarrow> nat option" where
  "parse_usize s =
     (let ds = (case s of c # cs \<Rightarrow> if c = CHR ''+'' then cs else s | [] \<Rightarrow> []) in
      if ds = [] then None
      else (case parse_digits 0 ds of
              None \<Rightarrow> None
            | Some n \<Rightarrow> if n \<le> usize_max then Some n else None))"

lemma digit_of_digit_char [simp]: "d < 10 \<Longrightarrow> digit_of (digit_char d) = Some d"
  by (simp add: digit_of_def digit_char_def)

lemma digit_char_no_plus: "d < 10 \<Longrightarrow> digit_char d \<noteq> CHR ''+''"
proof
  assume "d < 10" and "digit_char d = CHR ''+''"
  then have "digit_of (CHR ''+'') = Some d" by (metis digit_of_digit_char)
  then show False by (simp add: digit_of_def)
qed

lemma parse_digits_append:
  "parse_digits acc (xs @ ys) =
     (case parse_digits acc xs of None \<Rightarrow> None | Some n \<Rightarrow> parse_digits n ys)"
  by (induction xs arbitrary: acc) (auto split: option.splits)

lemma show_nat_nonempty [simp]: "show_nat n \<noteq> []"
  by (simp add: show_nat.simps [of n])

lemma parse_digits_show_nat: "parse_digits 0 (show_nat n) = Some n"
proof (induction n rule: show_nat.induct)
  case (1 n)
  show ?case
  proof (cases "n < 10")
    case True
    then show ?thesis by (simp add: show_nat.simps [of n])
  next
    case False
    with 1 have "parse_digits 0 (show_nat (n div 10)) = Some (n div 10)" by simp
    with False show ?thesis
      by (simp add: show_nat.simps [of n] parse_digits_append)
  qed
qed

lemma digit_chars_show_nat: "c \<in> set (show_nat n) \<Longrightarrow> \<exists>d<10. c = digit_char d"
proof (induction n rule: show_nat.induct)
  case (1 n)
  have "\<exists>d<10. digit_char (n mod 10) = digit_char d"
    by (rule exI [of _ "n mod 10"]) simp
  with 1 show ?case
    by (cases "n < 10") (auto simp: show_nat.simps [of n])
qed

lemma parse_usize_show_nat: "n \<le> usize_max \<Longrightarrow> parse_usize (show_nat n) = Some n"
proof -
  assume n: "n \<le> usize_max"
  obtain c cs where c: "show_nat n = c # cs" by (cases "show_nat n") auto
  then have "c \<noteq> CHR ''+''" using digit_chars_show_nat [of c n] digit_char_no_plus by auto
  with n c parse_digits_show_nat [of n] show ?thesis
    by (simp add: parse_usize_def Let_def)
qed

lemma show_nat_inj: "show_nat m = show_nat n \<Longrightarrow> m = n"
  by (metis option.inject parse_digits_show_nat)

text \<open>Splitting at a character, as \<open>split\<close> of Rust and of JavaScript do.\<close>

fun split_on :: "'a \<Rightarrow> 'a list \<Rightarrow> 'a list list" where
  "split_on c [] = [[]]"
| "split_on c (x # xs) =
     (if x = c then [] # split_on c xs
      else (case split_on c xs of [] \<Rightarrow> [[x]] | y # ys \<Rightarrow> (x # y) # ys))"

fun join_with :: "'a list \<Rightarrow> 'a list list \<Rightarrow> 'a list" where
  "join_with sep [] = []"
| "join_with sep [x] = x"
| "join_with sep (x # y # ys) = x @ sep @ join_with sep (y # ys)"

lemma split_on_nonempty [simp]: "split_on c xs \<noteq> []"
  by (induction xs) (auto split: list.splits)

lemma hd_split_on: "hd (split_on c xs) = takeWhile (\<lambda>x. x \<noteq> c) xs"
  by (induction c xs rule: split_on.induct) (auto split: list.splits)

lemma split_on_no_sep: "c \<notin> set xs \<Longrightarrow> split_on c xs = [xs]"
  by (induction xs) auto

lemma split_on_sep_free: "x \<in> set (split_on c xs) \<Longrightarrow> c \<notin> set x"
  by (induction xs arbitrary: x) (auto split: list.splits if_splits)

lemma split_on_append_sep: "split_on c (xs @ c # ys) = split_on c xs @ split_on c ys"
  by (induction xs) (auto split: list.splits)

lemma join_split_on: "join_with [c] (split_on c xs) = xs"
proof (induction xs)
  case (Cons x xs)
  obtain y ys where "split_on c xs = y # ys" by (cases "split_on c xs") auto
  with Cons show ?case by (cases ys) auto
qed simp

lemma split_join_with:
  "xs \<noteq> [] \<Longrightarrow> (\<And>x. x \<in> set xs \<Longrightarrow> c \<notin> set x) \<Longrightarrow> split_on c (join_with [c] xs) = xs"
  by (induction "[c]" xs rule: join_with.induct)
    (auto simp: split_on_no_sep split_on_append_sep)

definition strip_suffix :: "'a list \<Rightarrow> 'a list \<Rightarrow> 'a list option" where
  "strip_suffix suf xs =
     (if length suf \<le> length xs \<and> drop (length xs - length suf) xs = suf
      then Some (take (length xs - length suf) xs) else None)"

definition strip_prefix :: "'a list \<Rightarrow> 'a list \<Rightarrow> 'a list option" where
  "strip_prefix pre xs = (if take (length pre) xs = pre then Some (drop (length pre) xs) else None)"

lemma strip_suffix_append [simp]: "strip_suffix suf (xs @ suf) = Some xs"
  by (simp add: strip_suffix_def)

lemma strip_suffix_Some_iff: "strip_suffix suf xs = Some ys \<longleftrightarrow> xs = ys @ suf"
  by (auto simp: strip_suffix_def) (metis append_take_drop_id)

lemma strip_prefix_Some_iff: "strip_prefix pre xs = Some ys \<longleftrightarrow> xs = pre @ ys"
  by (auto simp: strip_prefix_def) (metis append_take_drop_id)

text \<open>Padding of the format specifications \<open>{:>n}\<close> and \<open>{:<n}\<close>.\<close>

definition pad_left :: "nat \<Rightarrow> string \<Rightarrow> string" where
  "pad_left n s = replicate (n - length s) (CHR '' '') @ s"

definition pad_right :: "nat \<Rightarrow> string \<Rightarrow> string" where
  "pad_right n s = s @ replicate (n - length s) (CHR '' '')"

text \<open>ASCII white space, and \<open>str::trim\<close> on ASCII text.\<close>

definition is_space :: "char \<Rightarrow> bool" where
  "is_space c \<longleftrightarrow> (let n = (of_char c :: nat) in n = 32 \<or> (9 \<le> n \<and> n \<le> 13))"

definition trim_end :: "string \<Rightarrow> string" where
  "trim_end s = rev (dropWhile is_space (rev s))"

definition trim :: "string \<Rightarrow> string" where
  "trim s = trim_end (dropWhile is_space s)"

lemma nth_update_in: "k < length xs \<Longrightarrow> xs[i := v] ! k = (if k = i then v else xs ! k)"
  by (cases "i = k") simp_all

end
