(* ===== verification/Protocol.thy ===== *)
theory Protocol
  imports Obi_Prelude
begin

text \<open>
  The wire protocol (\<open>src/src/protocol.rs\<close>) and its transport wrappers (\<open>src/src/transport.rs\<close>):
  message types, message bodies, frames, \<open>Frame::write_to\<close>, \<open>read_frame\<close>, the capability
  handshake's intersection and the protocol baseline check. The CBOR encoder and decoder are the
  third-party crate \<open>ciborium\<close>: they are a parameter of the definitions that use them (a
  \<open>codec\<close>). The lemmas show that frames round trip over a byte stream, that truncated and oversized
  input is rejected, and that no frame with a payload above the limit is ever built or read.
\<close>

section \<open>Constants and message types\<close>

definition HEADER_LEN :: nat where
  [obi_consts]: "HEADER_LEN = 6"

definition MAX_PAYLOAD_LEN :: nat where
  [obi_consts]: "MAX_PAYLOAD_LEN = 1024 * 1024"

definition CURRENT_PROTOCOL_BASELINE :: string where
  [obi_consts]: "CURRENT_PROTOCOL_BASELINE = ''0.1''"

definition CAP_PTY_V1 :: string where
  [obi_consts]: "CAP_PTY_V1 = ''pty.v1''"

definition CAP_REPLAY_V1 :: string where
  [obi_consts]: "CAP_REPLAY_V1 = ''replay.v1''"

definition CAP_DETACH_V1 :: string where
  [obi_consts]: "CAP_DETACH_V1 = ''detach.v1''"

definition CAP_SESSION_LIST_V1 :: string where
  [obi_consts]: "CAP_SESSION_LIST_V1 = ''session-list.v1''"

definition CAP_EXIT_CODE_V1 :: string where
  [obi_consts]: "CAP_EXIT_CODE_V1 = ''exit-code.v1''"

definition CAP_INITIAL_WINDOW_SIZE_V1 :: string where
  [obi_consts]: "CAP_INITIAL_WINDOW_SIZE_V1 = ''initial-window-size.v1''"

definition CAP_KEEPALIVE_V1 :: string where
  [obi_consts]: "CAP_KEEPALIVE_V1 = ''keepalive.v1''"

definition DEFAULT_CAPABILITIES :: "string list" where
  [obi_consts]: "DEFAULT_CAPABILITIES =
    [CAP_PTY_V1, CAP_REPLAY_V1, CAP_DETACH_V1, CAP_SESSION_LIST_V1, CAP_EXIT_CODE_V1,
     CAP_INITIAL_WINDOW_SIZE_V1, CAP_KEEPALIVE_V1]"

text \<open>\<open>MessageType\<close> is a newtype over \<open>u8\<close>; its associated constants are the known types.\<close>

type_synonym msg_type = u8

definition CAPABILITIES :: msg_type where [obi_consts]: "CAPABILITIES = 1"
definition SESSION_LIST_REQUEST :: msg_type where [obi_consts]: "SESSION_LIST_REQUEST = 2"
definition SESSION_LIST :: msg_type where [obi_consts]: "SESSION_LIST = 3"
definition NEW_SESSION :: msg_type where [obi_consts]: "NEW_SESSION = 4"
definition ATTACH_SESSION :: msg_type where [obi_consts]: "ATTACH_SESSION = 5"
definition BROKER_ATTACH :: msg_type where [obi_consts]: "BROKER_ATTACH = 6"
definition DAEMON_INFO_REQUEST :: msg_type where [obi_consts]: "DAEMON_INFO_REQUEST = 7"
definition DAEMON_INFO :: msg_type where [obi_consts]: "DAEMON_INFO = 8"
definition DETACH :: msg_type where [obi_consts]: "DETACH = 9"
definition CLIENT_SHOULD_EXIT :: msg_type where [obi_consts]: "CLIENT_SHOULD_EXIT = 10"
definition SESSION_BUSY :: msg_type where [obi_consts]: "SESSION_BUSY = 11"
definition PTY_DATA :: msg_type where [obi_consts]: "PTY_DATA = 12"
definition WINDOW_SIZE :: msg_type where [obi_consts]: "WINDOW_SIZE = 13"
definition EXIT_STATUS :: msg_type where [obi_consts]: "EXIT_STATUS = 14"
definition ERROR :: msg_type where [obi_consts]: "ERROR = 15"
definition ATTACHED_SESSION :: msg_type where [obi_consts]: "ATTACHED_SESSION = 16"
definition INITIAL_WINDOW_SIZE :: msg_type where [obi_consts]: "INITIAL_WINDOW_SIZE = 17"
definition PING :: msg_type where [obi_consts]: "PING = 18"
definition PONG :: msg_type where [obi_consts]: "PONG = 19"

definition msg_name :: "msg_type \<Rightarrow> string option" where
  "msg_name t =
    (if t = CAPABILITIES then Some ''Capabilities''
     else if t = SESSION_LIST_REQUEST then Some ''SessionListRequest''
     else if t = SESSION_LIST then Some ''SessionList''
     else if t = NEW_SESSION then Some ''NewSession''
     else if t = ATTACH_SESSION then Some ''AttachSession''
     else if t = BROKER_ATTACH then Some ''BrokerAttach''
     else if t = DAEMON_INFO_REQUEST then Some ''DaemonInfoRequest''
     else if t = DAEMON_INFO then Some ''DaemonInfo''
     else if t = DETACH then Some ''Detach''
     else if t = CLIENT_SHOULD_EXIT then Some ''ClientShouldExit''
     else if t = SESSION_BUSY then Some ''SessionBusy''
     else if t = PTY_DATA then Some ''PtyData''
     else if t = WINDOW_SIZE then Some ''WindowSize''
     else if t = EXIT_STATUS then Some ''ExitStatus''
     else if t = ERROR then Some ''Error''
     else if t = ATTACHED_SESSION then Some ''AttachedSession''
     else if t = INITIAL_WINDOW_SIZE then Some ''InitialWindowSize''
     else if t = PING then Some ''Ping''
     else if t = PONG then Some ''Pong''
     else None)"

section \<open>Errors and message bodies\<close>

datatype protocol_error =
    Io io_error
  | TruncatedHeader
  | TruncatedPayload nat nat \<comment> \<open>expected, actual\<close>
  | PayloadTooLarge nat nat \<comment> \<open>len, max\<close>
  | InvalidMessage string

type_synonym UnixTimeMillis = u64

record WindowSize =
  rows :: u16
  cols :: u16
  pixel_width :: u16
  pixel_height :: u16

record SessionRecord =
  rec_session_id :: string
  rec_init_time :: UnixTimeMillis
  rec_last_detach_time :: "UnixTimeMillis option"
  rec_current_command :: string
  rec_attached :: bool

text \<open>The \<open>i32\<close> fields of \<open>ExitStatus\<close> are integers.\<close>

record ExitStatus =
  es_code :: "int option"
  es_signal :: "int option"

text \<open>One constructor per body struct of the protocol; \<open>BUnit\<close> is the body \<open>()\<close>.\<close>

datatype body =
    BCapabilities "string list"
  | BSessionListRequest bool
  | BDetachSessionRequest string
  | BSessionList "SessionRecord list"
  | BNewSessionRequest
  | BAttachSessionRequest string
  | BAttachedSession string
  | BBrokerAttachRequest
  | BSessionBusy string
  | BDaemonInfoRequest
  | BDaemonInfo SessionRecord
  | BDetachRequest
  | BPtyData "u8 list"
  | BWindowSize WindowSize
  | BKeepalive u64
  | BExitStatus ExitStatus
  | BErrorMessage string
  | BUnit

datatype body_kind =
    KCapabilities | KSessionListRequest | KDetachSessionRequest | KSessionList
  | KNewSessionRequest | KAttachSessionRequest | KAttachedSession | KBrokerAttachRequest
  | KSessionBusy | KDaemonInfoRequest | KDaemonInfo | KDetachRequest | KPtyData | KWindowSize
  | KKeepalive | KExitStatus | KErrorMessage | KUnit

primrec kind_of :: "body \<Rightarrow> body_kind" where
  "kind_of (BCapabilities x) = KCapabilities"
| "kind_of (BSessionListRequest x) = KSessionListRequest"
| "kind_of (BDetachSessionRequest x) = KDetachSessionRequest"
| "kind_of (BSessionList x) = KSessionList"
| "kind_of BNewSessionRequest = KNewSessionRequest"
| "kind_of (BAttachSessionRequest x) = KAttachSessionRequest"
| "kind_of (BAttachedSession x) = KAttachedSession"
| "kind_of BBrokerAttachRequest = KBrokerAttachRequest"
| "kind_of (BSessionBusy x) = KSessionBusy"
| "kind_of BDaemonInfoRequest = KDaemonInfoRequest"
| "kind_of (BDaemonInfo x) = KDaemonInfo"
| "kind_of BDetachRequest = KDetachRequest"
| "kind_of (BPtyData x) = KPtyData"
| "kind_of (BWindowSize x) = KWindowSize"
| "kind_of (BKeepalive x) = KKeepalive"
| "kind_of (BExitStatus x) = KExitStatus"
| "kind_of (BErrorMessage x) = KErrorMessage"
| "kind_of BUnit = KUnit"

text \<open>
  The CBOR encoder and decoder of the crate \<open>ciborium\<close>: \<open>cbor_enc\<close> is \<open>into_writer\<close> (it may fail)
  and \<open>cbor_dec k\<close> is \<open>from_reader\<close> at the body type \<open>k\<close>.
\<close>

record codec =
  cbor_enc :: "body \<Rightarrow> u8 list option"
  cbor_dec :: "body_kind \<Rightarrow> u8 list \<Rightarrow> body option"

definition codec_round_trips :: "codec \<Rightarrow> bool" where
  "codec_round_trips c \<longleftrightarrow>
     (\<forall>b bs. cbor_enc c b = Some bs \<longrightarrow> cbor_dec c (kind_of b) bs = Some b)"

section \<open>Frames\<close>

record Frame =
  frame_msg_type :: msg_type
  frame_flags :: u8
  frame_payload :: "u8 list"

definition frame_new :: "msg_type \<Rightarrow> u8 \<Rightarrow> u8 list \<Rightarrow> (Frame, protocol_error) result" where
  "frame_new t fl payload =
     (if length payload > MAX_PAYLOAD_LEN
      then Err (PayloadTooLarge (length payload) MAX_PAYLOAD_LEN)
      else Ok \<lparr>frame_msg_type = t, frame_flags = fl, frame_payload = payload\<rparr>)"

definition from_body :: "codec \<Rightarrow> msg_type \<Rightarrow> u8 \<Rightarrow> body \<Rightarrow> (Frame, protocol_error) result" where
  "from_body c t fl b =
     (case cbor_enc c b of
        None \<Rightarrow> Err (InvalidMessage ''failed to encode CBOR body'')
      | Some payload \<Rightarrow> frame_new t fl payload)"

definition decode_body :: "codec \<Rightarrow> body_kind \<Rightarrow> Frame \<Rightarrow> (body, protocol_error) result" where
  "decode_body c k f =
     (case cbor_dec c k (frame_payload f) of
        None \<Rightarrow> Err (InvalidMessage ''malformed CBOR body'')
      | Some b \<Rightarrow> Ok b)"

text \<open>
  \<open>decode_body\<close> at a body struct with one constructor, projected to its contents. The decoder
  returns values of the requested type; a value of another shape counts as malformed.
\<close>

definition decode_as ::
  "codec \<Rightarrow> body_kind \<Rightarrow> (body \<Rightarrow> 'a option) \<Rightarrow> Frame \<Rightarrow> ('a, protocol_error) result" where
  "decode_as c k sel f =
     (case decode_body c k f of
        Err e \<Rightarrow> Err e
      | Ok b \<Rightarrow> (case sel b of
                   None \<Rightarrow> Err (InvalidMessage ''malformed CBOR body'')
                 | Some x \<Rightarrow> Ok x))"

definition decode_Capabilities :: "codec \<Rightarrow> Frame \<Rightarrow> (string list, protocol_error) result" where
  "decode_Capabilities c = decode_as c KCapabilities (\<lambda>b. case b of BCapabilities x \<Rightarrow> Some x | _ \<Rightarrow> None)"

definition decode_SessionListRequest :: "codec \<Rightarrow> Frame \<Rightarrow> (bool, protocol_error) result" where
  "decode_SessionListRequest c = decode_as c KSessionListRequest (\<lambda>b. case b of BSessionListRequest x \<Rightarrow> Some x | _ \<Rightarrow> None)"

definition decode_DetachSessionRequest :: "codec \<Rightarrow> Frame \<Rightarrow> (string, protocol_error) result" where
  "decode_DetachSessionRequest c = decode_as c KDetachSessionRequest (\<lambda>b. case b of BDetachSessionRequest x \<Rightarrow> Some x | _ \<Rightarrow> None)"

definition decode_SessionList :: "codec \<Rightarrow> Frame \<Rightarrow> (SessionRecord list, protocol_error) result" where
  "decode_SessionList c = decode_as c KSessionList (\<lambda>b. case b of BSessionList x \<Rightarrow> Some x | _ \<Rightarrow> None)"

definition decode_AttachSessionRequest :: "codec \<Rightarrow> Frame \<Rightarrow> (string, protocol_error) result" where
  "decode_AttachSessionRequest c = decode_as c KAttachSessionRequest (\<lambda>b. case b of BAttachSessionRequest x \<Rightarrow> Some x | _ \<Rightarrow> None)"

definition decode_AttachedSession :: "codec \<Rightarrow> Frame \<Rightarrow> (string, protocol_error) result" where
  "decode_AttachedSession c = decode_as c KAttachedSession (\<lambda>b. case b of BAttachedSession x \<Rightarrow> Some x | _ \<Rightarrow> None)"

definition decode_SessionBusy :: "codec \<Rightarrow> Frame \<Rightarrow> (string, protocol_error) result" where
  "decode_SessionBusy c = decode_as c KSessionBusy (\<lambda>b. case b of BSessionBusy x \<Rightarrow> Some x | _ \<Rightarrow> None)"

definition decode_DaemonInfo :: "codec \<Rightarrow> Frame \<Rightarrow> (SessionRecord, protocol_error) result" where
  "decode_DaemonInfo c = decode_as c KDaemonInfo (\<lambda>b. case b of BDaemonInfo x \<Rightarrow> Some x | _ \<Rightarrow> None)"

definition decode_PtyData :: "codec \<Rightarrow> Frame \<Rightarrow> (u8 list, protocol_error) result" where
  "decode_PtyData c = decode_as c KPtyData (\<lambda>b. case b of BPtyData x \<Rightarrow> Some x | _ \<Rightarrow> None)"

definition decode_WindowSize :: "codec \<Rightarrow> Frame \<Rightarrow> (WindowSize, protocol_error) result" where
  "decode_WindowSize c = decode_as c KWindowSize (\<lambda>b. case b of BWindowSize x \<Rightarrow> Some x | _ \<Rightarrow> None)"

definition decode_Keepalive :: "codec \<Rightarrow> Frame \<Rightarrow> (u64, protocol_error) result" where
  "decode_Keepalive c = decode_as c KKeepalive (\<lambda>b. case b of BKeepalive x \<Rightarrow> Some x | _ \<Rightarrow> None)"

definition decode_ExitStatus :: "codec \<Rightarrow> Frame \<Rightarrow> (ExitStatus, protocol_error) result" where
  "decode_ExitStatus c = decode_as c KExitStatus (\<lambda>b. case b of BExitStatus x \<Rightarrow> Some x | _ \<Rightarrow> None)"

definition decode_ErrorMessage :: "codec \<Rightarrow> Frame \<Rightarrow> (string, protocol_error) result" where
  "decode_ErrorMessage c = decode_as c KErrorMessage (\<lambda>b. case b of BErrorMessage x \<Rightarrow> Some x | _ \<Rightarrow> None)"

definition u32_to_be_bytes :: "u32 \<Rightarrow> u8 list" where
  "u32_to_be_bytes w =
     [ucast (drop_bit 24 w), ucast (drop_bit 16 w), ucast (drop_bit 8 w), ucast w]"

definition u32_from_be_bytes :: "u8 \<Rightarrow> u8 \<Rightarrow> u8 \<Rightarrow> u8 \<Rightarrow> u32" where
  "u32_from_be_bytes a b c d =
     or (push_bit 24 (ucast a)) (or (push_bit 16 (ucast b)) (or (push_bit 8 (ucast c)) (ucast d)))"

definition write_to :: "Frame \<Rightarrow> writer \<Rightarrow> (unit, protocol_error) result \<times> writer" where
  "write_to f w =
     (let n = length (frame_payload f) in
      if \<not> n < 2 ^ 32 then (Err (PayloadTooLarge n MAX_PAYLOAD_LEN), w)
      else if n > MAX_PAYLOAD_LEN then (Err (PayloadTooLarge n MAX_PAYLOAD_LEN), w)
      else
        (case write_all w [frame_msg_type f, frame_flags f] of
           (Err e, w1) \<Rightarrow> (Err (Io e), w1)
         | (Ok _, w1) \<Rightarrow>
             (case write_all w1 (u32_to_be_bytes (word_of_nat n)) of
                (Err e, w2) \<Rightarrow> (Err (Io e), w2)
              | (Ok _, w2) \<Rightarrow>
                  (case write_all w2 (frame_payload f) of
                     (Err e, w3) \<Rightarrow> (Err (Io e), w3)
                   | (Ok _, w3) \<Rightarrow> (Ok (), w3)))))"

definition read_frame :: "reader \<Rightarrow> (Frame option, protocol_error) result \<times> reader" where
  "read_frame r =
     (case read1 r of
        (Err e, r1) \<Rightarrow> (Err (Io e), r1)
      | (Ok None, r1) \<Rightarrow> (Ok None, r1)
      | (Ok (Some h0), r1) \<Rightarrow>
          (case read_exact (HEADER_LEN - 1) r1 of
             (Err e, r2) \<Rightarrow> (Err (if e = UnexpectedEof then TruncatedHeader else Io e), r2)
           | (Ok h, r2) \<Rightarrow>
               (let len = unat (u32_from_be_bytes (h ! 1) (h ! 2) (h ! 3) (h ! 4)) in
                if len > MAX_PAYLOAD_LEN then (Err (PayloadTooLarge len MAX_PAYLOAD_LEN), r2)
                else
                  (case read_exact len r2 of
                     (Err e, r3) \<Rightarrow>
                       (Err (if e = UnexpectedEof then TruncatedPayload len 0 else Io e), r3)
                   | (Ok payload, r3) \<Rightarrow>
                       (case frame_new h0 (h ! 0) payload of
                          Ok f \<Rightarrow> (Ok (Some f), r3)
                        | Err e \<Rightarrow> (Err e, r3))))))"

definition write_body ::
  "codec \<Rightarrow> msg_type \<Rightarrow> u8 \<Rightarrow> body \<Rightarrow> writer \<Rightarrow> (unit, protocol_error) result \<times> writer" where
  "write_body c t fl b w =
     (case from_body c t fl b of
        Err e \<Rightarrow> (Err e, w)
      | Ok f \<Rightarrow> write_to f w)"

definition supports_protocol_baseline :: "string \<Rightarrow> bool" where
  "supports_protocol_baseline baseline \<longleftrightarrow>
     baseline \<in> {''0.1'', ''0.1.0'', ''0.1.1'', ''0.1.2'', ''0.1.3''}"

definition intersection :: "string list \<Rightarrow> string list \<Rightarrow> string list" where
  "intersection self peer = filter (\<lambda>capability. capability \<in> set peer) self"

text \<open>Successive frames of a stream, up to its end or to the first error.\<close>

lemma read_frame_consumes:
  assumes "read_frame r = (Ok (Some f), r')"
  shows "length r' < length r"
proof -
  from assms obtain h0 r1 h r2 payload n
    where r1: "read1 r = (Ok (Some h0), r1)"
      and r2: "read_exact (HEADER_LEN - 1) r1 = (Ok h, r2)"
      and r3: "read_exact n r2 = (Ok payload, r')"
    by (auto simp: read_frame_def Let_def split: prod.splits result.splits option.splits if_splits)
  from r1 have "length r = Suc (length r1)"
    by (cases r rule: read1.cases) auto
  with r2 r3 show ?thesis
    by (metis le_imp_less_Suc order_trans read_exact_consumes)
qed

function read_frames :: "reader \<Rightarrow> Frame list \<times> (unit, protocol_error) result" where
  "read_frames r =
     (case read_frame r of
        (Err e, _) \<Rightarrow> ([], Err e)
      | (Ok None, _) \<Rightarrow> ([], Ok ())
      | (Ok (Some f), r') \<Rightarrow> (let (fs, res) = read_frames r' in (f # fs, res)))"
  by pat_completeness auto
termination
  by (relation "measure length") (auto dest!: read_frame_consumes [OF sym])

declare read_frames.simps [simp del]

fun write_frames :: "Frame list \<Rightarrow> writer \<Rightarrow> (unit, protocol_error) result \<times> writer" where
  "write_frames [] w = (Ok (), w)"
| "write_frames (f # fs) w =
     (case write_to f w of
        (Err e, w') \<Rightarrow> (Err e, w')
      | (Ok _, w') \<Rightarrow> write_frames fs w')"

section \<open>Lemmas\<close>

lemma u32_from_be_bytes_split:
  "u32_from_be_bytes (ucast (drop_bit 24 w)) (ucast (drop_bit 16 w)) (ucast (drop_bit 8 w)) (ucast w)
     = w" (is "?l = w")
proof (rule bit_word_eqI)
  fix n assume "n < LENGTH(32)"
  then consider "n < 8" | "8 \<le> n" "n < 16" | "16 \<le> n" "n < 24" | "24 \<le> n" "n < 32"
    by fastforce
  then show "bit ?l n = bit w n"
    by cases (auto simp: u32_from_be_bytes_def bit_simps)
qed

lemma u32_be_round_trip:
  "u32_to_be_bytes w = [a, b, c, d] \<Longrightarrow> u32_from_be_bytes a b c d = w"
  using u32_from_be_bytes_split [of w] by (simp add: u32_to_be_bytes_def)

lemma length_u32_to_be_bytes [simp]: "length (u32_to_be_bytes w) = 4"
  by (simp add: u32_to_be_bytes_def)

lemma MAX_PAYLOAD_LEN_less: "n \<le> MAX_PAYLOAD_LEN \<Longrightarrow> n < 2 ^ 32"
  by (simp add: MAX_PAYLOAD_LEN_def)

text \<open>The bytes of a frame on the wire.\<close>

definition frame_bytes :: "Frame \<Rightarrow> u8 list" where
  "frame_bytes f = [frame_msg_type f, frame_flags f]
     @ u32_to_be_bytes (word_of_nat (length (frame_payload f))) @ frame_payload f"

definition frame_ok :: "Frame \<Rightarrow> bool" where
  "frame_ok f \<longleftrightarrow> length (frame_payload f) \<le> MAX_PAYLOAD_LEN"

lemma length_frame_bytes: "length (frame_bytes f) = HEADER_LEN + length (frame_payload f)"
  by (simp add: frame_bytes_def HEADER_LEN_def)

lemma frame_new_Ok_iff:
  "frame_new t fl p = Ok f \<longleftrightarrow>
     length p \<le> MAX_PAYLOAD_LEN \<and> f = \<lparr>frame_msg_type = t, frame_flags = fl, frame_payload = p\<rparr>"
  by (auto simp: frame_new_def)

lemma from_body_Ok_iff:
  "from_body c t fl b = Ok f \<longleftrightarrow>
     (\<exists>p. cbor_enc c b = Some p \<and> length p \<le> MAX_PAYLOAD_LEN \<and>
          f = \<lparr>frame_msg_type = t, frame_flags = fl, frame_payload = p\<rparr>)"
  by (auto simp: from_body_def frame_new_Ok_iff split: option.splits)

lemma write_all_Ok:
  "write_all w bs = (Ok (), w') \<Longrightarrow> wr_out w' = wr_out w @ bs"
  by (auto split: option.splits if_splits)

lemma write_all_prefix:
  "write_all w bs = (res, w') \<Longrightarrow> \<exists>ds. prefix ds bs \<and> wr_out w' = wr_out w @ ds"
  by (auto simp: take_is_prefix split: option.splits if_splits)

lemma write_to_Ok:
  "write_to f w = (Ok (), w') \<Longrightarrow> frame_ok f \<and> wr_out w' = wr_out w @ frame_bytes f"
  by (auto simp: write_to_def frame_ok_def frame_bytes_def Let_def
      simp del: write_all.simps dest!: write_all_Ok
      split: prod.splits result.splits if_splits)

lemma write_to_no_budget:
  assumes "frame_ok f" and "wr_budget w = None"
  shows "write_to f w = (Ok (), w\<lparr>wr_out := wr_out w @ frame_bytes f\<rparr>)"
  using assms MAX_PAYLOAD_LEN_less [of "length (frame_payload f)"]
  by (simp add: write_to_def frame_ok_def frame_bytes_def Let_def)

lemma read_exact_5:
  "read_exact (HEADER_LEN - Suc 0) (Byte a # Byte b # Byte c # Byte d # Byte e # r) =
     (Ok [a, b, c, d, e], r)"
  by (simp add: HEADER_LEN_def eval_nat_numeral)

lemma read_frame_bytes:
  assumes "frame_ok f"
  shows "read_frame (reader_of (frame_bytes f) @ r) = (Ok (Some f), r)"
proof -
  let ?n = "length (frame_payload f)"
  obtain a b c d where be: "u32_to_be_bytes (word_of_nat ?n) = [a, b, c, d]"
    by (simp add: u32_to_be_bytes_def)
  have "unat (u32_from_be_bytes a b c d) = ?n"
    using assms MAX_PAYLOAD_LEN_less [of ?n]
    by (simp add: u32_be_round_trip [OF be] frame_ok_def unat_of_nat)
  with assms show ?thesis
    by (simp add: read_frame_def frame_bytes_def be frame_ok_def frame_new_def
        read_exact_5 read_exact_bytes)
qed

lemma read_frame_payload_bound:
  "read_frame r = (Ok (Some f), r') \<Longrightarrow> frame_ok f"
  by (auto simp: read_frame_def frame_ok_def Let_def frame_new_Ok_iff
      dest!: read_exact_Ok_length split: prod.splits result.splits option.splits if_splits)

text \<open>What a reader makes of a header and of the bytes that follow it.\<close>

lemma read_frame_header:
  assumes "u32_to_be_bytes (word_of_nat n) = [a, b, c, d]" and "n < 2 ^ 32"
  shows "read_frame (Byte t # Byte fl # Byte a # Byte b # Byte c # Byte d # r) =
     (if n > MAX_PAYLOAD_LEN then (Err (PayloadTooLarge n MAX_PAYLOAD_LEN), r)
      else
        (case read_exact n r of
           (Err e, r') \<Rightarrow> (Err (if e = UnexpectedEof then TruncatedPayload n 0 else Io e), r')
         | (Ok payload, r') \<Rightarrow>
             (Ok (Some \<lparr>frame_msg_type = t, frame_flags = fl, frame_payload = payload\<rparr>), r')))"
proof -
  have "unat (u32_from_be_bytes a b c d) = n"
    using assms(2) by (simp add: u32_be_round_trip [OF assms(1)] unat_of_nat)
  then show ?thesis
    by (auto simp: read_frame_def read_exact_5 frame_new_def dest: read_exact_Ok_length
        split: prod.splits result.splits)
qed

lemma read_frame_short_header:
  assumes "bs \<noteq> []" and "length bs < HEADER_LEN"
  shows "read_frame (reader_of bs) = (Err TruncatedHeader, [])"
proof -
  from assms(1) obtain b bs' where "bs = b # bs'" by (cases bs) auto
  with assms(2) show ?thesis
    by (simp add: read_frame_def read_exact_short HEADER_LEN_def)
qed

lemma read_frame_truncated:
  assumes ok: "frame_ok f" and k: "k < length (frame_bytes f)"
  shows "read_frame (reader_of (take k (frame_bytes f))) =
     (if k = 0 then Ok None
      else if k < HEADER_LEN then Err TruncatedHeader
      else Err (TruncatedPayload (length (frame_payload f)) 0), [])"
proof -
  let ?n = "length (frame_payload f)"
  consider "k = 0" | "0 < k" "k < HEADER_LEN" | "HEADER_LEN \<le> k" by linarith
  then show ?thesis
  proof cases
    case 1
    then show ?thesis by (simp add: read_frame_def)
  next
    case 2
    then show ?thesis
      using k read_frame_short_header [of "take k (frame_bytes f)"]
      by (simp add: length_frame_bytes frame_bytes_def HEADER_LEN_def)
  next
    case 3
    obtain a b c d where be: "u32_to_be_bytes (word_of_nat ?n) = [a, b, c, d]"
      by (simp add: u32_to_be_bytes_def)
    from 3 have "take k (frame_bytes f) =
        frame_msg_type f # frame_flags f # a # b # c # d # take (k - 6) (frame_payload f)"
      by (simp add: frame_bytes_def be HEADER_LEN_def take_Cons' numeral_eq_Suc)
    moreover have "k - 6 < ?n"
      using k 3 by (simp add: length_frame_bytes HEADER_LEN_def)
    moreover have "?n < 2 ^ 32"
      using ok unfolding frame_ok_def by (rule MAX_PAYLOAD_LEN_less)
    ultimately show ?thesis
      using ok 3 by (simp add: read_frame_header [OF be] frame_ok_def read_exact_short HEADER_LEN_def)
  qed
qed

lemma read_frames_bytes:
  "list_all frame_ok fs \<Longrightarrow>
     read_frames (reader_of (concat (map frame_bytes fs)) @ r) =
       (fs @ fst (read_frames r), snd (read_frames r))"
  by (induction fs) (auto simp: read_frames.simps [of "reader_of _ @ _"] read_frame_bytes
      split: prod.splits)

lemma read_frames_Nil [simp]: "read_frames [] = ([], Ok ())"
  by (simp add: read_frames.simps read_frame_def)

lemma write_frames_Ok:
  "write_frames fs w = (Ok (), w') \<Longrightarrow>
     list_all frame_ok fs \<and> wr_out w' = wr_out w @ concat (map frame_bytes fs)"
  by (induction fs arbitrary: w) (auto dest!: write_to_Ok split: prod.splits result.splits)

lemma decode_body_from_body:
  assumes "codec_round_trips c" and "from_body c t fl b = Ok f"
  shows "decode_body c (kind_of b) f = Ok b"
  using assms by (auto simp: codec_round_trips_def from_body_Ok_iff decode_body_def)

lemma decode_typed_from_body:
  assumes "codec_round_trips c" and "from_body c t fl b = Ok f"
  shows "b = BCapabilities cs \<Longrightarrow> decode_Capabilities c f = Ok cs"
    and "b = BSessionListRequest q \<Longrightarrow> decode_SessionListRequest c f = Ok q"
    and "b = BDetachSessionRequest i \<Longrightarrow> decode_DetachSessionRequest c f = Ok i"
    and "b = BSessionList ss \<Longrightarrow> decode_SessionList c f = Ok ss"
    and "b = BAttachSessionRequest i \<Longrightarrow> decode_AttachSessionRequest c f = Ok i"
    and "b = BAttachedSession i \<Longrightarrow> decode_AttachedSession c f = Ok i"
    and "b = BSessionBusy i \<Longrightarrow> decode_SessionBusy c f = Ok i"
    and "b = BDaemonInfo d \<Longrightarrow> decode_DaemonInfo c f = Ok d"
    and "b = BPtyData bs \<Longrightarrow> decode_PtyData c f = Ok bs"
    and "b = BWindowSize ws \<Longrightarrow> decode_WindowSize c f = Ok ws"
    and "b = BKeepalive n \<Longrightarrow> decode_Keepalive c f = Ok n"
    and "b = BExitStatus es \<Longrightarrow> decode_ExitStatus c f = Ok es"
    and "b = BErrorMessage m \<Longrightarrow> decode_ErrorMessage c f = Ok m"
  using decode_body_from_body [OF assms]
  by (simp_all add: decode_as_def decode_Capabilities_def decode_SessionListRequest_def
      decode_DetachSessionRequest_def decode_SessionList_def decode_AttachSessionRequest_def
      decode_AttachedSession_def decode_SessionBusy_def decode_DaemonInfo_def decode_PtyData_def
      decode_WindowSize_def decode_Keepalive_def decode_ExitStatus_def decode_ErrorMessage_def)

lemma msg_name_Some_iff: "msg_name t \<noteq> None \<longleftrightarrow> 1 \<le> t \<and> t \<le> 19"
proof -
  have "1 \<le> t \<and> t \<le> 19 \<longleftrightarrow> t \<in> set (map word_of_nat [1..<20])"
  proof
    assume "1 \<le> t \<and> t \<le> 19"
    then have "unat t \<in> {1..<20}" by (simp add: word_le_nat_alt)
    then have "word_of_nat (unat t) \<in> (word_of_nat :: nat \<Rightarrow> u8) ` {1..<20}" by blast
    then show "t \<in> set (map word_of_nat [1..<20])" by simp
  qed (auto simp: word_le_nat_alt unat_of_nat)
  also have "\<dots> \<longleftrightarrow> msg_name t \<noteq> None"
    by (simp add: upt_rec msg_name_def obi_consts)
  finally show ?thesis by simp
qed

lemma set_intersection: "set (intersection xs ys) = set xs \<inter> set ys"
  by (auto simp: intersection_def)

lemma intersection_subseq: "subseq (intersection xs ys) xs"
  by (simp add: intersection_def)

lemma intersection_self [simp]: "intersection xs xs = xs"
  by (simp add: intersection_def)

section \<open>Properties\<close>

text \<open>
  C2. Frames round trip over a byte stream: whatever \<open>Frame::write_to\<close> has written for a sequence
  of frames without an error, successive calls of \<open>read_frame\<close> read back as exactly that sequence
  of frames, and then go on with whatever follows on the stream.
\<close>

theorem frame_stream_round_trip:
  assumes "write_frames fs w = (Ok (), w')"
  shows "\<exists>bs. wr_out w' = wr_out w @ bs \<and>
           read_frames (reader_of bs @ r) = (fs @ fst (read_frames r), snd (read_frames r))"
  using write_frames_Ok [OF assms] read_frames_bytes [of fs r] by auto

theorem frame_stream_round_trip_witness:
  "\<exists>bs. wr_out empty_writer @ frame_bytes \<lparr>frame_msg_type = DETACH, frame_flags = 7,
            frame_payload = [112, 97]\<rparr> = wr_out empty_writer @ bs \<and>
        read_frames (reader_of bs @ []) =
          ([\<lparr>frame_msg_type = DETACH, frame_flags = 7, frame_payload = [112, 97]\<rparr>], Ok ())"
proof -
  let ?f = "\<lparr>frame_msg_type = DETACH, frame_flags = 7, frame_payload = [112, 97]\<rparr>"
  have "write_frames [?f] empty_writer =
      (Ok (), empty_writer\<lparr>wr_out := wr_out empty_writer @ frame_bytes ?f\<rparr>)"
    by (simp add: write_to_no_budget frame_ok_def MAX_PAYLOAD_LEN_def empty_writer_def)
  from frame_stream_round_trip [OF this, of "[]"] show ?thesis by simp
qed

text \<open>
  Typed messages round trip through the transport: if the CBOR codec decodes what it encoded,
  then a body written with \<open>FramedWriter::write_body\<close> is read by \<open>read_frame\<close> as a frame of the same
  type and flags whose \<open>decode_body\<close> is that body.
\<close>

theorem write_body_round_trip:
  assumes "codec_round_trips c" and "write_body c t fl b w = (Ok (), w')"
  shows "\<exists>bs f. wr_out w' = wr_out w @ bs \<and> read_frame (reader_of bs @ r) = (Ok (Some f), r) \<and>
           frame_msg_type f = t \<and> frame_flags f = fl \<and> decode_body c (kind_of b) f = Ok b"
proof -
  from assms(2) obtain f where f: "from_body c t fl b = Ok f" and w: "write_to f w = (Ok (), w')"
    by (auto simp: write_body_def split: result.splits)
  from f have "frame_msg_type f = t" "frame_flags f = fl" by (auto simp: from_body_Ok_iff)
  with write_to_Ok [OF w] read_frame_bytes [of f r] decode_body_from_body [OF assms(1) f]
  show ?thesis by auto
qed

text \<open>A codec that encodes the body \<open>()\<close>, a detach request and PTY data, for witnesses.\<close>

definition pty_codec :: codec where
  "pty_codec = \<lparr>cbor_enc = (\<lambda>b. case b of BPtyData bs \<Rightarrow> Some bs | BUnit \<Rightarrow> Some [246]
       | BDetachRequest \<Rightarrow> Some [160] | _ \<Rightarrow> None),
     cbor_dec = (\<lambda>k bs. case k of KPtyData \<Rightarrow> Some (BPtyData bs)
       | KUnit \<Rightarrow> (if bs = [246] then Some BUnit else None)
       | KDetachRequest \<Rightarrow> (if bs = [160] then Some BDetachRequest else None) | _ \<Rightarrow> None)\<rparr>"

lemma pty_codec_round_trips: "codec_round_trips pty_codec"
  unfolding codec_round_trips_def
proof (intro allI impI)
  fix b bs assume "cbor_enc pty_codec b = Some bs"
  then show "cbor_dec pty_codec (kind_of b) bs = Some b"
    by (cases b) (auto simp: pty_codec_def)
qed

theorem write_body_round_trip_witness:
  "\<exists>bs f. wr_out (snd (write_body pty_codec PTY_DATA 0 (BPtyData [104, 105]) empty_writer))
           = wr_out empty_writer @ bs \<and>
         read_frame (reader_of bs @ []) = (Ok (Some f), []) \<and> frame_msg_type f = PTY_DATA \<and>
         frame_flags f = 0 \<and> decode_body pty_codec (kind_of (BPtyData [104, 105])) f
           = Ok (BPtyData [104, 105])"
proof -
  let ?r = "write_body pty_codec PTY_DATA 0 (BPtyData [104, 105]) empty_writer"
  have "?r = (Ok (), snd ?r)"
    by (simp add: write_body_def from_body_def pty_codec_def frame_new_def MAX_PAYLOAD_LEN_def
        write_to_no_budget frame_ok_def empty_writer_def)
  from write_body_round_trip [OF pty_codec_round_trips this, of "[]"] show ?thesis .
qed

text \<open>
  C23. A connection that ends inside a frame never yields a frame: after a proper prefix of a
  frame's bytes, \<open>read_frame\<close> reports the clean end of the stream if nothing was sent, a truncated
  header below six bytes, and a truncated payload (always with an actual length of 0) after that.
\<close>

theorem truncated_frame_rejected:
  assumes "write_to f w = (Ok (), w')" and "wr_out w' = wr_out w @ bs" and "k < length bs"
  shows "read_frame (reader_of (take k bs)) =
     (if k = 0 then Ok None
      else if k < HEADER_LEN then Err TruncatedHeader
      else Err (TruncatedPayload (length (frame_payload f)) 0), [])"
  using write_to_Ok [OF assms(1)] assms(2,3) read_frame_truncated [of f k] by simp

theorem truncated_frame_rejected_witness:
  "read_frame (reader_of (take 7 (frame_bytes \<lparr>frame_msg_type = DETACH, frame_flags = 7,
      frame_payload = [112, 97]\<rparr>))) = (Err (TruncatedPayload 2 0), [])"
proof -
  let ?f = "\<lparr>frame_msg_type = DETACH, frame_flags = 7, frame_payload = [112, 97]\<rparr>"
  have w: "write_to ?f empty_writer =
      (Ok (), empty_writer\<lparr>wr_out := wr_out empty_writer @ frame_bytes ?f\<rparr>)"
    by (simp add: write_to_no_budget frame_ok_def MAX_PAYLOAD_LEN_def empty_writer_def)
  have "7 < length (frame_bytes ?f)"
    by (simp add: length_frame_bytes HEADER_LEN_def)
  from truncated_frame_rejected [OF w _ this] show ?thesis
    by (simp add: HEADER_LEN_def)
qed

text \<open>
  C24. Frame size limit: \<open>read_frame\<close> only ever consumes a part of its input, returns frames whose
  payload is within 1 MiB only, makes progress with every frame, and rejects a larger announced
  length as soon as the header is read, before any byte of the payload.
\<close>

theorem read_frame_size_limit:
  "(\<forall>r f r'. read_frame r = (Ok (Some f), r') \<longrightarrow>
       length (frame_payload f) \<le> 1048576 \<and> length r' < length r) \<and>
   (\<forall>n a b c d t fl r. 1048576 < n \<longrightarrow> n < 2 ^ 32 \<longrightarrow>
       u32_to_be_bytes (word_of_nat n) = [a, b, c, d] \<longrightarrow>
       read_frame (Byte t # Byte fl # Byte a # Byte b # Byte c # Byte d # r) =
         (Err (PayloadTooLarge n 1048576), r))"
proof -
  have max: "MAX_PAYLOAD_LEN = 1048576" by (simp add: MAX_PAYLOAD_LEN_def)
  show ?thesis
    using read_frame_payload_bound read_frame_consumes read_frame_header
    unfolding frame_ok_def max by auto
qed

theorem read_frame_size_limit_witness:
  "read_frame [Byte PTY_DATA, Byte 0, Byte 0, Byte 16, Byte 0, Byte 1, Byte 42] =
     (Err (PayloadTooLarge 1048577 1048576), [Byte 42])"
proof -
  have "u32_to_be_bytes (word_of_nat 1048577) = [0, 16, 0, 1]"
    by (simp add: u32_to_be_bytes_def)
  moreover have "(1048576::nat) < 1048577" "(1048577::nat) < 2 ^ 32" by simp_all
  ultimately show ?thesis
    using read_frame_size_limit by blast
qed

text \<open>
  Capability negotiation: the working set computed by \<open>Capabilities::intersection\<close> keeps the
  local order, holds exactly the capabilities both sides offer, so both ends of a connection agree
  on it, and is everything when both sides run the same release.
\<close>

theorem intersection_agrees:
  "subseq (intersection local peer) local \<and>
   set (intersection local peer) = set (intersection peer local) \<and>
   set (intersection local peer) = set local \<inter> set peer \<and>
   intersection DEFAULT_CAPABILITIES DEFAULT_CAPABILITIES = DEFAULT_CAPABILITIES"
  by (auto simp: set_intersection intersection_subseq)

end
