(* ===== verification/Replay.thy ===== *)
theory Replay
  imports Obi_Prelude
begin

text \<open>
  The replay ring of a session daemon, \<open>ReplayBuffer\<close> in \<open>src/src/daemon.rs\<close>: a \<open>VecDeque\<close> of bytes
  with a capacity. A panic of the Rust code (a slice or a drain out of range) is the value \<open>None\<close>
  of \<open>replay_append\<close>. The interface \<open>recent_log\<close> states what the daemon relies on: appending
  never panics and keeps the last bytes, as many as the capacity allows.
\<close>

section \<open>The interface: a log that keeps the most recent elements\<close>

text \<open>A sequence of appends, each of which may panic.\<close>

fun append_all :: "('s \<Rightarrow> 'a list \<Rightarrow> 's option) \<Rightarrow> 's \<Rightarrow> 'a list list \<Rightarrow> 's option" where
  "append_all app s [] = Some s"
| "append_all app s (xs # xss) =
     (case app s xs of None \<Rightarrow> None | Some s' \<Rightarrow> append_all app s' xss)"

locale recent_log =
  fixes cap :: "'s \<Rightarrow> nat"
    and contents :: "'s \<Rightarrow> 'a list"
    and append :: "'s \<Rightarrow> 'a list \<Rightarrow> 's option"
    and inv :: "'s \<Rightarrow> bool"
  assumes append_total: "inv s \<Longrightarrow> append s xs \<noteq> None"
    and append_inv: "inv s \<Longrightarrow> append s xs = Some s' \<Longrightarrow> inv s'"
    and append_cap: "inv s \<Longrightarrow> append s xs = Some s' \<Longrightarrow> cap s' = cap s"
    and append_contents:
      "inv s \<Longrightarrow> append s xs = Some s' \<Longrightarrow> contents s' = last_n (cap s) (contents s @ xs)"
begin

lemma append_all_keeps:
  assumes "inv s" and "append_all append s xss = Some s'"
  shows "inv s' \<and> cap s' = cap s"
  using assms
proof (induction xss arbitrary: s)
  case (Cons xs xss)
  then obtain t where t: "append s xs = Some t" and rest: "append_all append t xss = Some s'"
    by (auto split: option.splits)
  from Cons.IH [OF append_inv [OF Cons.prems(1) t] rest] append_cap [OF Cons.prems(1) t]
  show ?case by simp
qed simp

lemma append_all_total: "inv s \<Longrightarrow> append_all append s xss \<noteq> None"
  by (induction xss arbitrary: s) (auto split: option.splits dest: append_total append_inv)

lemma append_all_contents:
  assumes "inv s" and "append_all append s xss = Some s'" and "length (contents s) \<le> cap s"
  shows "contents s' = last_n (cap s) (contents s @ concat xss)"
  using assms
proof (induction xss arbitrary: s)
  case Nil
  then show ?case by (simp add: last_n_all)
next
  case (Cons xs xss)
  then obtain t where t: "append s xs = Some t" and rest: "append_all append t xss = Some s'"
    by (auto split: option.splits)
  from Cons.prems(1) t have "inv t" and "cap t = cap s"
    and "contents t = last_n (cap s) (contents s @ xs)"
    by (auto dest: append_inv append_cap append_contents)
  with Cons.IH [of t] rest show ?case
    by (simp add: last_n_last_n_append)
qed

lemma append_suffix:
  assumes "inv s" and "append s xs = Some s'"
  shows "suffix (contents s') (contents s @ xs)"
  using append_contents [OF assms] by (simp add: suffix_last_n)

end

section \<open>The model of \<open>ReplayBuffer\<close>\<close>

definition DEFAULT_REPLAY_CAPACITY :: nat where
  [obi_consts]: "DEFAULT_REPLAY_CAPACITY = 64 * 1024"

datatype ReplayBufferError = ZeroCapacity

record ReplayBuffer =
  capacity :: nat
  bytes :: "u8 list"

definition replay_new :: "nat \<Rightarrow> (ReplayBuffer, ReplayBufferError) result" where
  "replay_new c = (if c = 0 then Err ZeroCapacity else Ok \<lparr>capacity = c, bytes = []\<rparr>)"

text \<open>\<open>default_capacity\<close> calls \<open>expect\<close> on the result of \<open>new\<close>: \<open>None\<close> would be the panic.\<close>

definition replay_default_capacity :: "ReplayBuffer option" where
  "replay_default_capacity = ok (replay_new DEFAULT_REPLAY_CAPACITY)"

definition replay_len :: "ReplayBuffer \<Rightarrow> nat" where
  "replay_len b = length (bytes b)"

definition replay_is_empty :: "ReplayBuffer \<Rightarrow> bool" where
  "replay_is_empty b \<longleftrightarrow> bytes b = []"

text \<open>\<open>VecDeque::drain(..n)\<close> panics when \<open>n\<close> is beyond the length.\<close>

definition drain_front :: "nat \<Rightarrow> 'a list \<Rightarrow> 'a list option" where
  "drain_front n xs = (if n \<le> length xs then Some (drop n xs) else None)"

definition replay_append :: "ReplayBuffer \<Rightarrow> u8 list \<Rightarrow> ReplayBuffer option" where
  "replay_append b bs =
     (if length bs \<ge> capacity b
      then Some (b\<lparr>bytes := drop (length bs - capacity b) bs\<rparr>)
      else
        (let overflow =
               saturating_sub_usize (saturating_add_usize (length (bytes b)) (length bs)) (capacity b)
         in (case drain_front overflow (bytes b) of
               None \<Rightarrow> None
             | Some kept \<Rightarrow> Some (b\<lparr>bytes := kept @ bs\<rparr>))))"

definition replay_snapshot :: "ReplayBuffer \<Rightarrow> u8 list" where
  "replay_snapshot b = bytes b"

definition replay_clear :: "ReplayBuffer \<Rightarrow> ReplayBuffer" where
  "replay_clear b = b\<lparr>bytes := []\<rparr>"

text \<open>
  The invariant. A \<open>VecDeque\<close> of bytes cannot be allocated with more than \<open>isize::MAX\<close> bytes
  (\<open>with_capacity\<close> panics), so neither the capacity nor the length exceeds \<open>2 ^ 63 - 1\<close>.
\<close>

definition replay_inv :: "ReplayBuffer \<Rightarrow> bool" where
  "replay_inv b \<longleftrightarrow> 0 < capacity b \<and> capacity b < 2 ^ 63 \<and> length (bytes b) \<le> capacity b"

lemma replay_inv_new:
  "replay_new c = Ok b \<Longrightarrow> c < 2 ^ 63 \<Longrightarrow> replay_inv b"
  by (auto simp: replay_new_def replay_inv_def split: if_splits)

lemma replay_default_capacity_eq:
  "replay_default_capacity = Some \<lparr>capacity = DEFAULT_REPLAY_CAPACITY, bytes = []\<rparr>"
  by (simp add: replay_default_capacity_def replay_new_def DEFAULT_REPLAY_CAPACITY_def)

lemma replay_inv_default: "replay_default_capacity = Some b \<Longrightarrow> replay_inv b"
  by (auto simp: replay_default_capacity_eq replay_inv_def DEFAULT_REPLAY_CAPACITY_def)

lemma replay_inv_clear: "replay_inv b \<Longrightarrow> replay_inv (replay_clear b)"
  by (simp add: replay_inv_def replay_clear_def)

text \<open>The two branches of \<open>append\<close> agree on keeping the last \<open>capacity\<close> bytes.\<close>

lemma replay_append_eq:
  assumes "replay_inv b"
  shows "replay_append b bs = Some (b\<lparr>bytes := last_n (capacity b) (bytes b @ bs)\<rparr>)"
proof (cases "length bs \<ge> capacity b")
  case True
  then show ?thesis
    by (simp add: replay_append_def last_n_append_long) (simp add: last_n_def)
next
  case False
  with assms have "length (bytes b) + length bs \<le> usize_max"
    by (simp add: replay_inv_def usize_max_def)
  then have "saturating_sub_usize (saturating_add_usize (length (bytes b)) (length bs)) (capacity b)
      = length (bytes b) + length bs - capacity b"
    by (simp add: saturating_sub_usize_def saturating_add_usize_def)
  with False assms show ?thesis
    by (auto simp: replay_append_def drain_front_def replay_inv_def last_n_append_short Let_def
        last_n_def)
qed

interpretation rb: recent_log capacity replay_snapshot replay_append replay_inv
  by unfold_locales (auto simp: replay_append_eq replay_inv_def replay_snapshot_def)

section \<open>Properties\<close>

text \<open>
  C25. The replay ring refines "the last 64 KiB of everything written": starting from the default
  buffer, any sequence of appended chunks, of any sizes and in any split, never panics, and the
  snapshot afterwards is the last 65536 bytes of their concatenation (all of it while it is
  shorter).
\<close>

theorem replay_keeps_recent_output:
  assumes "replay_default_capacity = Some b"
  shows "\<exists>b'. append_all replay_append b chunks = Some b' \<and>
           replay_snapshot b' = last_n 65536 (concat chunks)"
proof -
  have inv: "replay_inv b" and "capacity b = 65536" and "replay_snapshot b = []"
    using assms replay_inv_default
    by (auto simp: replay_default_capacity_eq replay_snapshot_def DEFAULT_REPLAY_CAPACITY_def)
  moreover obtain b' where "append_all replay_append b chunks = Some b'"
    using rb.append_all_total [OF inv] by blast
  ultimately show ?thesis
    using rb.append_all_contents [of b chunks b'] by auto
qed

theorem replay_keeps_recent_output_witness:
  "\<exists>b'. append_all replay_append \<lparr>capacity = DEFAULT_REPLAY_CAPACITY, bytes = []\<rparr> [[97, 98], [99]] = Some b' \<and>
        replay_snapshot b' = last_n 65536 (concat [[97, 98], [99]])"
  using replay_keeps_recent_output [OF replay_default_capacity_eq, of "[[97, 98], [99]]"] .

text \<open>
  Every operation of the buffer keeps it well formed: the constructor (for any capacity a
  \<open>VecDeque\<close> can have; zero is refused), \<open>append\<close> (which never panics) and \<open>clear\<close>; and the
  capacity never changes, so the memory of a session stays bounded by it.
\<close>

theorem replay_invariant:
  "(\<forall>c. c < 2 ^ 63 \<longrightarrow>
      (case replay_new c of Err e \<Rightarrow> c = 0 \<and> e = ZeroCapacity
       | Ok b \<Rightarrow> replay_inv b \<and> capacity b = c \<and> replay_is_empty b)) \<and>
   (\<forall>b bs. replay_inv b \<longrightarrow>
      (\<exists>b'. replay_append b bs = Some b' \<and> replay_inv b' \<and> capacity b' = capacity b \<and>
         replay_len b' = min (capacity b) (replay_len b + length bs)) \<and>
      replay_inv (replay_clear b) \<and> replay_is_empty (replay_clear b))"
  by (auto simp: replay_append_eq replay_inv_def replay_new_def replay_clear_def
      replay_is_empty_def replay_len_def)

theorem replay_invariant_witness:
  "\<exists>b'. replay_append \<lparr>capacity = 5, bytes = [97, 98, 99]\<rparr> [100, 101, 102] = Some b' \<and>
     replay_inv b' \<and> capacity b' = 5 \<and> replay_len b' = min 5 (3 + 3)"
proof -
  have "replay_inv \<lparr>capacity = 5, bytes = [97, 98, 99]\<rparr>"
    by (simp add: replay_inv_def)
  with replay_invariant show ?thesis
    by (fastforce simp: replay_len_def)
qed

end
