(* ===== verification/Session.thy ===== *)
theory Session
  imports Protocol
begin

text \<open>
  Session identifiers, socket paths, session listing and the selection logic of
  \<open>src/src/session.rs\<close>. The hash function (crate \<open>blake3\<close>), the random source, the clocks, the
  directory contents and the local time formatting (crate \<open>chrono\<close>) are parameters. The lemmas
  show what identifiers the generator can return, that the identifier encoder is the big-endian
  base-32 numeral of the hash, that socket paths and identifiers round trip, when the socket
  directory is accepted, and that the picker's numbers name the sessions they stand beside.
\<close>

section \<open>Session identifiers\<close>

definition SOCKET_PATH_LIMIT :: nat where
  [obi_consts]: "SOCKET_PATH_LIMIT = 100"

definition SESSION_ID_LEN :: nat where
  [obi_consts]: "SESSION_ID_LEN = 10"

definition MAX_GENERATE_ATTEMPTS :: nat where
  [obi_consts]: "MAX_GENERATE_ATTEMPTS = 128"

type_synonym SessionId = string

datatype SessionIdError =
    InvalidLength nat
  | InvalidCharacter
  | Random string
  | ExhaustedGeneration

definition is_base32_char :: "char \<Rightarrow> bool" where
  "is_base32_char c \<longleftrightarrow>
     (let n = (of_char c :: nat) in (97 \<le> n \<and> n \<le> 122) \<or> (50 \<le> n \<and> n \<le> 55))"

definition session_id_new :: "string \<Rightarrow> (SessionId, SessionIdError) result" where
  "session_id_new v =
     (if \<not> (8 \<le> length v \<and> length v \<le> 10) then Err (InvalidLength (length v))
      else if \<not> list_all is_base32_char v then Err InvalidCharacter
      else Ok v)"

definition ALPHABET :: string where
  [obi_consts]: "ALPHABET = ''abcdefghijklmnopqrstuvwxyz234567''"

text \<open>
  \<open>encode_base32_lower\<close>: the accumulator is a \<open>u32\<close> whose high bits are shifted out; \<open>bits\<close> is a
  \<open>u8\<close> that never exceeds 12.
\<close>

definition b32_char :: "u32 \<Rightarrow> char" where
  "b32_char w = ALPHABET ! unat (and w 31)"

function b32_emit :: "nat \<Rightarrow> u32 \<Rightarrow> nat \<Rightarrow> string \<Rightarrow> nat \<times> string" where
  "b32_emit len acc bits out =
     (if bits \<ge> 5 \<and> length out < len
      then b32_emit len acc (bits - 5) (out @ [b32_char (drop_bit (bits - 5) acc)])
      else (bits, out))"
  by pat_completeness auto
termination
  by (relation "measure (\<lambda>(len, acc, bits, out). bits)") auto

declare b32_emit.simps [simp del]

fun b32_loop :: "nat \<Rightarrow> u8 list \<Rightarrow> u32 \<Rightarrow> nat \<Rightarrow> string \<Rightarrow> u32 \<times> nat \<times> string" where
  "b32_loop len [] acc bits out = (acc, bits, out)"
| "b32_loop len (byte # bs) acc bits out =
     (let acc' = or (push_bit 8 acc) (ucast byte);
          (bits', out') = b32_emit len acc' (bits + 8) out
      in if length out' = len then (acc', bits', out')
         else b32_loop len bs acc' bits' out')"

definition encode_base32_lower :: "u8 list \<Rightarrow> nat \<Rightarrow> string" where
  "encode_base32_lower bs len =
     (let (acc, bits, out) = b32_loop len bs 0 0 [] in
      if length out < len \<and> bits > 0
      then out @ [b32_char (push_bit (5 - bits) acc)]
      else out)"

text \<open>
  What the generator draws on: for each attempt the wall clock, the process id and the monotonic
  clock of \<open>session_seed\<close>, the random nonce or the error of \<open>random_nonce\<close>, and the hash.
\<close>

fun be_bytes :: "nat \<Rightarrow> nat \<Rightarrow> u8 list" where
  "be_bytes 0 n = []"
| "be_bytes (Suc k) n = be_bytes k (n div 256) @ [word_of_nat n]"

record gen_env =
  wall_nanos :: "nat \<Rightarrow> nat"
  monotonic_nanos :: "nat \<Rightarrow> nat"
  process_id :: u32
  random_nonce :: "nat \<Rightarrow> (u8 list, SessionIdError) result"
  blake3_hash :: "u8 list \<Rightarrow> u8 list"

definition session_seed :: "gen_env \<Rightarrow> nat \<Rightarrow> u8 list" where
  "session_seed env attempt =
     be_bytes 16 (wall_nanos env attempt) @ be_bytes 4 (unat (process_id env))
     @ be_bytes 4 (monotonic_nanos env attempt mod 2 ^ 32)"

fun generate_attempts ::
  "gen_env \<Rightarrow> SessionId list \<Rightarrow> nat \<Rightarrow> nat \<Rightarrow> (SessionId, SessionIdError) result" where
  "generate_attempts env existing 0 attempt = Err ExhaustedGeneration"
| "generate_attempts env existing (Suc left) attempt =
     (case random_nonce env attempt of
        Err e \<Rightarrow> Err e
      | Ok nonce \<Rightarrow>
          (let digest = blake3_hash env (session_seed env attempt @ nonce @ be_bytes 8 attempt);
               candidate = encode_base32_lower (take 8 digest) SESSION_ID_LEN
           in (case session_id_new candidate of
                 Err e \<Rightarrow> Err e
               | Ok candidate \<Rightarrow>
                   if candidate \<notin> set existing then Ok candidate
                   else generate_attempts env existing left (Suc attempt))))"

definition generate_session_id ::
  "gen_env \<Rightarrow> SessionId list \<Rightarrow> (SessionId, SessionIdError) result" where
  "generate_session_id env existing = generate_attempts env existing MAX_GENERATE_ATTEMPTS 0"

section \<open>Socket paths\<close>

datatype SocketPathError =
    InvalidSessionId SessionIdError
  | TooLong nat nat
  | IoMessage string
  | NotDirectory string
  | WrongOwner string u32 u32
  | WrongMode string u32 u32

text \<open>\<open>Path::join\<close> and \<open>Path::file_name\<close> on Unix paths.\<close>

definition path_join :: "string \<Rightarrow> string \<Rightarrow> string" where
  "path_join base name =
     (if take 1 name = ''/'' then name
      else if base \<noteq> [] \<and> last base \<noteq> CHR ''/'' then base @ ''/'' @ name
      else base @ name)"

definition path_file_name :: "string \<Rightarrow> string option" where
  "path_file_name p =
     (let cs = filter (\<lambda>c. c \<noteq> [] \<and> c \<noteq> ''.'') (split_on (CHR ''/'') p) in
      if cs = [] \<or> last cs = ''..'' then None else Some (last cs))"

definition socket_dir_for_uid :: "string \<Rightarrow> u32 \<Rightarrow> string" where
  "socket_dir_for_uid temp_dir uid = path_join temp_dir (''ssh-obi-'' @ show_nat (unat uid))"

definition socket_path :: "string \<Rightarrow> string \<Rightarrow> (string, SocketPathError) result" where
  "socket_path socket_dir session_id =
     (case session_id_new session_id of
        Err e \<Rightarrow> Err (InvalidSessionId e)
      | Ok session_id \<Rightarrow>
          (let path = path_join socket_dir (session_id @ ''.sock''); len = length path in
           if len > SOCKET_PATH_LIMIT then Err (TooLong len SOCKET_PATH_LIMIT) else Ok path))"

definition socket_path_for_uid ::
  "string \<Rightarrow> u32 \<Rightarrow> string \<Rightarrow> (string, SocketPathError) result" where
  "socket_path_for_uid temp_dir uid session_id =
     socket_path (socket_dir_for_uid temp_dir uid) session_id"

definition session_id_from_socket_path :: "string \<Rightarrow> (SessionId, SessionIdError) result" where
  "session_id_from_socket_path path =
     (case path_file_name path of
        None \<Rightarrow> Err InvalidCharacter
      | Some file_name \<Rightarrow>
          (case strip_suffix ''.sock'' file_name of
             None \<Rightarrow> Err InvalidCharacter
           | Some session_id \<Rightarrow> session_id_new session_id))"

text \<open>
  \<open>fs::read_dir\<close> gives an error, or a list of directory entries each of which is a path or an
  error; \<open>show_io\<close> is the \<open>Display\<close> text of an I/O error.
\<close>

fun collect_session_ids ::
  "(io_error \<Rightarrow> string) \<Rightarrow> string \<Rightarrow> (string, io_error) result list
     \<Rightarrow> (SessionId list, SocketPathError) result" where
  "collect_session_ids show_io dir [] = Ok []"
| "collect_session_ids show_io dir (entry # entries) =
     (case entry of
        Err e \<Rightarrow> Err (IoMessage (''failed to read socket directory '' @ dir @ '': '' @ show_io e))
      | Ok path \<Rightarrow>
          (case collect_session_ids show_io dir entries of
             Err e \<Rightarrow> Err e
           | Ok ids \<Rightarrow>
               (case session_id_from_socket_path path of
                  Ok session_id \<Rightarrow> Ok (session_id # ids)
                | Err _ \<Rightarrow> Ok ids)))"

definition list_session_socket_ids ::
  "(io_error \<Rightarrow> string) \<Rightarrow> string \<Rightarrow> ((string, io_error) result list, io_error) result
     \<Rightarrow> (SessionId list, SocketPathError) result" where
  "list_session_socket_ids show_io dir read_dir =
     (case read_dir of
        Ok entries \<Rightarrow>
          (case collect_session_ids show_io dir entries of
             Err e \<Rightarrow> Err e
           | Ok sessions \<Rightarrow> Ok (sort sessions))
      | Err e \<Rightarrow>
          if e = NotFound then Ok []
          else Err (IoMessage (''failed to read socket directory '' @ dir @ '': '' @ show_io e)))"

text \<open>What the file system answers about the socket directory, before and after it is created.\<close>

record metadata =
  md_is_dir :: bool
  md_uid :: u32
  md_mode :: u32

record dir_env =
  dir_exists :: bool
  dir_create :: "(unit, io_error) result"
  dir_metadata :: "(metadata, io_error) result"

definition prepare_socket_dir ::
  "(io_error \<Rightarrow> string) \<Rightarrow> dir_env \<Rightarrow> string \<Rightarrow> u32 \<Rightarrow> (unit, SocketPathError) result" where
  "prepare_socket_dir show_io env dir expected_uid =
     (let created = (if dir_exists env then Ok () else dir_create env) in
      case created of
        Err e \<Rightarrow> Err (IoMessage (''failed to create socket directory '' @ dir @ '': '' @ show_io e))
      | Ok _ \<Rightarrow>
          (case dir_metadata env of
             Err e \<Rightarrow> Err (IoMessage (''failed to stat socket directory '' @ dir @ '': '' @ show_io e))
           | Ok md \<Rightarrow>
               if \<not> md_is_dir md then Err (NotDirectory dir)
               else if md_uid md \<noteq> expected_uid then Err (WrongOwner dir expected_uid (md_uid md))
               else
                 (let actual_mode = and (md_mode md) 511 in
                  if actual_mode \<noteq> 448 then Err (WrongMode dir 448 actual_mode) else Ok ())))"

text \<open>
  \<open>remove_stale_socket\<close>: connecting decides; the second component says whether the socket file
  was removed (or its removal attempted and failed).
\<close>

definition remove_stale_socket ::
  "(io_error \<Rightarrow> string) \<Rightarrow> (unit, io_error) result \<Rightarrow> (unit, io_error) result \<Rightarrow> string
     \<Rightarrow> (bool, SocketPathError) result \<times> bool" where
  "remove_stale_socket show_io connect remove_file path =
     (case connect of
        Ok _ \<Rightarrow> (Ok False, False)
      | Err e \<Rightarrow>
          if e = ConnectionRefused then
            (case remove_file of
               Err e' \<Rightarrow>
                 (Err (IoMessage (''failed to remove stale socket '' @ path @ '': '' @ show_io e')),
                  False)
             | Ok _ \<Rightarrow> (Ok True, True))
          else if e = NotFound then (Ok False, False)
          else (Err (IoMessage (''failed to probe socket '' @ path @ '': '' @ show_io e)), False))"

section \<open>Session records and selection\<close>

datatype SessionState = Free | Busy

definition is_free :: "SessionState \<Rightarrow> bool" where
  "is_free s \<longleftrightarrow> s = Free"

text \<open>\<open>SystemTime\<close> is the signed number of nanoseconds from \<open>UNIX_EPOCH\<close>.\<close>

type_synonym SystemTime = int

record SessionInfo =
  info_id :: SessionId
  info_init_time :: SystemTime
  info_last_detach_time :: "SystemTime option"
  info_current_command :: string
  info_state :: SessionState

definition is_selectable :: "SessionInfo \<Rightarrow> bool" where
  "is_selectable s \<longleftrightarrow> is_free (info_state s)"

definition system_time_from_millis :: "UnixTimeMillis \<Rightarrow> SystemTime" where
  "system_time_from_millis m = int (unat m) * 1000000"

definition from_record :: "SessionRecord \<Rightarrow> (SessionInfo, SessionIdError) result" where
  "from_record r =
     (case session_id_new (rec_session_id r) of
        Err e \<Rightarrow> Err e
      | Ok i \<Rightarrow> Ok
          \<lparr>info_id = i,
           info_init_time = system_time_from_millis (rec_init_time r),
           info_last_detach_time = map_option system_time_from_millis (rec_last_detach_time r),
           info_current_command = rec_current_command r,
           info_state = (if rec_attached r then Busy else Free)\<rparr>)"

datatype AutoSelection = SelNewSession | SelAttach SessionId | SelPrompt

datatype ExistingSelection = ExNone | ExAttach SessionId | ExPrompt

definition auto_select :: "SessionInfo list \<Rightarrow> AutoSelection" where
  "auto_select sessions =
     (case filter is_selectable sessions of
        [] \<Rightarrow> SelNewSession
      | first # others \<Rightarrow> if others \<noteq> [] then SelPrompt else SelAttach (info_id first))"

definition auto_select_existing :: "SessionInfo list \<Rightarrow> ExistingSelection" where
  "auto_select_existing sessions =
     (case sessions of [] \<Rightarrow> ExNone | [session] \<Rightarrow> ExAttach (info_id session) | _ \<Rightarrow> ExPrompt)"

record PickerRow =
  row_selector :: "nat option"
  row_session_id :: SessionId
  row_init_time :: string
  row_detach_time :: string
  row_state :: SessionState
  row_current_command :: string

definition picker_row ::
  "(SystemTime \<Rightarrow> string) \<Rightarrow> nat option \<Rightarrow> SessionInfo \<Rightarrow> PickerRow" where
  "picker_row display_time selector session =
     \<lparr>row_selector = selector,
      row_session_id = info_id session,
      row_init_time = display_time (info_init_time session),
      row_detach_time = (case info_last_detach_time session of
         None \<Rightarrow> ''-'' | Some t \<Rightarrow> display_time t),
      row_state = info_state session,
      row_current_command = info_current_command session\<rparr>"

fun picker_rows_from ::
  "(SystemTime \<Rightarrow> string) \<Rightarrow> nat \<Rightarrow> SessionInfo list \<Rightarrow> PickerRow list" where
  "picker_rows_from display_time next_selector [] = []"
| "picker_rows_from display_time next_selector (session # sessions) =
     (if is_selectable session
      then picker_row display_time (Some next_selector) session
           # picker_rows_from display_time (next_selector + 1) sessions
      else picker_row display_time None session
           # picker_rows_from display_time next_selector sessions)"

definition picker_rows :: "(SystemTime \<Rightarrow> string) \<Rightarrow> SessionInfo list \<Rightarrow> PickerRow list" where
  "picker_rows display_time sessions = picker_rows_from display_time 1 sessions"

definition state_label :: "SessionState \<Rightarrow> string" where
  "state_label s = (case s of Free \<Rightarrow> ''free'' | Busy \<Rightarrow> ''busy'')"

definition render_picker_row :: "PickerRow \<Rightarrow> string" where
  "render_picker_row row =
     pad_left 3 (case row_selector row of None \<Rightarrow> ''-'' | Some n \<Rightarrow> show_nat n) @ ''   ''
     @ pad_right 5 (state_label (row_state row)) @ ''  ''
     @ pad_right 16 (row_init_time row) @ ''  ''
     @ pad_right 16 (row_detach_time row) @ ''  ''
     @ row_current_command row @ [CHR 0x0A]"

definition render_picker_table :: "PickerRow list \<Rightarrow> bool \<Rightarrow> string" where
  "render_picker_table picker include_new =
     ''  #   STATE  INIT              DETACH            WHAT'' @ [CHR 0x0A]
     @ concat (map render_picker_row picker)
     @ (if include_new then ''  n   new'' @ [CHR 0x0A] else [])"

definition render_session_table ::
  "(SystemTime \<Rightarrow> string) \<Rightarrow> SessionInfo list \<Rightarrow> bool \<Rightarrow> string" where
  "render_session_table display_time sessions include_new =
     render_picker_table (picker_rows display_time sessions) include_new"

definition detach_connect_rows ::
  "(SystemTime \<Rightarrow> string) \<Rightarrow> SessionInfo list \<Rightarrow> PickerRow list" where
  "detach_connect_rows display_time sessions =
     map (\<lambda>(index, session). picker_row display_time (Some (index + 1)) session)
       (enumerate 0 sessions)"

definition render_detach_connect_table ::
  "(SystemTime \<Rightarrow> string) \<Rightarrow> SessionInfo list \<Rightarrow> string" where
  "render_detach_connect_table display_time sessions =
     render_picker_table (detach_connect_rows display_time sessions) False"

definition render_session_list_row ::
  "(SystemTime \<Rightarrow> string) \<Rightarrow> string option \<Rightarrow> SessionInfo \<Rightarrow> string" where
  "render_session_list_row display_time current_session_id session =
     '' '' @ (if Some (info_id session) = current_session_id then ''*'' else '' '') @ ''   ''
     @ pad_right 5 (state_label (info_state session)) @ ''  ''
     @ pad_right 10 (info_id session) @ ''  ''
     @ pad_right 16 (display_time (info_init_time session)) @ ''  ''
     @ pad_right 16 (case info_last_detach_time session of
         None \<Rightarrow> ''-'' | Some t \<Rightarrow> display_time t) @ ''  ''
     @ info_current_command session @ [CHR 0x0A]"

definition render_session_list_table ::
  "(SystemTime \<Rightarrow> string) \<Rightarrow> SessionInfo list \<Rightarrow> string option \<Rightarrow> string" where
  "render_session_list_table display_time sessions current_session_id =
     ''CUR  STATE  ID          INIT              DETACH            WHAT'' @ [CHR 0x0A]
     @ concat (map (render_session_list_row display_time current_session_id) sessions)"

section \<open>Lemmas: the base-32 encoder\<close>

definition be_val :: "u8 list \<Rightarrow> nat" where
  "be_val bs = foldl (\<lambda>a b. 256 * a + unat b) 0 bs"

text \<open>The first \<open>j\<close> base-32 digits of the \<open>m\<close>-bit number \<open>v\<close>, most significant first.\<close>

definition b32_digits :: "nat \<Rightarrow> nat \<Rightarrow> nat \<Rightarrow> string" where
  "b32_digits v m j = map (\<lambda>i. ALPHABET ! (v div 2 ^ (m - 5 * (i + 1)) mod 32)) [0..<j]"

lemma length_b32_digits [simp]: "length (b32_digits v m j) = j"
  by (simp add: b32_digits_def)

lemma be_val_snoc [simp]: "be_val (bs @ [b]) = 256 * be_val bs + unat b"
  by (simp add: be_val_def)

lemma b32_digits_snoc:
  "b32_digits v m (Suc j) = b32_digits v m j @ [ALPHABET ! (v div 2 ^ (m - 5 * (j + 1)) mod 32)]"
  by (simp add: b32_digits_def)

lemma b32_char_word_of_nat:
  assumes "k \<le> 27"
  shows "b32_char (drop_bit k (word_of_nat v)) = ALPHABET ! (v div 2 ^ k mod 32)"
proof -
  have "and (drop_bit k (word_of_nat v :: u32)) 31 = take_bit 5 (drop_bit k (word_of_nat v))"
    by (simp add: take_bit_eq_mask mask_eq_exp_minus_1)
  moreover have "unat (take_bit 5 (drop_bit k (word_of_nat v :: u32))) = take_bit 5 (drop_bit k v)"
  proof -
    from assms have "min 5 (32 - k) = 5" by simp
    then show ?thesis
      by (simp add: unsigned_take_bit_eq unsigned_drop_bit_eq unsigned_of_nat drop_bit_take_bit)
  qed
  ultimately show ?thesis
    by (simp add: b32_char_def take_bit_eq_mod drop_bit_eq_div)
qed

lemma b32_shift_in:
  "or (push_bit 8 (word_of_nat v :: u32)) (ucast (b :: u8)) = word_of_nat (256 * v + unat b)"
proof -
  have "and (push_bit 8 (word_of_nat v :: u32)) (ucast b) = 0"
    by (rule bit_word_eqI) (auto simp: bit_simps dest: bit_imp_le_length)
  then have "or (push_bit 8 (word_of_nat v :: u32)) (ucast b) =
      push_bit 8 (word_of_nat v) + ucast b"
    by (simp add: disjunctive_add_eq_or)
  then show ?thesis
    by (simp add: push_bit_eq_mult mult.commute)
qed

lemma b32_emit_digits:
  assumes "acc = word_of_nat v" and "bits \<le> 32" and "5 * length out + bits = m"
    and "out = b32_digits v m (length out)" and "length out \<le> len"
    and "b32_emit len acc bits out = (bits', out')"
  shows "out' = b32_digits v m (length out') \<and> 5 * length out' + bits' = m \<and>
     length out' \<le> len \<and> (bits' < 5 \<or> length out' = len) \<and> length out \<le> length out'"
  using assms
proof (induction len acc bits out rule: b32_emit.induct)
  case (1 len acc bits out)
  show ?case
  proof (cases "bits \<ge> 5 \<and> length out < len")
    case True
    let ?out = "out @ [b32_char (drop_bit (bits - 5) acc)]"
    have "m - 5 * (length out + 1) = bits - 5"
      using True 1(4) by simp
    with True 1(2,3) have "b32_char (drop_bit (bits - 5) acc) =
        ALPHABET ! (v div 2 ^ (m - 5 * (length out + 1)) mod 32)"
      by (simp add: b32_char_word_of_nat)
    with 1(5) have out: "?out = b32_digits v m (length ?out)"
      by (simp add: b32_digits_snoc)
    moreover have "5 * length ?out + (bits - 5) = m" and "bits - 5 \<le> 32" and "length ?out \<le> len"
      using True 1(3,4) by auto
    moreover have "b32_emit len acc (bits - 5) ?out = (bits', out')"
      using True 1(7) by (simp add: b32_emit.simps [of len acc bits out])
    ultimately show ?thesis
      using 1(1) [OF True 1(2)] by force
  next
    case False
    with 1(7) have "bits' = bits" "out' = out"
      by (auto simp: b32_emit.simps [of len acc bits out])
    with False 1(4-6) show ?thesis by auto
  qed
qed

lemma b32_digits_shift:
  assumes "5 * j \<le> m"
  shows "b32_digits (256 * v + unat (b :: u8)) (m + 8) j = b32_digits v m j"
proof -
  have "(256 * v + unat b) div 2 ^ (m + 8 - 5 * (i + 1)) = v div 2 ^ (m - 5 * (i + 1))"
    if "i < j" for i
  proof -
    have "unat b < 256" using unsigned_less [of b] by simp
    then have "(256 * v + unat b) div 2 ^ 8 = v" by simp
    moreover have "m + 8 - 5 * (i + 1) = 8 + (m - 5 * (i + 1))"
    proof -
      from that have "5 * (i + 1) \<le> 5 * j" by simp
      with assms have "5 * (i + 1) \<le> m" by linarith
      then show ?thesis by simp
    qed
    ultimately show ?thesis
      by (metis div_mult2_eq power_add)
  qed
  then show ?thesis by (simp add: b32_digits_def)
qed

lemma b32_digits_extend:
  assumes "5 * j \<le> 8 * length ps"
  shows "b32_digits (be_val (ps @ bs)) (8 * length (ps @ bs)) j =
     b32_digits (be_val ps) (8 * length ps) j"
  using assms
proof (induction bs rule: rev_induct)
  case (snoc b bs)
  have "b32_digits (be_val (ps @ bs @ [b])) (8 * length (ps @ bs) + 8) j =
      b32_digits (be_val (ps @ bs)) (8 * length (ps @ bs)) j"
    using snoc.prems be_val_snoc [of "ps @ bs" b] b32_digits_shift [of j "8 * length (ps @ bs)"]
    by simp
  with snoc show ?case by (simp add: add.commute)
qed simp

lemma b32_loop_digits:
  assumes "acc = word_of_nat (be_val ps)" and "bits < 5" and "5 * length out + bits = 8 * length ps"
    and "out = b32_digits (be_val ps) (8 * length ps) (length out)" and "length out < len"
    and "5 * len \<le> 8 * length (ps @ bs)"
    and "b32_loop len bs acc bits out = (acc', bits', out')"
  shows "out' = b32_digits (be_val (ps @ bs)) (8 * length (ps @ bs)) len"
  using assms
proof (induction bs arbitrary: ps acc bits out)
  case Nil
  then show ?case by simp
next
  case (Cons b bs)
  let ?ps = "ps @ [b]"
  define w where "w = or (push_bit 8 acc) (ucast b)"
  obtain bits1 out1 where emit: "b32_emit len w (bits + 8) out = (bits1, out1)"
    by fastforce
  have w: "w = word_of_nat (be_val ?ps)"
    by (simp add: w_def Cons.prems(1) b32_shift_in)
  have out: "out = b32_digits (be_val ?ps) (8 * length ?ps) (length out)"
    using Cons.prems(3,4) b32_digits_extend [of "length out" ps "[b]"] by simp
  have digits: "out1 = b32_digits (be_val ?ps) (8 * length ?ps) (length out1)"
      "5 * length out1 + bits1 = 8 * length ?ps" "length out1 \<le> len"
      "bits1 < 5 \<or> length out1 = len"
    using b32_emit_digits [OF w _ _ out _ emit] Cons.prems(2,3,5) by auto
  show ?case
  proof (cases "length out1 = len")
    case True
    with Cons.prems(7) emit have "out' = out1" by (simp add: w_def [symmetric])
    with True digits b32_digits_extend [of len ?ps bs] show ?thesis by simp
  next
    case False
    with Cons.prems(7) emit have "b32_loop len bs w bits1 out1 = (acc', bits', out')"
      by (simp add: w_def [symmetric])
    from Cons.IH [OF w _ digits(2) digits(1) _ _ this] False digits Cons.prems(6)
    show ?thesis by simp
  qed
qed

lemma encode_base32_lower_eq:
  assumes "0 < len" and "5 * len \<le> 8 * length bs"
  shows "encode_base32_lower bs len = b32_digits (be_val bs) (8 * length bs) len"
proof -
  obtain acc bits out where loop: "b32_loop len bs 0 0 [] = (acc, bits, out)"
    by (metis prod_cases3)
  have "out = b32_digits (be_val bs) (8 * length bs) len"
    using b32_loop_digits [of 0 "[]" 0 "[]" len bs acc bits out] assms loop
    by (simp add: be_val_def b32_digits_def)
  then show ?thesis
    by (simp add: encode_base32_lower_def loop)
qed

section \<open>Lemmas: identifiers and paths\<close>

lemma length_ALPHABET: "length ALPHABET = 32"
  by (simp add: ALPHABET_def)

lemma ALPHABET_base32: "list_all is_base32_char ALPHABET"
  by code_simp

lemma ALPHABET_distinct: "distinct ALPHABET"
  by code_simp

lemma b32_digits_base32: "list_all is_base32_char (b32_digits v m j)"
  using ALPHABET_base32 by (auto simp: b32_digits_def list_all_iff length_ALPHABET)

lemma session_id_new_Ok_iff:
  "session_id_new v = Ok i \<longleftrightarrow> i = v \<and> 8 \<le> length v \<and> length v \<le> 10 \<and> list_all is_base32_char v"
  by (auto simp: session_id_new_def)

lemma session_id_new_encode:
  assumes "8 \<le> length bs"
  shows "session_id_new (encode_base32_lower bs SESSION_ID_LEN) =
     Ok (b32_digits (be_val bs) (8 * length bs) SESSION_ID_LEN)"
  using assms encode_base32_lower_eq [of SESSION_ID_LEN bs]
  by (simp add: session_id_new_Ok_iff SESSION_ID_LEN_def b32_digits_base32)

text \<open>The candidate of an attempt whose random source works.\<close>

definition candidate_id :: "gen_env \<Rightarrow> nat \<Rightarrow> u8 list \<Rightarrow> SessionId" where
  "candidate_id env attempt nonce =
     encode_base32_lower
       (take 8 (blake3_hash env (session_seed env attempt @ nonce @ be_bytes 8 attempt)))
       SESSION_ID_LEN"

lemma candidate_id_valid:
  assumes "\<And>bs. 8 \<le> length (blake3_hash env bs)"
  shows "session_id_new (candidate_id env attempt nonce) = Ok (candidate_id env attempt nonce)"
    and "length (candidate_id env attempt nonce) = SESSION_ID_LEN"
proof -
  let ?bs = "take 8 (blake3_hash env (session_seed env attempt @ nonce @ be_bytes 8 attempt))"
  have bs: "8 \<le> length ?bs" using assms by simp
  then have eq: "candidate_id env attempt nonce = b32_digits (be_val ?bs) (8 * length ?bs) SESSION_ID_LEN"
    using encode_base32_lower_eq [of SESSION_ID_LEN ?bs]
    by (simp add: candidate_id_def SESSION_ID_LEN_def)
  then show "length (candidate_id env attempt nonce) = SESSION_ID_LEN" by simp
  then show "session_id_new (candidate_id env attempt nonce) = Ok (candidate_id env attempt nonce)"
    using eq by (simp add: session_id_new_Ok_iff SESSION_ID_LEN_def b32_digits_base32)
qed

lemma generate_attempts_Suc:
  assumes "\<And>bs. 8 \<le> length (blake3_hash env bs)"
  shows "generate_attempts env existing (Suc left) attempt =
     (case random_nonce env attempt of
        Err e \<Rightarrow> Err e
      | Ok nonce \<Rightarrow>
          if candidate_id env attempt nonce \<notin> set existing
          then Ok (candidate_id env attempt nonce)
          else generate_attempts env existing left (Suc attempt))"
  using candidate_id_valid(1) [OF assms, unfolded candidate_id_def]
  by (simp add: candidate_id_def Let_def split: result.splits)

lemma generate_attempts_Ok:
  assumes "\<And>bs. 8 \<le> length (blake3_hash env bs)"
    and "generate_attempts env existing left attempt = Ok i"
  shows "i \<notin> set existing \<and> session_id_new i = Ok i \<and> length i = SESSION_ID_LEN"
  using assms(2)
proof (induction left arbitrary: attempt)
  case (Suc left)
  then show ?case
    using candidate_id_valid [OF assms(1)]
    by (auto simp del: generate_attempts.simps simp: generate_attempts_Suc [OF assms(1)]
        split: result.splits if_splits)
qed simp

lemma generate_attempts_Err:
  assumes "\<And>bs. 8 \<le> length (blake3_hash env bs)"
    and "generate_attempts env existing left attempt = Err e"
  shows "(\<exists>k. attempt \<le> k \<and> k < attempt + left \<and> random_nonce env k = Err e) \<or>
     (e = ExhaustedGeneration \<and>
      (\<forall>k. attempt \<le> k \<longrightarrow> k < attempt + left \<longrightarrow>
         (\<exists>nonce. random_nonce env k = Ok nonce \<and> candidate_id env k nonce \<in> set existing)))"
  using assms(2)
proof (induction left arbitrary: attempt)
  case (Suc left)
  show ?case
  proof (cases "random_nonce env attempt")
    case (Ok nonce)
    with Suc.prems have mem: "candidate_id env attempt nonce \<in> set existing"
      and "generate_attempts env existing left (Suc attempt) = Err e"
      by (auto simp del: generate_attempts.simps simp: generate_attempts_Suc [OF assms(1)]
          split: if_splits)
    from Suc.IH [OF this(2)] show ?thesis
    proof (elim disjE exE conjE)
      fix k assume "Suc attempt \<le> k" "k < Suc attempt + left" "random_nonce env k = Err e"
      then show ?thesis by (intro disjI1 exI [of _ k]) simp
    next
      assume e: "e = ExhaustedGeneration"
        and all: "\<forall>k. Suc attempt \<le> k \<longrightarrow> k < Suc attempt + left \<longrightarrow>
          (\<exists>nonce. random_nonce env k = Ok nonce \<and> candidate_id env k nonce \<in> set existing)"
      have "\<exists>nonce. random_nonce env k = Ok nonce \<and> candidate_id env k nonce \<in> set existing"
        if "attempt \<le> k" "k < attempt + Suc left" for k
        using that Ok mem all by (cases "k = attempt") auto
      with e show ?thesis by blast
    qed
  next
    case (Err e')
    with Suc.prems have "e' = e" by simp
    with Err show ?thesis by (intro disjI1 exI [of _ attempt]) simp
  qed
qed simp

lemma base32_no_slash: "list_all is_base32_char v \<Longrightarrow> CHR ''/'' \<notin> set v"
  by (auto simp: list_all_iff is_base32_char_def)

lemma path_file_name_join:
  assumes "CHR ''/'' \<notin> set name" and "name \<noteq> []" and "name \<noteq> ''.''" and "name \<noteq> ''..''"
  shows "path_file_name (path_join base name) = Some name"
proof -
  have head: "take 1 name \<noteq> ''/''"
    using assms(1,2) by (cases name) auto
  show ?thesis
  proof (cases "base = []")
    case True
    with head assms show ?thesis
      by (simp add: path_join_def path_file_name_def split_on_no_sep Let_def)
  next
    case False
    then obtain base' where "path_join base name = base' @ CHR ''/'' # name"
      using head by (cases "last base = CHR ''/''")
        (auto simp: path_join_def intro: that [of "butlast base"] that [of base],
         metis append.assoc append_Cons append_Nil append_butlast_last_id)
    with assms show ?thesis
      by (simp add: path_file_name_def split_on_append_sep split_on_no_sep Let_def)
  qed
qed

lemma socket_path_Ok:
  assumes "socket_path dir sid = Ok p"
  shows "p = path_join dir (sid @ ''.sock'') \<and> length p \<le> SOCKET_PATH_LIMIT \<and>
     session_id_new sid = Ok sid"
  using assms by (auto simp: socket_path_def Let_def session_id_new_Ok_iff
      split: result.splits if_splits)

lemma session_id_from_socket_path_join:
  assumes "session_id_new sid = Ok sid"
  shows "session_id_from_socket_path (path_join dir (sid @ ''.sock'')) = Ok sid"
proof -
  have "CHR ''/'' \<notin> set (sid @ ''.sock'')" and "8 \<le> length sid"
    using assms base32_no_slash by (auto simp: session_id_new_Ok_iff)
  then have "path_file_name (path_join dir (sid @ ''.sock'')) = Some (sid @ ''.sock'')"
    by (intro path_file_name_join) auto
  with assms show ?thesis
    by (simp add: session_id_from_socket_path_def)
qed

lemma collect_session_ids_Ok:
  assumes "collect_session_ids show_io dir entries = Ok ids"
  shows "ids = List.map_filter (\<lambda>e. case e of Err _ \<Rightarrow> None
      | Ok path \<Rightarrow> ok (session_id_from_socket_path path)) entries \<and> list_all is_ok entries"
  using assms
  by (induction entries arbitrary: ids)
    (auto simp: List.map_filter_def split: result.splits)

section \<open>Lemmas: selection\<close>

lemma length_picker_rows_from [simp]:
  "length (picker_rows_from dt n sessions) = length sessions"
  by (induction sessions arbitrary: n) auto

lemma picker_rows_from_selector:
  assumes "i < length sessions"
  shows "picker_rows_from dt n sessions ! i =
     picker_row dt
       (if is_selectable (sessions ! i)
        then Some (n + length (filter is_selectable (take i sessions))) else None)
       (sessions ! i)"
  using assms
proof (induction sessions arbitrary: n i)
  case (Cons s sessions)
  then show ?case by (cases i) auto
qed simp

lemma filter_nth_take:
  "i < length xs \<Longrightarrow> P (xs ! i) \<Longrightarrow>
     length (filter P (take i xs)) < length (filter P xs) \<and>
     filter P xs ! length (filter P (take i xs)) = xs ! i"
proof (induction xs arbitrary: i)
  case (Cons x xs)
  then show ?case by (cases i) auto
qed simp

lemma auto_select_cases:
  "auto_select sessions =
     (if filter is_selectable sessions = [] then SelNewSession
      else if length (filter is_selectable sessions) = 1
      then SelAttach (info_id (hd (filter is_selectable sessions)))
      else SelPrompt)"
  by (auto simp: auto_select_def split: list.splits)

section \<open>Properties\<close>

text \<open>
  The identifier encoder is correct: with a 32-bit accumulator that drops its high bits,
  \<open>encode_base32_lower\<close> still yields the most significant base-32 digits of the whole byte string
  read as one big-endian number, in lower-case base-32 letters.
\<close>

theorem encode_base32_lower_correct:
  assumes "0 < len" and "5 * len \<le> 8 * length bs"
  shows "encode_base32_lower bs len =
     map (\<lambda>i. ALPHABET ! (foldl (\<lambda>a b. 256 * a + unat b) 0 bs div 2 ^ (8 * length bs - 5 * (i + 1))
                 mod 32)) [0..<len]"
  using encode_base32_lower_eq [OF assms] by (simp add: b32_digits_def be_val_def)

theorem encode_base32_lower_correct_witness:
  "encode_base32_lower [255, 0, 17, 34, 51, 68, 85, 102] 10 =
     map (\<lambda>i. ALPHABET ! (foldl (\<lambda>a b. 256 * a + unat b) 0
        ([255, 0, 17, 34, 51, 68, 85, 102] :: u8 list) div 2 ^ (64 - 5 * (i + 1)) mod 32)) [0..<10]"
  using encode_base32_lower_correct [of 10 "[255, 0, 17, 34, 51, 68, 85, 102]"] by simp

text \<open>
  Session id generation: with a hash of at least eight bytes, a generated id is valid, ten
  characters long and different from every existing one; generation fails only with the error
  of the random source, or after 128 attempts whose candidates were all taken.
\<close>

theorem generate_session_id_fresh:
  assumes "\<And>bs. 8 \<le> length (blake3_hash env bs)"
  shows "case generate_session_id env existing of
      Ok i \<Rightarrow> i \<notin> set existing \<and> session_id_new i = Ok i \<and> length i = 10
    | Err e \<Rightarrow>
        (\<exists>k<128. random_nonce env k = Err e) \<or>
        (e = ExhaustedGeneration \<and>
         (\<forall>k<128. \<exists>nonce. random_nonce env k = Ok nonce \<and>
            candidate_id env k nonce \<in> set existing))"
proof (cases "generate_session_id env existing")
  case (Ok i)
  with generate_attempts_Ok [OF assms] show ?thesis
    by (force simp: generate_session_id_def SESSION_ID_LEN_def)
next
  case (Err e)
  then have "generate_attempts env existing 128 0 = Err e"
    by (simp add: generate_session_id_def MAX_GENERATE_ATTEMPTS_def)
  from generate_attempts_Err [OF assms this] Err show ?thesis by auto
qed

text \<open>A hash that repeats its input, for the witness.\<close>

definition demo_env :: gen_env where
  "demo_env = \<lparr>wall_nanos = (\<lambda>_. 0), monotonic_nanos = (\<lambda>_. 0), process_id = 1,
     random_nonce = (\<lambda>k. Ok (be_bytes 16 k)), blake3_hash = (\<lambda>bs. bs @ replicate 32 0)\<rparr>"

theorem generate_session_id_fresh_witness:
  "case generate_session_id demo_env [''aaaaaaaa''] of
      Ok i \<Rightarrow> i \<notin> set [''aaaaaaaa''] \<and> session_id_new i = Ok i \<and> length i = 10
    | Err e \<Rightarrow>
        (\<exists>k<128. random_nonce demo_env k = Err e) \<or>
        (e = ExhaustedGeneration \<and>
         (\<forall>k<128. \<exists>nonce. random_nonce demo_env k = Ok nonce \<and>
            candidate_id demo_env k nonce \<in> set [''aaaaaaaa'']))"
  by (rule generate_session_id_fresh) (simp add: demo_env_def)

text \<open>
  Socket names and session ids agree: the path \<open>socket_path\<close> builds for a session stays
  within 100 bytes and is parsed back to the same id, so when the directory listing holds that
  path, \<open>list_session_socket_ids\<close> lists the session, in sorted order.
\<close>

theorem socket_path_listed:
  assumes "socket_path dir sid = Ok p"
  shows "length p \<le> 100 \<and> session_id_from_socket_path p = Ok sid \<and>
     (\<forall>entries ids. Ok p \<in> set entries \<longrightarrow>
        list_session_socket_ids show_io dir (Ok entries) = Ok ids \<longrightarrow> sid \<in> set ids \<and> sorted ids)"
proof -
  have p: "session_id_from_socket_path p = Ok sid" and "length p \<le> 100"
    using socket_path_Ok [OF assms] session_id_from_socket_path_join [of sid dir]
    by (auto simp: SOCKET_PATH_LIMIT_def)
  moreover have "sid \<in> set ids \<and> sorted ids"
    if mem: "Ok p \<in> set entries"
      and list: "list_session_socket_ids show_io dir (Ok entries) = Ok ids" for entries ids
  proof -
    from list obtain ids' where "collect_session_ids show_io dir entries = Ok ids'"
      and "ids = sort ids'"
      by (auto simp: list_session_socket_ids_def split: result.splits)
    with collect_session_ids_Ok mem p show ?thesis
      by (force simp: List.map_filter_def)
  qed
  ultimately show ?thesis by blast
qed

theorem socket_path_listed_witness:
  "length ''/tmp/ssh-obi-1000/aaaaaaaa.sock'' \<le> 100 \<and>
   session_id_from_socket_path ''/tmp/ssh-obi-1000/aaaaaaaa.sock'' = Ok ''aaaaaaaa''"
proof -
  have "socket_path ''/tmp/ssh-obi-1000'' ''aaaaaaaa'' = Ok ''/tmp/ssh-obi-1000/aaaaaaaa.sock''"
    by code_simp
  from socket_path_listed [OF this] show ?thesis by blast
qed

text \<open>
  Socket directory safety: \<open>prepare_socket_dir\<close> accepts the directory only when it could be
  created or was there, can be examined, is a directory owned by the expected user, and has
  exactly the permission bits 0700; in all other cases it returns an error.
\<close>

theorem prepare_socket_dir_safe:
  "prepare_socket_dir show_io env dir uid = Ok () \<longleftrightarrow>
     (dir_exists env \<or> dir_create env = Ok ()) \<and>
     (\<exists>md. dir_metadata env = Ok md \<and> md_is_dir md \<and> md_uid md = uid \<and>
        and (md_mode md) (8 * 8 * 7 + 8 * 7 + 7) = 8 * 8 * 7)"
  by (auto simp: prepare_socket_dir_def Let_def split: result.splits if_splits)

end
