(* ===== verification/Daemon.thy ===== *)
theory Daemon
  imports Session Replay
begin

text \<open>
  The session daemon of \<open>src/src/daemon.rs\<close>: its mutex-protected \<open>DaemonState\<close>, the handler thread
  of every connection (\<open>handle_daemon_stream\<close> and \<open>attach_broker\<close>), the PTY reader thread, the
  child waiter thread and the accept loop. Every step of the model is one critical section or one
  blocking call of one thread; a run is a list of actions, that is, a schedule together with the
  answers of the environment (frames received, results of writes and system calls, the clock).
  The lemmas show the invariant every schedule keeps, the busy and detach protocol, and the
  interleavings in which the threads disturb each other.
\<close>

section \<open>State\<close>

type_synonym conn = nat

datatype PtyError =
    PtyOpen int | PtyFork int | PtySetWindowSize int | PtyTermios int | PtyNulByte string
  | PtyInvalidEnvironmentName string | PtyUnsupportedPlatform string

datatype DaemonError =
    DSessionId SessionIdError
  | DSocketPath SocketPathError
  | DSocketAlreadyExists string
  | DSocketPermissions string io_error
  | DFork int
  | DSetSid int
  | DChdir int
  | DOpenDevNull io_error
  | DRedirectStdio int
  | DBind io_error
  | DListen io_error
  | DAccept io_error
  | DStreamClone io_error
  | DPty PtyError
  | DDupPty int
  | DPtyWindowSize PtyError
  | DPtyWrite io_error
  | DProtocol protocol_error
  | DNoRequest
  | DUnexpectedMessage u8

text \<open>The writer of a broker is the stream of its connection, named by the connection.\<close>

record AttachedBroker =
  ab_token :: u64
  ab_writer :: conn

record DaemonState =
  ds_session_id :: SessionId
  ds_init_time :: SystemTime
  ds_last_detach_time :: "SystemTime option"
  ds_current_command :: string
  ds_replay :: ReplayBuffer
  ds_broker :: "AttachedBroker option"
  ds_attach_token :: u64
  ds_shutdown :: bool

text \<open>\<open>None\<close> would be the panic of \<open>ReplayBuffer::default_capacity\<close>.\<close>

definition daemon_state_new :: "SessionId \<Rightarrow> SystemTime \<Rightarrow> string \<Rightarrow> DaemonState option" where
  "daemon_state_new sid init_time command =
     map_option (\<lambda>replay.
       \<lparr>ds_session_id = sid, ds_init_time = init_time, ds_last_detach_time = None,
        ds_current_command = command, ds_replay = replay, ds_broker = None,
        ds_attach_token = 0, ds_shutdown = False\<rparr>) replay_default_capacity"

definition unix_time_millis :: "SystemTime \<Rightarrow> UnixTimeMillis" where
  "unix_time_millis t = (if t < 0 then 0 else word_of_nat (nat t div 1000000))"

definition ds_record :: "DaemonState \<Rightarrow> string option \<Rightarrow> SessionRecord" where
  "ds_record s command =
     \<lparr>rec_session_id = ds_session_id s,
      rec_init_time = unix_time_millis (ds_init_time s),
      rec_last_detach_time = map_option unix_time_millis (ds_last_detach_time s),
      rec_current_command = (case command of None \<Rightarrow> ds_current_command s | Some x \<Rightarrow> x),
      rec_attached = (ds_broker s \<noteq> None)\<rparr>"

definition next_attach_token :: "DaemonState \<Rightarrow> u64 \<times> DaemonState" where
  "next_attach_token s =
     (let token = ds_attach_token s + 1 in (token, s\<lparr>ds_attach_token := token\<rparr>))"

definition detach_current :: "DaemonState \<Rightarrow> SystemTime \<Rightarrow> conn option \<times> DaemonState" where
  "detach_current s detach_time =
     (map_option ab_writer (ds_broker s),
      s\<lparr>ds_last_detach_time := Some detach_time, ds_broker := None\<rparr>)"

text \<open>The token guard shared by the two places of \<open>attach_broker\<close> that give the session up.\<close>

definition detach_if_token :: "u64 \<Rightarrow> SystemTime \<Rightarrow> DaemonState \<Rightarrow> DaemonState" where
  "detach_if_token token now s =
     (case ds_broker s of
        Some broker \<Rightarrow> if ab_token broker = token then snd (detach_current s now) else s
      | None \<Rightarrow> s)"

section \<open>Helpers of the daemon\<close>

datatype WaitStatus = Exited int | Signaled int | OtherWait

definition exit_status_from_wait :: "WaitStatus \<Rightarrow> ExitStatus" where
  "exit_status_from_wait status =
     (case status of
        Exited code \<Rightarrow> \<lparr>es_code = Some code, es_signal = None\<rparr>
      | Signaled signal \<Rightarrow> \<lparr>es_code = None, es_signal = Some signal\<rparr>
      | OtherWait \<Rightarrow> \<lparr>es_code = None, es_signal = None\<rparr>)"

definition shell_command_name :: "string \<Rightarrow> string" where
  "shell_command_name shell =
     (case path_file_name shell of None \<Rightarrow> ''(unknown)'' | Some name \<Rightarrow> name)"

definition login_shell_argv0 :: "string \<Rightarrow> string" where
  "login_shell_argv0 shell =
     ''-'' @ (case path_file_name shell of
                None \<Rightarrow> ''sh'' | Some name \<Rightarrow> if name \<noteq> [] then name else ''sh'')"

text \<open>
  The environment variable, then the shell of the user database entry (a lookup that may fail),
  then \<open>/bin/sh\<close>.
\<close>

definition shell_to_spawn :: "string option \<Rightarrow> string option \<Rightarrow> string" where
  "shell_to_spawn env_shell user_shell =
     (case env_shell of
        Some shell \<Rightarrow>
          if shell \<noteq> [] then shell
          else (case user_shell of Some u \<Rightarrow> if u \<noteq> [] then u else ''/bin/sh'' | None \<Rightarrow> ''/bin/sh'')
      | None \<Rightarrow> (case user_shell of Some u \<Rightarrow> if u \<noteq> [] then u else ''/bin/sh'' | None \<Rightarrow> ''/bin/sh''))"

definition is_directory :: "(string \<Rightarrow> bool) \<Rightarrow> string \<Rightarrow> bool" where
  "is_directory is_dir path \<longleftrightarrow> path \<noteq> [] \<and> is_dir path"

definition home_to_spawn ::
  "(string \<Rightarrow> bool) \<Rightarrow> string option \<Rightarrow> string option \<Rightarrow> string" where
  "home_to_spawn is_dir env_home user_dir =
     (let fallback = (case user_dir of Some d \<Rightarrow> if is_dir d then d else ''/'' | None \<Rightarrow> ''/'') in
      case env_home of
        Some home \<Rightarrow> if is_directory is_dir home then home else fallback
      | None \<Rightarrow> fallback)"

definition term_to_spawn_from :: "string option \<Rightarrow> string" where
  "term_to_spawn_from v =
     (case v of
        Some t \<Rightarrow> if t \<noteq> [] \<and> t \<noteq> ''dumb'' then t else ''xterm-256color''
      | None \<Rightarrow> ''xterm-256color'')"

text \<open>
  The file system as the message-of-the-day code sees it: the metadata length and the contents of
  a file, each of which may fail, and the entries of a directory.
\<close>

record motd_fs =
  fs_is_file :: "string \<Rightarrow> bool"
  fs_len :: "string \<Rightarrow> nat option"
  fs_read :: "string \<Rightarrow> u8 list option"
  fs_read_dir :: "string \<Rightarrow> (string, io_error) result list option"

definition append_motd_file :: "motd_fs \<Rightarrow> u8 list \<Rightarrow> string \<Rightarrow> u8 list" where
  "append_motd_file fs output path =
     (case fs_len fs path of
        None \<Rightarrow> output
      | Some n \<Rightarrow>
          if \<not> n > 0 then output
          else (case fs_read fs path of None \<Rightarrow> output | Some bs \<Rightarrow> output @ bs))"

definition motd_to_print_from ::
  "motd_fs \<Rightarrow> string \<Rightarrow> string list \<Rightarrow> string \<Rightarrow> u8 list" where
  "motd_to_print_from fs hushlogin files motd_dir =
     (if fs_is_file fs hushlogin then []
      else
        (let output = foldl (append_motd_file fs) [] files in
         case fs_read_dir fs motd_dir of
           None \<Rightarrow> output
         | Some entries \<Rightarrow>
             foldl (append_motd_file fs) output (sort (List.map_filter ok entries))))"

definition motd_to_print :: "motd_fs \<Rightarrow> string \<Rightarrow> u8 list" where
  "motd_to_print fs home =
     motd_to_print_from fs (path_join home ''.hushlogin'')
       [''/run/motd.dynamic'', ''/etc/motd''] ''/etc/motd.d''"

section \<open>Threads and schedules\<close>

text \<open>What a blocking read of a frame gives a handler.\<close>

datatype in_event = InFrame Frame | InEof | InErr protocol_error

text \<open>Where the thread of a connection stands.\<close>

datatype handler =
    HReading bool "WindowSize option" \<comment> \<open>loop of \<open>handle_daemon_stream\<close>: \<open>saw_frame\<close>, win\<close>
  | HDetachNotify conn \<comment> \<open>about to write \<open>ClientShouldExit\<close> to the detached broker\<close>
  | HAttached u64 "u8 list" "WindowSize option" \<comment> \<open>attached: token, replay snapshot, win\<close>
  | HReplay u64 "u8 list" \<comment> \<open>window size applied, replay not yet written\<close>
  | HProxy u64 \<comment> \<open>frame loop of \<open>attach_broker\<close>\<close>
  | HFinish u64 \<comment> \<open>left the loop, before the final critical section\<close>
  | HDone "(unit, DaemonError) result"

datatype pty_reader =
    RReading \<comment> \<open>blocked in \<open>master_read.read\<close>\<close>
  | RWriting conn "u8 list" \<comment> \<open>about to write the bytes to the broker\<close>
  | RDetach \<comment> \<open>the write failed, about to call \<open>detach_current\<close>\<close>
  | RStopped

datatype child_waiter =
    WWaiting | WNotify ExitStatus "conn option" | WRemove | WStopped

record world =
  w_state :: DaemonState
  w_handlers :: "conn \<Rightarrow> handler option"
  w_reader :: pty_reader
  w_waiter :: child_waiter
  w_sent :: "conn \<Rightarrow> (msg_type \<times> body) list" \<comment> \<open>what was written to each connection\<close>
  w_pty_input :: "u8 list" \<comment> \<open>what was written to the PTY master\<close>
  w_pty_size :: "WindowSize option"
  w_pty_output :: "u8 list" \<comment> \<open>everything read from the PTY so far\<close>
  w_socket_file :: bool
  w_alive :: bool \<comment> \<open>the process runs: the accept loop has not returned\<close>

text \<open>The answers of the environment to one step.\<close>

record answers =
  now :: SystemTime
  stream_clone :: "(unit, io_error) result"
  stream_write :: "(unit, protocol_error) result"
  pty_write :: "(unit, io_error) result"
  pty_resize :: "(unit, PtyError) result"
  foreground :: "string option"

definition set_handler :: "conn \<Rightarrow> handler \<Rightarrow> world \<Rightarrow> world" where
  "set_handler c h w = w\<lparr>w_handlers := (w_handlers w)(c \<mapsto> h)\<rparr>"

definition send_to :: "conn \<Rightarrow> msg_type \<Rightarrow> body \<Rightarrow> world \<Rightarrow> world" where
  "send_to c t b w = w\<lparr>w_sent := (w_sent w)(c := w_sent w c @ [(t, b)])\<rparr>"

text \<open>
  The critical section of \<open>attach_broker\<close>: refuse a second broker with \<open>SessionBusy\<close>, written
  while the lock is held, or take the token, the snapshot and the session.
\<close>

definition attach_broker_lock ::
  "conn \<Rightarrow> answers \<Rightarrow> WindowSize option \<Rightarrow> world \<Rightarrow> world" where
  "attach_broker_lock c a win w =
     (case stream_clone a of
        Err e \<Rightarrow> set_handler c (HDone (Err (DStreamClone e))) w
      | Ok _ \<Rightarrow>
          (let s = w_state w in
           if ds_broker s \<noteq> None then
             (case stream_write a of
                Err e \<Rightarrow> set_handler c (HDone (Err (DProtocol e))) w
              | Ok _ \<Rightarrow>
                  set_handler c (HDone (Ok ()))
                    (send_to c SESSION_BUSY (BSessionBusy (ds_session_id s)) w))
           else
             (let (token, s1) = next_attach_token s;
                  replay = replay_snapshot (ds_replay s1)
              in set_handler c (HAttached token replay win)
                   (w\<lparr>w_state := s1\<lparr>ds_broker := Some \<lparr>ab_token = token, ab_writer = c\<rparr>\<rparr>\<rparr>))))"

text \<open>One turn of the loop of \<open>handle_daemon_stream\<close>.\<close>

definition reading_step ::
  "codec \<Rightarrow> conn \<Rightarrow> answers \<Rightarrow> bool \<Rightarrow> WindowSize option \<Rightarrow> in_event \<Rightarrow> world \<Rightarrow> world" where
  "reading_step cd c a saw_frame win ev w =
     (case ev of
        InErr e \<Rightarrow> set_handler c (HDone (Err (DProtocol e))) w
      | InEof \<Rightarrow> set_handler c (HDone (if saw_frame then Ok () else Err DNoRequest)) w
      | InFrame f \<Rightarrow>
          (let t = frame_msg_type f in
           if t = CAPABILITIES then
             (case decode_body cd KCapabilities f of
                Err e \<Rightarrow> set_handler c (HDone (Err (DProtocol e))) w
              | Ok _ \<Rightarrow>
                  (case stream_clone a of
                     Err e \<Rightarrow> set_handler c (HDone (Err (DStreamClone e))) w
                   | Ok _ \<Rightarrow>
                       (case stream_write a of
                          Err e \<Rightarrow> set_handler c (HDone (Err (DProtocol e))) w
                        | Ok _ \<Rightarrow>
                            set_handler c (HReading True win)
                              (send_to c CAPABILITIES (BCapabilities DEFAULT_CAPABILITIES) w))))
           else if t = INITIAL_WINDOW_SIZE then
             (case decode_WindowSize cd f of
                Ok ws \<Rightarrow> set_handler c (HReading True (Some ws)) w
              | Err e \<Rightarrow> set_handler c (HDone (Err (DProtocol e))) w)
           else if t = DAEMON_INFO_REQUEST then
             (case decode_body cd KDaemonInfoRequest f of
                Err e \<Rightarrow> set_handler c (HDone (Err (DProtocol e))) w
              | Ok _ \<Rightarrow>
                  (case stream_write a of
                     Err e \<Rightarrow> set_handler c (HDone (Err (DProtocol e))) w
                   | Ok _ \<Rightarrow>
                       set_handler c (HDone (Ok ()))
                         (send_to c DAEMON_INFO
                            (BDaemonInfo (ds_record (w_state w) (foreground a))) w)))
           else if t = DETACH then
             (case decode_body cd KDetachRequest f of
                Err e \<Rightarrow> set_handler c (HDone (Err (DProtocol e))) w
              | Ok _ \<Rightarrow>
                  (let (broker, s) = detach_current (w_state w) (now a) in
                   set_handler c
                     (case broker of Some writer \<Rightarrow> HDetachNotify writer | None \<Rightarrow> HDone (Ok ()))
                     (w\<lparr>w_state := s\<rparr>)))
           else if t = BROKER_ATTACH \<or> t = ATTACH_SESSION then
             (case (if t = BROKER_ATTACH then map_err DProtocol (decode_body cd KBrokerAttachRequest f)
                    else Ok BUnit) of
                Err e \<Rightarrow> set_handler c (HDone (Err e)) w
              | Ok _ \<Rightarrow> attach_broker_lock c a win w)
           else if msg_name t = None then set_handler c (HReading True win) w
           else set_handler c (HDone (Err (DUnexpectedMessage t))) w))"

text \<open>One turn of the frame loop of \<open>attach_broker\<close>.\<close>

definition proxy_step ::
  "codec \<Rightarrow> conn \<Rightarrow> answers \<Rightarrow> u64 \<Rightarrow> in_event \<Rightarrow> world \<Rightarrow> world" where
  "proxy_step cd c a token ev w =
     (case ev of
        InErr e \<Rightarrow> set_handler c (HDone (Err (DProtocol e))) w
      | InEof \<Rightarrow> set_handler c (HFinish token) w
      | InFrame f \<Rightarrow>
          (let t = frame_msg_type f in
           if t = PTY_DATA then
             (case decode_PtyData cd f of
                Ok bs \<Rightarrow>
                  (case pty_write a of
                     Err e \<Rightarrow> set_handler c (HDone (Err (DPtyWrite e))) w
                   | Ok _ \<Rightarrow> w\<lparr>w_pty_input := w_pty_input w @ bs\<rparr>)
              | Err e \<Rightarrow> set_handler c (HDone (Err (DProtocol e))) w)
           else if t = WINDOW_SIZE then
             (case decode_WindowSize cd f of
                Ok ws \<Rightarrow>
                  (case pty_resize a of
                     Err e \<Rightarrow> set_handler c (HDone (Err (DPtyWindowSize e))) w
                   | Ok _ \<Rightarrow> w\<lparr>w_pty_size := Some ws\<rparr>)
              | Err e \<Rightarrow> set_handler c (HDone (Err (DProtocol e))) w)
           else if t = DETACH then
             (case decode_body cd KDetachRequest f of
                Err e \<Rightarrow> set_handler c (HDone (Err (DProtocol e))) w
              | Ok _ \<Rightarrow> set_handler c (HFinish token) w)
           else if msg_name t = None then w
           else set_handler c (HDone (Err (DUnexpectedMessage t))) w))"

text \<open>
  The other steps of \<open>attach_broker\<close> and of the detach request: apply the window size, write the
  replay, leave, and tell the detached broker that its client should exit.
\<close>

definition winsize_step ::
  "conn \<Rightarrow> answers \<Rightarrow> u64 \<Rightarrow> u8 list \<Rightarrow> WindowSize option \<Rightarrow> world \<Rightarrow> world" where
  "winsize_step c a token replay win w =
     (case win of
        None \<Rightarrow> set_handler c (HReplay token replay) w
      | Some ws \<Rightarrow>
          (case pty_resize a of
             Err e \<Rightarrow>
               set_handler c (HDone (Err (DPtyWindowSize e)))
                 (w\<lparr>w_state := detach_if_token token (now a) (w_state w)\<rparr>)
           | Ok _ \<Rightarrow> set_handler c (HReplay token replay) (w\<lparr>w_pty_size := Some ws\<rparr>)))"

definition replay_step :: "conn \<Rightarrow> answers \<Rightarrow> u64 \<Rightarrow> u8 list \<Rightarrow> world \<Rightarrow> world" where
  "replay_step c a token replay w =
     (if replay = [] then set_handler c (HProxy token) w
      else
        (case stream_write a of
           Err e \<Rightarrow> set_handler c (HDone (Err (DProtocol e))) w
         | Ok _ \<Rightarrow> set_handler c (HProxy token) (send_to c PTY_DATA (BPtyData replay) w)))"

definition finish_step :: "conn \<Rightarrow> answers \<Rightarrow> u64 \<Rightarrow> world \<Rightarrow> world" where
  "finish_step c a token w =
     set_handler c (HDone (Ok ())) (w\<lparr>w_state := detach_if_token token (now a) (w_state w)\<rparr>)"

definition notify_step :: "conn \<Rightarrow> answers \<Rightarrow> conn \<Rightarrow> world \<Rightarrow> world" where
  "notify_step c a target w =
     (case stream_write a of
        Err e \<Rightarrow> set_handler c (HDone (Err (DProtocol e))) w
      | Ok _ \<Rightarrow> set_handler c (HDone (Ok ())) (send_to target CLIENT_SHOULD_EXIT BUnit w))"

text \<open>The PTY reader thread. \<open>None\<close> is a panic of \<open>ReplayBuffer::append\<close>.\<close>

datatype pty_event = PtyBytes "u8 list" | PtyEof | PtyInterrupted | PtyFailed

definition pty_read_step :: "pty_event \<Rightarrow> world \<Rightarrow> world option" where
  "pty_read_step ev w =
     (case ev of
        PtyEof \<Rightarrow> Some (w\<lparr>w_reader := RStopped\<rparr>)
      | PtyInterrupted \<Rightarrow> Some w
      | PtyFailed \<Rightarrow> Some (w\<lparr>w_reader := RStopped\<rparr>)
      | PtyBytes bs \<Rightarrow>
          (case replay_append (ds_replay (w_state w)) bs of
             None \<Rightarrow> None
           | Some replay \<Rightarrow>
               Some (w\<lparr>w_state := (w_state w)\<lparr>ds_replay := replay\<rparr>,
                       w_pty_output := w_pty_output w @ bs,
                       w_reader := (case ds_broker (w_state w) of
                          None \<Rightarrow> RReading
                        | Some broker \<Rightarrow> RWriting (ab_writer broker) bs)\<rparr>)))"

definition pty_forward_step :: "answers \<Rightarrow> conn \<Rightarrow> u8 list \<Rightarrow> world \<Rightarrow> world" where
  "pty_forward_step a c bs w =
     (case stream_write a of
        Ok _ \<Rightarrow> (send_to c PTY_DATA (BPtyData bs) w)\<lparr>w_reader := RReading\<rparr>
      | Err _ \<Rightarrow> w\<lparr>w_reader := RDetach\<rparr>)"

definition pty_detach_step :: "answers \<Rightarrow> world \<Rightarrow> world" where
  "pty_detach_step a w =
     w\<lparr>w_state := snd (detach_current (w_state w) (now a)), w_reader := RReading\<rparr>"

text \<open>The child waiter thread: raise \<open>shutdown\<close>, report the status, remove the socket file.\<close>

definition child_exit_step :: "WaitStatus option \<Rightarrow> world \<Rightarrow> world" where
  "child_exit_step status w =
     (let es = (case status of
            Some st \<Rightarrow> exit_status_from_wait st
          | None \<Rightarrow> \<lparr>es_code = None, es_signal = None\<rparr>)
      in w\<lparr>w_state := (w_state w)\<lparr>ds_shutdown := True\<rparr>,
           w_waiter := WNotify es (map_option ab_writer (ds_broker (w_state w)))\<rparr>)"

definition waiter_notify_step :: "answers \<Rightarrow> ExitStatus \<Rightarrow> conn option \<Rightarrow> world \<Rightarrow> world" where
  "waiter_notify_step a es broker w =
     (case broker of
        None \<Rightarrow> w\<lparr>w_waiter := WRemove\<rparr>
      | Some c \<Rightarrow>
          (case stream_write a of
             Ok _ \<Rightarrow> (send_to c EXIT_STATUS (BExitStatus es) w)\<lparr>w_waiter := WRemove\<rparr>
           | Err _ \<Rightarrow> w\<lparr>w_waiter := WRemove\<rparr>))"

definition waiter_remove_step :: "world \<Rightarrow> world" where
  "waiter_remove_step w = w\<lparr>w_socket_file := False, w_waiter := WStopped\<rparr>"

text \<open>
  One step of one thread. An action names the thread and carries the environment's answers; it
  has no successor (\<open>None\<close>) when that thread does not stand at such a step, or when the process
  has ended. \<open>AExit\<close> is the accept loop seeing \<open>shutdown\<close>, removing the socket and returning.
\<close>

datatype action =
    AAccept conn answers \<comment> \<open>accept, start the handler thread, clone its stream\<close>
  | AAcceptFail \<comment> \<open>\<open>accept\<close> fails and the accept loop returns the error\<close>
  | ARecv conn in_event answers
  | AHandler conn answers \<comment> \<open>the next non-receiving step of a handler\<close>
  | APty pty_event
  | APtyWrite answers
  | AChild "WaitStatus option"
  | AWaiter answers
  | AExit

definition handler_step :: "conn \<Rightarrow> answers \<Rightarrow> world \<Rightarrow> world option" where
  "handler_step c a w =
     (case w_handlers w c of
        Some (HDetachNotify target) \<Rightarrow> Some (notify_step c a target w)
      | Some (HAttached token replay win) \<Rightarrow> Some (winsize_step c a token replay win w)
      | Some (HReplay token replay) \<Rightarrow> Some (replay_step c a token replay w)
      | Some (HFinish token) \<Rightarrow> Some (finish_step c a token w)
      | _ \<Rightarrow> None)"

definition recv_step :: "codec \<Rightarrow> conn \<Rightarrow> in_event \<Rightarrow> answers \<Rightarrow> world \<Rightarrow> world option" where
  "recv_step cd c ev a w =
     (case w_handlers w c of
        Some (HReading saw win) \<Rightarrow> Some (reading_step cd c a saw win ev w)
      | Some (HProxy token) \<Rightarrow> Some (proxy_step cd c a token ev w)
      | _ \<Rightarrow> None)"

fun dstep :: "codec \<Rightarrow> action \<Rightarrow> world \<Rightarrow> world option" where
  "dstep cd act w =
     (if \<not> w_alive w then None
      else
        (case act of
           AAccept c a \<Rightarrow>
             if \<not> ds_shutdown (w_state w) \<and> w_handlers w c = None
             then Some (set_handler c
                    (case stream_clone a of
                       Ok _ \<Rightarrow> HReading False None | Err e \<Rightarrow> HDone (Err (DStreamClone e))) w)
             else None
         | AAcceptFail \<Rightarrow>
             if \<not> ds_shutdown (w_state w) then Some (w\<lparr>w_alive := False\<rparr>) else None
         | ARecv c ev a \<Rightarrow> recv_step cd c ev a w
         | AHandler c a \<Rightarrow> handler_step c a w
         | APty ev \<Rightarrow> if w_reader w = RReading then pty_read_step ev w else None
         | APtyWrite a \<Rightarrow>
             (case w_reader w of
                RWriting c bs \<Rightarrow> Some (pty_forward_step a c bs w)
              | RDetach \<Rightarrow> Some (pty_detach_step a w)
              | _ \<Rightarrow> None)
         | AChild status \<Rightarrow>
             if w_waiter w = WWaiting then Some (child_exit_step status w) else None
         | AWaiter a \<Rightarrow>
             (case w_waiter w of
                WNotify es broker \<Rightarrow> Some (waiter_notify_step a es broker w)
              | WRemove \<Rightarrow> Some (waiter_remove_step w)
              | _ \<Rightarrow> None)
         | AExit \<Rightarrow>
             if ds_shutdown (w_state w)
             then Some (w\<lparr>w_socket_file := False, w_alive := False\<rparr>) else None))"

declare dstep.simps [simp del]

fun drun :: "codec \<Rightarrow> action list \<Rightarrow> world \<Rightarrow> world option" where
  "drun cd [] w = Some w"
| "drun cd (act # acts) w = (case dstep cd act w of None \<Rightarrow> None | Some w' \<Rightarrow> drun cd acts w')"

definition init_world :: "DaemonState \<Rightarrow> WindowSize option \<Rightarrow> world" where
  "init_world s win =
     \<lparr>w_state = s, w_handlers = (\<lambda>_. None), w_reader = RReading, w_waiter = WWaiting,
      w_sent = (\<lambda>_. []), w_pty_input = [], w_pty_size = win, w_pty_output = [],
      w_socket_file = True, w_alive = True\<rparr>"

definition daemon_run ::
  "codec \<Rightarrow> SessionId \<Rightarrow> SystemTime \<Rightarrow> string \<Rightarrow> WindowSize option \<Rightarrow> action list \<Rightarrow> world option" where
  "daemon_run cd sid t command win acts =
     (case daemon_state_new sid t command of
        None \<Rightarrow> None
      | Some s \<Rightarrow> drun cd acts (init_world s win))"

section \<open>Lemmas: single steps\<close>

lemma set_handler_simps [simp]:
  "w_state (set_handler c h w) = w_state w"
  "w_handlers (set_handler c h w) = (w_handlers w)(c \<mapsto> h)"
  "w_reader (set_handler c h w) = w_reader w"
  "w_waiter (set_handler c h w) = w_waiter w"
  "w_sent (set_handler c h w) = w_sent w"
  "w_pty_input (set_handler c h w) = w_pty_input w"
  "w_pty_output (set_handler c h w) = w_pty_output w"
  "w_alive (set_handler c h w) = w_alive w"
  by (simp_all add: set_handler_def)

lemma send_to_simps [simp]:
  "w_state (send_to c t b w) = w_state w"
  "w_handlers (send_to c t b w) = w_handlers w"
  "w_reader (send_to c t b w) = w_reader w"
  "w_waiter (send_to c t b w) = w_waiter w"
  "w_sent (send_to c t b w) = (w_sent w)(c := w_sent w c @ [(t, b)])"
  "w_pty_input (send_to c t b w) = w_pty_input w"
  "w_pty_output (send_to c t b w) = w_pty_output w"
  "w_alive (send_to c t b w) = w_alive w"
  by (simp_all add: send_to_def)

text \<open>Fields of the daemon state that the critical sections leave alone.\<close>

lemma detach_current_simps [simp]:
  "ds_replay (snd (detach_current s t)) = ds_replay s"
  "ds_attach_token (snd (detach_current s t)) = ds_attach_token s"
  "ds_shutdown (snd (detach_current s t)) = ds_shutdown s"
  "ds_broker (snd (detach_current s t)) = None"
  "ds_last_detach_time (snd (detach_current s t)) = Some t"
  "ds_session_id (snd (detach_current s t)) = ds_session_id s"
  "fst (detach_current s t) = map_option ab_writer (ds_broker s)"
  by (simp_all add: detach_current_def)

lemma detach_if_token_simps [simp]:
  "ds_replay (detach_if_token k t s) = ds_replay s"
  "ds_attach_token (detach_if_token k t s) = ds_attach_token s"
  "ds_shutdown (detach_if_token k t s) = ds_shutdown s"
  by (simp_all add: detach_if_token_def split: option.splits)

lemma detach_if_token_broker:
  "ds_broker (detach_if_token k t s) =
     (case ds_broker s of Some b \<Rightarrow> if ab_token b = k then None else Some b | None \<Rightarrow> None)"
  by (auto simp: detach_if_token_def split: option.splits)

lemmas handler_step_defs =
  notify_step_def winsize_step_def replay_step_def finish_step_def

text \<open>
  The possible outcomes of one turn of the loop of \<open>handle_daemon_stream\<close>: the handler ends or
  goes on, after a reply or without one, it detaches the current broker, or it tries to attach.
\<close>

inductive reading_outcome ::
  "codec \<Rightarrow> conn \<Rightarrow> answers \<Rightarrow> WindowSize option \<Rightarrow> in_event \<Rightarrow> world \<Rightarrow> world \<Rightarrow> bool"
  for cd c a win ev w where
  quiet: "h = HDone r \<or> h = HReading True win' \<Longrightarrow>
     reading_outcome cd c a win ev w (set_handler c h w)"
| reply: "h = HDone r \<or> h = HReading True win' \<Longrightarrow> t = CAPABILITIES \<or> t = DAEMON_INFO \<Longrightarrow>
     reading_outcome cd c a win ev w (set_handler c h (send_to c t b w))"
| detach: "ev = InFrame f \<Longrightarrow> frame_msg_type f = DETACH \<Longrightarrow>
     h = (case map_option ab_writer (ds_broker (w_state w)) of
            Some writer \<Rightarrow> HDetachNotify writer | None \<Rightarrow> HDone (Ok ())) \<Longrightarrow>
     reading_outcome cd c a win ev w
       (set_handler c h (w\<lparr>w_state := snd (detach_current (w_state w) (now a))\<rparr>))"
| attach: "ev = InFrame f \<Longrightarrow>
     frame_msg_type f = BROKER_ATTACH \<or> frame_msg_type f = ATTACH_SESSION \<Longrightarrow>
     reading_outcome cd c a win ev w (attach_broker_lock c a win w)"

lemma reading_step_outcome:
  "reading_outcome cd c a win ev w (reading_step cd c a saw win ev w)"
proof (cases ev)
  case (InFrame f)
  let ?t = "frame_msg_type f"
  consider "?t = CAPABILITIES" | "?t = INITIAL_WINDOW_SIZE" | "?t = DAEMON_INFO_REQUEST"
    | "?t = DETACH" | "?t = BROKER_ATTACH" | "?t = ATTACH_SESSION"
    | "?t \<noteq> CAPABILITIES" "?t \<noteq> INITIAL_WINDOW_SIZE" "?t \<noteq> DAEMON_INFO_REQUEST"
      "?t \<noteq> DETACH" "?t \<noteq> BROKER_ATTACH" "?t \<noteq> ATTACH_SESSION"
    by blast
  then show ?thesis
  proof cases
    case 1
    then show ?thesis
      using InFrame
      by (simp add: reading_step_def split: result.split) (blast intro: quiet reply)
  next
    case 2
    then show ?thesis
      using InFrame
      by (simp add: reading_step_def obi_consts split: result.split) (blast intro: quiet)
  next
    case 3
    then show ?thesis
      using InFrame
      by (simp add: reading_step_def obi_consts split: result.split)
        (blast intro: quiet reply [unfolded obi_consts])
  next
    case 4
    then show ?thesis
      using InFrame detach [of ev f]
      by (simp add: reading_step_def obi_consts Let_def detach_current_def split: result.split)
        (blast intro: quiet)
  next
    case 5
    then show ?thesis
      using InFrame attach [of ev f]
      by (simp add: reading_step_def obi_consts split: result.split) (blast intro: quiet)
  next
    case 6
    then show ?thesis
      using InFrame attach [of ev f]
      by (simp add: reading_step_def obi_consts)
  next
    case 7
    then show ?thesis
      using InFrame by (simp add: reading_step_def Let_def) (blast intro: quiet)
  qed
qed (auto simp: reading_step_def intro: quiet)

text \<open>The possible outcomes of one turn of the frame loop of \<open>attach_broker\<close>.\<close>

inductive proxy_outcome :: "conn \<Rightarrow> u64 \<Rightarrow> in_event \<Rightarrow> world \<Rightarrow> world \<Rightarrow> bool"
  for c token ev w where
  stay: "proxy_outcome c token ev w (w\<lparr>w_pty_input := input, w_pty_size := win\<rparr>)"
| leave: "ev = InEof \<or> (\<exists>f. ev = InFrame f \<and> frame_msg_type f = DETACH) \<Longrightarrow>
     proxy_outcome c token ev w (set_handler c (HFinish token) w)"
| fail: "ev \<noteq> InEof \<Longrightarrow> proxy_outcome c token ev w (set_handler c (HDone (Err e)) w)"

lemma proxy_stay_input: "proxy_outcome c token ev w (w\<lparr>w_pty_input := input\<rparr>)"
  using stay [where input = input and win = "w_pty_size w" and w = w] by simp

lemma proxy_stay_size: "proxy_outcome c token ev w (w\<lparr>w_pty_size := win\<rparr>)"
  using stay [where input = "w_pty_input w" and win = win and w = w] by simp

lemma proxy_stay_same: "proxy_outcome c token ev w w"
  using stay [where input = "w_pty_input w" and win = "w_pty_size w" and w = w] by simp

lemma proxy_step_outcome: "proxy_outcome c token ev w (proxy_step cd c a token ev w)"
proof (cases ev)
  case (InFrame f)
  let ?t = "frame_msg_type f"
  consider "?t = PTY_DATA" | "?t = WINDOW_SIZE" | "?t = DETACH"
    | "?t \<noteq> PTY_DATA" "?t \<noteq> WINDOW_SIZE" "?t \<noteq> DETACH"
    by blast
  then show ?thesis
  proof cases
    case 1
    then show ?thesis
      using InFrame
      by (simp add: proxy_step_def split: result.split)
        (blast intro: proxy_stay_input fail)
  next
    case 2
    then show ?thesis
      using InFrame
      by (simp add: proxy_step_def obi_consts split: result.split)
        (blast intro: proxy_stay_size fail)
  next
    case 3
    then have "proxy_outcome c token ev w (set_handler c (HFinish token) w)"
      using InFrame by (blast intro: leave)
    with 3 show ?thesis
      using InFrame
      by (simp add: proxy_step_def obi_consts split: result.split) (blast intro: fail)
  next
    case 4
    then show ?thesis
      using InFrame by (simp add: proxy_step_def Let_def proxy_stay_same fail)
  qed
qed (auto simp: proxy_step_def intro: leave fail)

text \<open>The possible outcomes of the other steps of a handler.\<close>

inductive handler_outcome :: "conn \<Rightarrow> handler \<Rightarrow> world \<Rightarrow> world \<Rightarrow> bool"
  for c h w where
  notify: "h = HDetachNotify target \<Longrightarrow>
     handler_outcome c h w (set_handler c (HDone r) (send_to target CLIENT_SHOULD_EXIT BUnit w))"
| ended: "handler_outcome c h w (set_handler c (HDone r) w)"
| sized: "h = HAttached token replay win \<Longrightarrow>
     handler_outcome c h w (set_handler c (HReplay token replay) (w\<lparr>w_pty_size := win'\<rparr>))"
| replayed: "h = HReplay token replay \<Longrightarrow> replay = [] \<Longrightarrow>
     handler_outcome c h w (set_handler c (HProxy token) w)"
| replay_sent: "h = HReplay token replay \<Longrightarrow> replay \<noteq> [] \<Longrightarrow>
     handler_outcome c h w (set_handler c (HProxy token) (send_to c PTY_DATA (BPtyData replay) w))"
| released: "h = HAttached token replay (Some ws) \<or> h = HFinish token \<Longrightarrow>
     handler_outcome c h w
       (set_handler c (HDone r) (w\<lparr>w_state := detach_if_token token t (w_state w)\<rparr>))"

lemma sized_same: "h = HAttached token replay win \<Longrightarrow>
    handler_outcome c h w (set_handler c (HReplay token replay) w)"
  using sized [of h token replay win c w "w_pty_size w"] by simp

lemma handler_step_outcome:
  assumes "handler_step c a w = Some w'" and "w_handlers w c = Some h"
  shows "handler_outcome c h w w'"
proof (cases h)
  case (HAttached token replay win)
  with assms show ?thesis
    by (cases win) (auto simp: handler_step_def winsize_step_def split: result.splits
        intro: sized sized_same released)
qed (use assms in \<open>auto simp: handler_step_def handler_step_defs split: result.splits if_splits
    intro: handler_outcome.intros\<close>)

section \<open>Invariant: the replay ring\<close>

definition replay_tracks :: "world \<Rightarrow> bool" where
  "replay_tracks w \<longleftrightarrow>
     replay_inv (ds_replay (w_state w)) \<and>
     capacity (ds_replay (w_state w)) = DEFAULT_REPLAY_CAPACITY \<and>
     replay_snapshot (ds_replay (w_state w)) = last_n DEFAULT_REPLAY_CAPACITY (w_pty_output w)"

text \<open>Handlers and the waiter do not touch the ring or the record of the output.\<close>

definition same_ring :: "world \<Rightarrow> world \<Rightarrow> bool" where
  "same_ring w w' \<longleftrightarrow>
     ds_replay (w_state w') = ds_replay (w_state w) \<and> w_pty_output w' = w_pty_output w"

lemma same_ring_attach: "same_ring w (attach_broker_lock c a win w)"
  by (auto simp: same_ring_def attach_broker_lock_def next_attach_token_def Let_def
      split: result.splits)

lemma same_ring_reading: "same_ring w (reading_step cd c a saw win ev w)"
  using reading_step_outcome [of cd c a win ev w saw] same_ring_attach [of w c a win]
  by cases (auto simp: same_ring_def)

lemma same_ring_proxy: "same_ring w (proxy_step cd c a token ev w)"
  using proxy_step_outcome [of c token ev w cd a] by cases (auto simp: same_ring_def)

lemma same_ring_handler:
  assumes "handler_step c a w = Some w'"
  shows "same_ring w w'"
proof -
  from assms obtain h where h: "w_handlers w c = Some h"
    by (auto simp: handler_step_def split: option.splits)
  from handler_step_outcome [OF assms h] show ?thesis
    by cases (auto simp: same_ring_def)
qed

lemma replay_tracks_same_ring: "same_ring w w' \<Longrightarrow> replay_tracks w \<Longrightarrow> replay_tracks w'"
  by (simp add: same_ring_def replay_tracks_def)

lemma replay_tracks_pty_read:
  assumes "replay_tracks w" and "pty_read_step ev w = Some w'"
  shows "replay_tracks w'"
proof (cases ev)
  case (PtyBytes bs)
  from assms(1) have inv: "replay_inv (ds_replay (w_state w))"
    and cap: "capacity (ds_replay (w_state w)) = DEFAULT_REPLAY_CAPACITY"
    and snap: "replay_snapshot (ds_replay (w_state w)) =
      last_n DEFAULT_REPLAY_CAPACITY (w_pty_output w)"
    by (auto simp: replay_tracks_def)
  from PtyBytes assms(2) obtain r where r: "replay_append (ds_replay (w_state w)) bs = Some r"
    and w': "ds_replay (w_state w') = r" "w_pty_output w' = w_pty_output w @ bs"
    by (auto simp: pty_read_step_def split: option.splits)
  from rb.append_inv [OF inv r] rb.append_cap [OF inv r] rb.append_contents [OF inv r] cap snap w'
  show ?thesis
    by (simp add: replay_tracks_def last_n_last_n_append)
qed (use assms in \<open>auto simp: pty_read_step_def replay_tracks_def\<close>)

lemma dstep_alive: "dstep cd act w = Some w' \<Longrightarrow> w_alive w"
  by (auto simp: dstep.simps split: if_splits)

lemma replay_tracks_dstep:
  assumes "replay_tracks w" and "dstep cd act w = Some w'"
  shows "replay_tracks w'"
proof (cases act)
  case (ARecv c ev a)
  with assms(2) have "same_ring w w'"
    by (auto simp: dstep.simps recv_step_def same_ring_reading same_ring_proxy
        split: if_splits option.splits handler.splits)
  then show ?thesis using assms(1) by (rule replay_tracks_same_ring)
next
  case (AHandler c a)
  with assms(2) have "same_ring w w'"
    by (auto simp: dstep.simps intro: same_ring_handler split: if_splits)
  then show ?thesis using assms(1) by (rule replay_tracks_same_ring)
next
  case (APty ev)
  with assms show ?thesis
    by (auto simp: dstep.simps intro: replay_tracks_pty_read split: if_splits)
qed (use assms in \<open>auto simp: dstep.simps replay_tracks_def pty_forward_step_def pty_detach_step_def
    child_exit_step_def waiter_notify_step_def waiter_remove_step_def
    split: if_splits option.splits result.splits pty_reader.splits child_waiter.splits\<close>)

text \<open>Invariants along a run; \<open>P k\<close> may count the steps.\<close>

lemma drun_induct:
  assumes "drun cd acts w = Some w'" and "P k w"
    and "\<And>act j v v'. j < k + length acts \<Longrightarrow> P j v \<Longrightarrow> dstep cd act v = Some v' \<Longrightarrow> P (Suc j) v'"
  shows "P (k + length acts) w'"
  using assms
proof (induction acts arbitrary: w k)
  case (Cons act acts)
  then obtain v where v: "dstep cd act w = Some v" and run: "drun cd acts v = Some w'"
    by (auto split: option.splits)
  have "P (Suc k) v"
    using Cons.prems(3) [of k w act v] Cons.prems(2) v by simp
  then have "P (Suc k + length acts) w'"
    by (rule Cons.IH [OF run]) (use Cons.prems(3) in simp)
  then show ?case by simp
qed simp

lemma daemon_run_induct:
  assumes "daemon_run cd sid t cmd win acts = Some w"
    and "\<And>s. daemon_state_new sid t cmd = Some s \<Longrightarrow> P 0 (init_world s win)"
    and "\<And>act j v v'. j < length acts \<Longrightarrow> P j v \<Longrightarrow> dstep cd act v = Some v' \<Longrightarrow> P (Suc j) v'"
  shows "P (length acts) w"
proof -
  from assms(1) obtain s where "daemon_state_new sid t cmd = Some s"
    and "drun cd acts (init_world s win) = Some w"
    by (auto simp: daemon_run_def split: option.splits)
  with drun_induct [of cd acts "init_world s win" w P 0] assms(2,3) show ?thesis
    by auto
qed

lemma replay_tracks_init:
  "daemon_state_new sid t cmd = Some s \<Longrightarrow> replay_tracks (init_world s win)"
  by (auto simp: daemon_state_new_def replay_default_capacity_eq replay_tracks_def init_world_def
      replay_inv_def replay_snapshot_def DEFAULT_REPLAY_CAPACITY_def)

lemma replay_tracks_run:
  assumes "daemon_run cd sid t cmd win acts = Some w"
  shows "replay_tracks w"
  using daemon_run_induct [OF assms, of "\<lambda>_. replay_tracks"] replay_tracks_init replay_tracks_dstep
  by blast

section \<open>Invariant: attach tokens\<close>

fun handler_token :: "handler \<Rightarrow> u64 option" where
  "handler_token (HAttached token _ _) = Some token"
| "handler_token (HReplay token _) = Some token"
| "handler_token (HProxy token) = Some token"
| "handler_token (HFinish token) = Some token"
| "handler_token _ = None"

definition conn_token :: "world \<Rightarrow> conn \<Rightarrow> u64 option" where
  "conn_token w c = Option.bind (w_handlers w c) handler_token"

text \<open>
  Tokens are handed out increasingly, two handlers never hold the same one, and the handler that
  holds the token of the attached broker is the one of that broker's connection.
\<close>

definition token_inv :: "nat \<Rightarrow> world \<Rightarrow> bool" where
  "token_inv k w \<longleftrightarrow>
     unat (ds_attach_token (w_state w)) \<le> k \<and>
     (\<forall>c t. conn_token w c = Some t \<longrightarrow> t \<le> ds_attach_token (w_state w)) \<and>
     (\<forall>c d t. conn_token w c = Some t \<longrightarrow> conn_token w d = Some t \<longrightarrow> c = d) \<and>
     (\<forall>b. ds_broker (w_state w) = Some b \<longrightarrow>
        ab_token b \<le> ds_attach_token (w_state w) \<and>
        (\<forall>c t. conn_token w c = Some t \<longrightarrow> (t = ab_token b \<longleftrightarrow> c = ab_writer b)))"

text \<open>Most steps hand out no token: handlers keep or drop theirs, the broker stays or goes.\<close>

definition no_new_token :: "world \<Rightarrow> world \<Rightarrow> bool" where
  "no_new_token w w' \<longleftrightarrow>
     ds_attach_token (w_state w') = ds_attach_token (w_state w) \<and>
     (\<forall>c. conn_token w' c = conn_token w c \<or> conn_token w' c = None) \<and>
     (ds_broker (w_state w') = ds_broker (w_state w) \<or> ds_broker (w_state w') = None)"

lemma token_inv_no_new: "token_inv k w \<Longrightarrow> no_new_token w w' \<Longrightarrow> token_inv (Suc k) w'"
  by (auto simp: token_inv_def no_new_token_def) (metis option.distinct(1))+

lemma conn_token_set_handler [simp]:
  "conn_token (set_handler c h w) d = (if d = c then handler_token h else conn_token w d)"
  by (simp add: conn_token_def)

lemma conn_token_cong: "w_handlers w' = w_handlers w \<Longrightarrow> conn_token w' = conn_token w"
  by (simp add: conn_token_def fun_eq_iff)

lemma conn_token_send_to [simp]: "conn_token (send_to c t b w) = conn_token w"
  by (rule conn_token_cong) simp

lemma conn_token_upd [simp]:
  "conn_token (w\<lparr>w_state := s\<rparr>) = conn_token w"
  "conn_token (w\<lparr>w_pty_input := input\<rparr>) = conn_token w"
  "conn_token (w\<lparr>w_pty_size := win\<rparr>) = conn_token w"
  "conn_token (w\<lparr>w_reader := rd\<rparr>) = conn_token w"
  "conn_token (w\<lparr>w_pty_output := out\<rparr>) = conn_token w"
  "conn_token (w\<lparr>w_waiter := wt\<rparr>) = conn_token w"
  "conn_token (w\<lparr>w_socket_file := f\<rparr>) = conn_token w"
  "conn_token (w\<lparr>w_alive := al\<rparr>) = conn_token w"
  by (simp_all add: conn_token_def fun_eq_iff)

text \<open>The outcomes of the critical section of \<open>attach_broker\<close>.\<close>

inductive attach_outcome ::
  "conn \<Rightarrow> WindowSize option \<Rightarrow> world \<Rightarrow> world \<Rightarrow> bool" for c win w where
  refused: "attach_outcome c win w (set_handler c (HDone r) w)"
| busy: "ds_broker (w_state w) = Some b \<Longrightarrow>
     attach_outcome c win w (set_handler c (HDone (Ok ()))
       (send_to c SESSION_BUSY (BSessionBusy (ds_session_id (w_state w))) w))"
| taken: "ds_broker (w_state w) = None \<Longrightarrow> token = ds_attach_token (w_state w) + 1 \<Longrightarrow>
     attach_outcome c win w
       (set_handler c (HAttached token (replay_snapshot (ds_replay (w_state w))) win)
         (w\<lparr>w_state := (w_state w)\<lparr>ds_attach_token := token,
                                   ds_broker := Some \<lparr>ab_token = token, ab_writer = c\<rparr>\<rparr>\<rparr>))"

lemma attach_broker_lock_outcome: "attach_outcome c win w (attach_broker_lock c a win w)"
proof (cases "ds_broker (w_state w)")
  case None
  then show ?thesis
    using taken [OF None refl, of c win]
    by (auto simp: attach_broker_lock_def next_attach_token_def Let_def
        intro: refused split: result.splits)
next
  case (Some b)
  then show ?thesis
    by (auto simp: attach_broker_lock_def Let_def intro: refused busy [OF Some] split: result.splits)
qed

lemma token_inv_attach:
  assumes "token_inv k w" and "Suc k < 2 ^ 64"
  shows "token_inv (Suc k) (attach_broker_lock c a win w)"
  using attach_broker_lock_outcome [of c win w a]
proof cases
  case (taken token)
  have "unat (ds_attach_token (w_state w)) + 1 < 2 ^ 64"
    using assms by (auto simp: token_inv_def)
  then have "unat token = unat (ds_attach_token (w_state w)) + 1"
    using taken(3) by (simp add: unat_word_ariths)
  then have "ds_attach_token (w_state w) < token" and "unat token \<le> Suc k"
    using assms(1) by (auto simp: token_inv_def word_less_nat_alt)
  moreover have "t < token" if "conn_token w d = Some t" for d t
    using that assms(1) calculation(1) by (auto simp: token_inv_def intro: le_less_trans)
  ultimately show ?thesis
    using taken(1) assms(1) unfolding token_inv_def
    by (auto simp: less_imp_le)
qed (use assms token_inv_no_new in \<open>auto simp: no_new_token_def\<close>)

lemma no_new_token_proxy:
  assumes "w_handlers w c = Some (HProxy token)"
  shows "no_new_token w (proxy_step cd c a token ev w)"
  using proxy_step_outcome [of c token ev w cd a]
  by cases (use assms in \<open>auto simp: no_new_token_def conn_token_def\<close>)

lemma no_new_token_handler:
  assumes "handler_step c a w = Some w'"
  shows "no_new_token w w'"
proof -
  from assms obtain h where h: "w_handlers w c = Some h"
    by (auto simp: handler_step_def split: option.splits)
  from handler_step_outcome [OF assms h] show ?thesis
    by cases (use h in \<open>auto simp: no_new_token_def conn_token_def detach_if_token_broker
      split: option.splits\<close>)
qed

lemma token_inv_reading:
  assumes "token_inv k w" and "Suc k < 2 ^ 64"
  shows "token_inv (Suc k) (reading_step cd c a saw win ev w)"
  using reading_step_outcome [of cd c a win ev w saw]
proof cases
  case (attach f)
  then show ?thesis using token_inv_attach [OF assms] by simp
qed (use assms(1) token_inv_no_new in
    \<open>auto simp: no_new_token_def split: option.splits\<close>)

lemma token_inv_dstep:
  assumes "token_inv k w" and "dstep cd act w = Some w'" and "Suc k < 2 ^ 64"
  shows "token_inv (Suc k) w'"
proof (cases act)
  case (ARecv c ev a)
  with assms show ?thesis
    by (auto simp: dstep.simps recv_step_def intro: token_inv_reading
        token_inv_no_new [OF assms(1) no_new_token_proxy]
        split: if_splits option.splits handler.splits)
next
  case (AHandler c a)
  with assms have "no_new_token w w'"
    by (auto simp: dstep.simps intro: no_new_token_handler split: if_splits)
  then show ?thesis by (rule token_inv_no_new [OF assms(1)])
next
  case (AAccept c a)
  with assms have "no_new_token w w'"
    by (auto simp: dstep.simps no_new_token_def conn_token_def
        split: if_splits result.splits)
  then show ?thesis by (rule token_inv_no_new [OF assms(1)])
next
  case (APty ev)
  with assms have "no_new_token w w'"
    by (auto simp: dstep.simps no_new_token_def pty_read_step_def
        split: if_splits option.splits pty_event.splits)
  then show ?thesis by (rule token_inv_no_new [OF assms(1)])
next
  case (APtyWrite a)
  with assms have "no_new_token w w'"
    by (auto simp: dstep.simps no_new_token_def pty_forward_step_def pty_detach_step_def
        split: if_splits result.splits pty_reader.splits)
  then show ?thesis by (rule token_inv_no_new [OF assms(1)])
next
  case (AWaiter a)
  with assms have "no_new_token w w'"
    by (auto simp: dstep.simps no_new_token_def waiter_notify_step_def waiter_remove_step_def
        split: if_splits option.splits result.splits child_waiter.splits)
  then show ?thesis by (rule token_inv_no_new [OF assms(1)])
qed (use assms token_inv_no_new in
    \<open>auto simp: dstep.simps no_new_token_def child_exit_step_def split: if_splits\<close>)

lemma token_inv_init:
  "daemon_state_new sid t cmd = Some s \<Longrightarrow> token_inv 0 (init_world s win)"
  by (auto simp: daemon_state_new_def replay_default_capacity_eq token_inv_def init_world_def
      conn_token_def)

lemma token_inv_run:
  assumes "daemon_run cd sid t cmd win acts = Some w" and "length acts < 2 ^ 64"
  shows "token_inv (length acts) w"
  by (rule daemon_run_induct [OF assms(1)])
    (use assms(2) in \<open>auto intro: token_inv_init token_inv_dstep\<close>)

section \<open>Invariant: what an attached broker receives\<close>

definition pty_bytes :: "(msg_type \<times> body) list \<Rightarrow> u8 list" where
  "pty_bytes msgs =
     concat (map (\<lambda>(t, b). case b of BPtyData bs \<Rightarrow> if t = PTY_DATA then bs else [] | _ \<Rightarrow> []) msgs)"

fun inflight :: "pty_reader \<Rightarrow> conn \<Rightarrow> u8 list" where
  "inflight (RWriting d bs) c = (if d = c then bs else [])"
| "inflight _ c = []"

fun not_attached_yet :: "handler option \<Rightarrow> bool" where
  "not_attached_yet None \<longleftrightarrow> True"
| "not_attached_yet (Some (HReading _ _)) \<longleftrightarrow> True"
| "not_attached_yet _ \<longleftrightarrow> False"

text \<open>
  What the connection has received, given the output \<open>pre\<close> produced before it attached, and the
  later output it received before (\<open>l1\<close>) and after (\<open>l2\<close>) its replay.
\<close>

fun handler_sees :: "handler option \<Rightarrow> u8 list \<Rightarrow> u8 list \<Rightarrow> u8 list \<Rightarrow> u8 list \<Rightarrow> bool" where
  "handler_sees (Some (HAttached _ r _)) pre l1 l2 sent \<longleftrightarrow>
     r = last_n DEFAULT_REPLAY_CAPACITY pre \<and> l2 = [] \<and> sent = l1"
| "handler_sees (Some (HReplay _ r)) pre l1 l2 sent \<longleftrightarrow>
     r = last_n DEFAULT_REPLAY_CAPACITY pre \<and> l2 = [] \<and> sent = l1"
| "handler_sees (Some (HProxy _)) pre l1 l2 sent \<longleftrightarrow>
     sent = l1 @ last_n DEFAULT_REPLAY_CAPACITY pre @ l2"
| "handler_sees (Some (HFinish _)) pre l1 l2 sent \<longleftrightarrow>
     sent = l1 @ last_n DEFAULT_REPLAY_CAPACITY pre @ l2"
| "handler_sees _ pre l1 l2 sent \<longleftrightarrow> True"

definition broker_conn :: "world \<Rightarrow> conn option" where
  "broker_conn w = map_option ab_writer (ds_broker (w_state w))"

definition stream_ok :: "world \<Rightarrow> conn \<Rightarrow> bool" where
  "stream_ok w c \<longleftrightarrow>
     (not_attached_yet (w_handlers w c) \<longrightarrow>
        pty_bytes (w_sent w c) = [] \<and> inflight (w_reader w) c = [] \<and> 
        (\<forall>bs. w_reader w \<noteq> RWriting c bs) \<and> broker_conn w \<noteq> Some c) \<and>
     (broker_conn w = Some c \<and> w_reader w \<noteq> RDetach \<longrightarrow>
        (\<exists>pre l1 l2. w_pty_output w = pre @ l1 @ l2 @ inflight (w_reader w) c \<and>
           handler_sees (w_handlers w c) pre l1 l2 (pty_bytes (w_sent w c))))"

lemma pty_bytes_snoc [simp]:
  "pty_bytes (msgs @ [(t, b)]) =
     pty_bytes msgs @ (case b of BPtyData bs \<Rightarrow> if t = PTY_DATA then bs else [] | _ \<Rightarrow> [])"
  by (simp add: pty_bytes_def)

text \<open>Handler moves that need no new account of what the connection received.\<close>

fun plain_move :: "handler option \<Rightarrow> handler option \<Rightarrow> bool" where
  "plain_move h (Some (HReading _ _)) \<longleftrightarrow> not_attached_yet h"
| "plain_move h (Some (HDone _)) \<longleftrightarrow> True"
| "plain_move h (Some (HDetachNotify _)) \<longleftrightarrow> True"
| "plain_move (Some (HProxy t)) (Some (HFinish t')) \<longleftrightarrow> True"
| "plain_move (Some (HAttached t r win)) (Some (HReplay t' r')) \<longleftrightarrow> r' = r"
| "plain_move (Some (HReplay t r)) (Some (HProxy t')) \<longleftrightarrow> r = []"
| "plain_move h h' \<longleftrightarrow> h' = h"

definition stream_frame :: "world \<Rightarrow> world \<Rightarrow> conn \<Rightarrow> bool" where
  "stream_frame w w' c \<longleftrightarrow>
     w_reader w' = w_reader w \<and> w_pty_output w' = w_pty_output w \<and>
     pty_bytes (w_sent w' c) = pty_bytes (w_sent w c) \<and>
     (broker_conn w' = Some c \<longrightarrow> broker_conn w = Some c) \<and>
     plain_move (w_handlers w c) (w_handlers w' c)"

lemma plain_move_refl [simp]: "plain_move h h"
  by (cases "(h, h)" rule: plain_move.cases) auto

lemma plain_move_fresh: "plain_move h h' \<Longrightarrow> not_attached_yet h' \<Longrightarrow> not_attached_yet h"
  by (cases "(h, h')" rule: plain_move.cases) auto

lemma plain_move_sees:
  "plain_move h h' \<Longrightarrow> handler_sees h pre l1 l2 sent \<Longrightarrow> \<not> not_attached_yet h \<Longrightarrow>
     handler_sees h' pre l1 l2 sent"
  by (cases "(h, h')" rule: plain_move.cases) (auto elim!: not_attached_yet.elims)

lemma stream_ok_frame:
  assumes "stream_ok w c" and "stream_frame w w' c"
  shows "stream_ok w' c"
  using assms plain_move_fresh plain_move_sees unfolding stream_ok_def stream_frame_def
  by (metis (no_types, lifting))

lemma broker_conn_simps [simp]:
  "broker_conn (set_handler c h w) = broker_conn w"
  "broker_conn (send_to c t b w) = broker_conn w"
  "broker_conn (w\<lparr>w_pty_input := input\<rparr>) = broker_conn w"
  "broker_conn (w\<lparr>w_pty_size := win\<rparr>) = broker_conn w"
  "broker_conn (w\<lparr>w_reader := rd\<rparr>) = broker_conn w"
  "broker_conn (w\<lparr>w_pty_output := out\<rparr>) = broker_conn w"
  "broker_conn (w\<lparr>w_waiter := wt\<rparr>) = broker_conn w"
  "broker_conn (w\<lparr>w_socket_file := f\<rparr>) = broker_conn w"
  "broker_conn (w\<lparr>w_alive := al\<rparr>) = broker_conn w"
  "broker_conn (w\<lparr>w_state := s\<rparr>) = map_option ab_writer (ds_broker s)"
  by (simp_all add: broker_conn_def)

lemma detach_if_token_conn:
  "map_option ab_writer (ds_broker (detach_if_token k t (w_state w))) = Some c \<Longrightarrow>
     broker_conn w = Some c"
  by (auto simp: broker_conn_def detach_if_token_broker split: option.splits if_splits)

text \<open>The three kinds of steps that change the account: attach, replay and forwarded output.\<close>

lemma stream_ok_taken:
  assumes "\<And>d. stream_ok w d" and "replay_tracks w" and "not_attached_yet (w_handlers w c)"
    and "ds_broker s = Some \<lparr>ab_token = token, ab_writer = c\<rparr>"
  shows "stream_ok (set_handler c (HAttached token (replay_snapshot (ds_replay (w_state w))) win)
           (w\<lparr>w_state := s\<rparr>)) d"
proof (cases "d = c")
  case True
  with assms(1) [of c] assms(2-4) show ?thesis
    by (auto simp: stream_ok_def replay_tracks_def)
next
  case False
  with assms(1) [of d] assms(4) show ?thesis
    by (auto simp: stream_ok_def)
qed

lemma stream_ok_attach:
  assumes "\<And>d. stream_ok w d" and "replay_tracks w" and "not_attached_yet (w_handlers w c)"
  shows "stream_ok (attach_broker_lock c a win w) d"
  using attach_broker_lock_outcome [of c win w a]
proof cases
  case (taken token)
  then show ?thesis
    using stream_ok_taken [OF assms] by simp
qed (use stream_ok_frame [OF assms(1)] in \<open>auto simp: stream_frame_def\<close>)

lemma stream_ok_reading:
  assumes "\<And>d. stream_ok w d" and "replay_tracks w" and "not_attached_yet (w_handlers w c)"
  shows "stream_ok (reading_step cd c a saw win ev w) d"
  using reading_step_outcome [of cd c a win ev w saw]
proof cases
  case (attach f)
  then show ?thesis using stream_ok_attach [OF assms] by simp
qed (use stream_ok_frame [OF assms(1)] assms(3) in
    \<open>auto simp: stream_frame_def obi_consts split: option.splits body.splits\<close>)

lemma stream_ok_proxy:
  assumes "\<And>d. stream_ok w d" and "w_handlers w c = Some (HProxy token)"
  shows "stream_ok (proxy_step cd c a token ev w) d"
  using proxy_step_outcome [of c token ev w cd a]
  by cases (use stream_ok_frame [OF assms(1)] assms(2) in \<open>auto simp: stream_frame_def\<close>)

lemma stream_ok_replay_sent:
  assumes "stream_ok w d" and "w_handlers w c = Some (HReplay token replay)"
  shows "stream_ok (set_handler c (HProxy token) (send_to c PTY_DATA (BPtyData replay) w)) d"
proof (cases "d = c")
  case True
  with assms show ?thesis
    by (simp add: stream_ok_def) (metis append_Nil append_Nil2)
next
  case False
  with assms show ?thesis by (auto simp: stream_ok_def)
qed

lemma stream_ok_handler:
  assumes "\<And>d. stream_ok w d" and "handler_step c a w = Some w'"
  shows "stream_ok w' d"
proof -
  from assms obtain h where h: "w_handlers w c = Some h"
    by (auto simp: handler_step_def split: option.splits)
  from handler_step_outcome [OF assms(2) h] show ?thesis
  proof cases
    case (replay_sent token replay)
    then show ?thesis
      using stream_ok_replay_sent [OF assms(1)] h by simp
  qed (use stream_ok_frame [OF assms(1)] h detach_if_token_conn in
      \<open>auto simp: stream_frame_def obi_consts\<close>)
qed

lemma stream_ok_pty_read:
  assumes "stream_ok w d" and "pty_read_step ev w = Some w'" and "w_reader w = RReading"
  shows "stream_ok w' d"
  using assms
  by (cases "ds_broker (w_state w)")
    (auto simp: pty_read_step_def stream_ok_def broker_conn_def split: pty_event.splits option.splits,
      (blast | metis append.assoc)+)

lemma handler_sees_more:
  assumes "handler_sees h pre l1 l2 sent"
  shows "\<exists>l1' l2'. l1 @ l2 @ bs = l1' @ l2' \<and> handler_sees h pre l1' l2' (sent @ bs)"
proof (cases "\<exists>t r win. h = Some (HAttached t r win) \<or> h = Some (HReplay t r)")
  case True
  with assms show ?thesis by (intro exI [of _ "l1 @ bs"] exI [of _ "[]"]) auto
next
  case False
  then have "handler_sees h pre l1 (l2 @ bs) (sent @ bs)"
    using assms by (cases "(h, pre, l1, l2, sent)" rule: handler_sees.cases) auto
  then show ?thesis by blast
qed

lemma stream_ok_pty_forward:
  assumes ok: "stream_ok w d" and rd: "w_reader w = RWriting c bs"
  shows "stream_ok (pty_forward_step a c bs w) d"
proof (cases "stream_write a")
  case (Ok u)
  show ?thesis
  proof (cases "d = c")
    case True
    with ok rd have "\<not> not_attached_yet (w_handlers w d)"
      by (auto simp: stream_ok_def)
    moreover have "\<exists>pre l1 l2. w_pty_output w = pre @ l1 @ l2 \<and>
        handler_sees (w_handlers w c) pre l1 l2 (pty_bytes (w_sent w c) @ bs)"
      if "broker_conn w = Some c"
    proof -
      from that ok rd True obtain pre l1 l2 where "w_pty_output w = pre @ l1 @ l2 @ bs"
        and "handler_sees (w_handlers w c) pre l1 l2 (pty_bytes (w_sent w c))"
        by (auto simp: stream_ok_def)
      with handler_sees_more [OF this(2), of bs] show ?thesis by metis
    qed
    ultimately show ?thesis
      using Ok True by (auto simp: pty_forward_step_def stream_ok_def)
  next
    case False
    with Ok ok rd show ?thesis by (auto simp: pty_forward_step_def stream_ok_def)
  qed
next
  case (Err e)
  with ok rd show ?thesis by (auto simp: pty_forward_step_def stream_ok_def)
qed

lemma stream_ok_frame_all:
  "(\<And>d. stream_ok w d) \<Longrightarrow> (\<And>d. stream_frame w w' d) \<Longrightarrow> stream_ok w' d"
  using stream_ok_frame by blast

lemma stream_ok_dstep:
  assumes ok: "\<And>d. stream_ok w d" and "replay_tracks w" and "dstep cd act w = Some w'"
  shows "stream_ok w' d"
proof (cases act)
  case (ARecv c ev a)
  with assms show ?thesis
    by (auto simp: dstep.simps recv_step_def intro: stream_ok_reading stream_ok_proxy
        split: if_splits option.splits handler.splits)
next
  case (AHandler c a)
  with assms show ?thesis
    by (auto simp: dstep.simps intro: stream_ok_handler [OF ok] split: if_splits)
next
  case (AAccept c a)
  with assms show ?thesis
    by (intro stream_ok_frame_all [OF ok])
      (auto simp: dstep.simps stream_frame_def split: if_splits result.splits)
next
  case (APty ev)
  with assms show ?thesis
    by (auto simp: dstep.simps intro: stream_ok_pty_read [OF ok] split: if_splits)
next
  case (APtyWrite a)
  then consider c bs where "w_reader w = RWriting c bs" "w' = pty_forward_step a c bs w"
    | "w_reader w = RDetach" "w' = pty_detach_step a w"
    using assms(3) by (auto simp: dstep.simps split: if_splits pty_reader.splits)
  then show ?thesis
  proof cases
    case 1
    then show ?thesis using stream_ok_pty_forward [OF ok] by simp
  next
    case 2
    then show ?thesis using ok [of d] by (auto simp: stream_ok_def pty_detach_step_def)
  qed
next
  case (AWaiter a)
  with assms show ?thesis
    by (intro stream_ok_frame_all [OF ok])
      (auto simp: dstep.simps stream_frame_def waiter_notify_step_def waiter_remove_step_def
        obi_consts split: if_splits option.splits result.splits child_waiter.splits)
next
  case (AChild status)
  with assms show ?thesis
    by (intro stream_ok_frame_all [OF ok])
      (auto simp: dstep.simps stream_frame_def child_exit_step_def broker_conn_def Let_def
        split: if_splits)
qed (use assms(3) in \<open>auto simp: dstep.simps stream_frame_def intro!: stream_ok_frame_all [OF ok]
    split: if_splits\<close>)

lemma stream_ok_run:
  assumes "daemon_run cd sid t cmd win acts = Some w"
  shows "stream_ok w d"
proof -
  have "replay_tracks w \<and> (\<forall>d. stream_ok w d)"
  proof (rule daemon_run_induct [OF assms, of "\<lambda>_ w. replay_tracks w \<and> (\<forall>d. stream_ok w d)"])
    show "replay_tracks (init_world s win) \<and> (\<forall>d. stream_ok (init_world s win) d)"
      if "daemon_state_new sid t cmd = Some s" for s
      using replay_tracks_init [OF that] that
      by (auto simp: init_world_def stream_ok_def pty_bytes_def broker_conn_def daemon_state_new_def
          replay_default_capacity_eq)
  qed (use replay_tracks_dstep stream_ok_dstep in blast)
  then show ?thesis by blast
qed

section \<open>Properties\<close>

text \<open>Answers in which every call succeeds, for the concrete schedules below.\<close>

definition calm :: answers where
  "calm = \<lparr>now = 5, stream_clone = Ok (), stream_write = Ok (), pty_write = Ok (),
           pty_resize = Ok (), foreground = None\<rparr>"

definition attach_frame :: Frame where
  "attach_frame = \<lparr>frame_msg_type = ATTACH_SESSION, frame_flags = 0, frame_payload = []\<rparr>"

text \<open>
  C4. The daemon's replay ring under every schedule of its threads: however the handlers, the PTY
  reader and the child waiter interleave, the ring holds exactly the last 65536 bytes that the
  PTY has produced, and while the process lives and the reader is at its read, the bytes of the
  next read are accepted without a panic.
\<close>

theorem daemon_replay_ring:
  assumes "daemon_run cd sid t cmd win acts = Some w"
  shows "replay_snapshot (ds_replay (w_state w)) = last_n 65536 (w_pty_output w) \<and>
     (w_alive w \<and> w_reader w = RReading \<longrightarrow>
        (\<exists>w'. dstep cd (APty (PtyBytes bs)) w = Some w' \<and> w_pty_output w' = w_pty_output w @ bs))"
proof -
  have "replay_tracks w" using replay_tracks_run [OF assms] .
  moreover from this obtain r where "replay_append (ds_replay (w_state w)) bs = Some r"
    using rb.append_total by (auto simp: replay_tracks_def)
  ultimately show ?thesis
    by (auto simp: replay_tracks_def DEFAULT_REPLAY_CAPACITY_def dstep.simps pty_read_step_def)
qed

lemmas drun_simps = daemon_run_def daemon_state_new_def replay_default_capacity_eq dstep.simps
  init_world_def pty_read_step_def replay_append_eq replay_inv_def DEFAULT_REPLAY_CAPACITY_def
  recv_step_def handler_step_def reading_step_def proxy_step_def attach_broker_lock_def
  next_attach_token_def handler_step_defs pty_forward_step_def pty_detach_step_def
  detach_current_def detach_if_token_def child_exit_step_def waiter_notify_step_def
  waiter_remove_step_def set_handler_def send_to_def replay_snapshot_def
  calm_def attach_frame_def obi_consts last_n_def Let_def

lemma detach_frame_decodes:
  "decode_body pty_codec KDetachRequest
     \<lparr>frame_msg_type = DETACH, frame_flags = 0, frame_payload = [160]\<rparr> = Ok BDetachRequest"
  by (simp add: decode_body_def pty_codec_def)

theorem daemon_replay_ring_witness:
  "\<exists>w. daemon_run pty_codec ''abcdefghij'' 0 ''bash'' None [APty (PtyBytes [1, 2, 3])] = Some w \<and>
     replay_snapshot (ds_replay (w_state w)) = last_n 65536 (w_pty_output w)"
proof -
  obtain w where
    w: "daemon_run pty_codec ''abcdefghij'' 0 ''bash'' None [APty (PtyBytes [1, 2, 3])] = Some w"
    by (simp add: drun_simps)
  with daemon_replay_ring [OF w] show ?thesis by blast
qed

text \<open>
  C1. No output is lost or duplicated for an attached client. In every schedule, when the handler
  of the attached broker has sent the replay and the PTY reader is back at its read, the PTY data
  sent on that connection is the output produced since the attach, in order and complete, with the
  last 64 KiB of the earlier output put in once (not necessarily first: \<open>early\<close> is output that was
  forwarded before the replay was written).
\<close>

theorem broker_stream_complete:
  assumes "daemon_run cd sid t cmd win acts = Some w"
    and "ds_broker (w_state w) = Some b"
    and "w_handlers w (ab_writer b) = Some (HProxy token)"
    and "w_reader w = RReading"
  shows "\<exists>pre early later.
     w_pty_output w = pre @ early @ later \<and>
     pty_bytes (w_sent w (ab_writer b)) = early @ last_n 65536 pre @ later"
  using stream_ok_run [OF assms(1), of "ab_writer b"] assms(2-4)
  by (auto simp: stream_ok_def broker_conn_def DEFAULT_REPLAY_CAPACITY_def)

definition attach_schedule :: "action list" where
  "attach_schedule =
     [APty (PtyBytes [1]), AAccept 1 calm, ARecv 1 (InFrame attach_frame) calm,
      AHandler 1 calm, AHandler 1 calm, APty (PtyBytes [2]), APtyWrite calm]"

lemma attach_schedule_run:
  "\<exists>w. daemon_run pty_codec ''abcdefghij'' 0 ''bash'' None attach_schedule = Some w \<and>
     ds_broker (w_state w) = Some \<lparr>ab_token = 1, ab_writer = 1\<rparr> \<and>
     w_handlers w 1 = Some (HProxy 1) \<and> w_reader w = RReading"
  by (simp add: attach_schedule_def drun_simps)

theorem broker_stream_complete_witness:
  "\<exists>w pre early later.
     daemon_run pty_codec ''abcdefghij'' 0 ''bash'' None attach_schedule = Some w \<and>
     w_pty_output w = pre @ early @ later \<and>
     pty_bytes (w_sent w 1) = early @ last_n 65536 pre @ later"
  using attach_schedule_run broker_stream_complete by fastforce

text \<open>
  C3. The token guard of \<open>attach_broker\<close>. In every schedule of fewer than \<open>2 ^ 64\<close> steps, a handler
  that leaves its frame loop, or whose initial window size cannot be set, gives up the session
  exactly when its own connection is the attached one: a handler whose broker was detached and
  replaced meanwhile leaves the new broker attached.
\<close>

theorem handler_releases_own_session_only:
  assumes "daemon_run cd sid t cmd win acts = Some w" and "length acts < 2 ^ 64"
    and "w_handlers w c = Some (HFinish token) \<or>
         w_handlers w c = Some (HAttached token replay (Some ws)) \<and> \<not> is_ok (pty_resize a)"
    and "handler_step c a w = Some w'"
  shows "ds_broker (w_state w') =
     (case ds_broker (w_state w) of
        None \<Rightarrow> None
      | Some b \<Rightarrow> if ab_writer b = c then None else Some b)"
proof -
  have "conn_token w c = Some token"
    using assms(3) by (auto simp: conn_token_def)
  moreover have "token_inv (length acts) w"
    by (rule token_inv_run [OF assms(1,2)])
  ultimately have "ab_token b = token \<longleftrightarrow> ab_writer b = c" if "ds_broker (w_state w) = Some b" for b
    using that by (auto simp: token_inv_def)
  moreover have "ds_broker (w_state w') = ds_broker (detach_if_token token (now a) (w_state w))"
    using assms(3,4)
    by (auto simp: handler_step_def finish_step_def winsize_step_def split: result.splits)
  ultimately show ?thesis
    by (auto simp: detach_if_token_broker split: option.splits)
qed

text \<open>The handler of connection 1 has left its loop after connection 2 took the session over.\<close>

definition takeover_schedule :: "action list" where
  "takeover_schedule =
     [AAccept 1 calm, ARecv 1 (InFrame attach_frame) calm, AHandler 1 calm, AHandler 1 calm,
      AAccept 3 calm,
      ARecv 3 (InFrame \<lparr>frame_msg_type = DETACH, frame_flags = 0, frame_payload = [160]\<rparr>) calm,
      AAccept 2 calm, ARecv 2 (InFrame attach_frame) calm, ARecv 1 InEof calm]"

lemma takeover_schedule_run:
  "\<exists>w. daemon_run pty_codec ''abcdefghij'' 0 ''bash'' None takeover_schedule = Some w \<and>
     ds_broker (w_state w) = Some \<lparr>ab_token = 2, ab_writer = 2\<rparr> \<and>
     w_handlers w 1 = Some (HFinish 1)"
  using detach_frame_decodes
  by (simp add: takeover_schedule_def drun_simps)

theorem handler_releases_own_session_only_witness:
  "\<exists>w w'. daemon_run pty_codec ''abcdefghij'' 0 ''bash'' None takeover_schedule = Some w \<and>
     handler_step 1 calm w = Some w' \<and>
     ds_broker (w_state w') = Some \<lparr>ab_token = 2, ab_writer = 2\<rparr>"
proof -
  obtain w where w: "daemon_run pty_codec ''abcdefghij'' 0 ''bash'' None takeover_schedule = Some w"
    and b: "ds_broker (w_state w) = Some \<lparr>ab_token = 2, ab_writer = 2\<rparr>"
    and h: "w_handlers w 1 = Some (HFinish 1)"
    using takeover_schedule_run by blast
  obtain w' where w': "handler_step 1 calm w = Some w'"
    using h by (auto simp: handler_step_def)
  have "length takeover_schedule < 2 ^ 64" by (simp add: takeover_schedule_def)
  from handler_releases_own_session_only [OF w this _ w'] h b have
    "ds_broker (w_state w') = Some \<lparr>ab_token = 2, ab_writer = 2\<rparr>" by auto
  with w w' show ?thesis by blast
qed

text \<open>
  C5. One client per session. When an attach request arrives on a connection and the writes
  succeed: if a broker is attached, the daemon state and every other connection stay as they were,
  and the requester gets exactly one \<open>SessionBusy\<close> naming the session; if none is, the requester's
  connection becomes the broker under a fresh token, with the ring's contents as its replay, and
  nothing is written yet.
\<close>

theorem attach_request_exclusive:
  assumes "w_handlers w c = Some (HReading saw win)"
    and "frame_msg_type f = ATTACH_SESSION \<or>
         frame_msg_type f = BROKER_ATTACH \<and> is_ok (decode_body cd KBrokerAttachRequest f)"
    and "is_ok (stream_clone a)" and "is_ok (stream_write a)"
    and "recv_step cd c (InFrame f) a w = Some w'"
  shows "(\<forall>d. d \<noteq> c \<longrightarrow> w_handlers w' d = w_handlers w d \<and> w_sent w' d = w_sent w d) \<and>
     (case ds_broker (w_state w) of
        Some b \<Rightarrow>
          w_state w' = w_state w \<and> w_handlers w' c = Some (HDone (Ok ())) \<and>
          w_sent w' c =
            w_sent w c @ [(SESSION_BUSY, BSessionBusy (ds_session_id (w_state w)))]
      | None \<Rightarrow>
          (let token = ds_attach_token (w_state w) + 1 in
           w_state w' = (w_state w)\<lparr>ds_attach_token := token,
              ds_broker := Some \<lparr>ab_token = token, ab_writer = c\<rparr>\<rparr> \<and>
           w_handlers w' c =
             Some (HAttached token (replay_snapshot (ds_replay (w_state w))) win) \<and>
           w_sent w' c = w_sent w c))"
proof -
  have "w' = attach_broker_lock c a win w"
    using assms(2)
  proof
    assume "frame_msg_type f = ATTACH_SESSION"
    with assms(1,5) show ?thesis by (simp add: recv_step_def reading_step_def obi_consts)
  next
    assume "frame_msg_type f = BROKER_ATTACH \<and> is_ok (decode_body cd KBrokerAttachRequest f)"
    moreover from this obtain u where "decode_body cd KBrokerAttachRequest f = Ok u"
      by (cases "decode_body cd KBrokerAttachRequest f") auto
    ultimately show ?thesis
      using assms(1,5) by (simp add: recv_step_def reading_step_def obi_consts)
  qed
  moreover obtain u v where "stream_clone a = Ok u" and "stream_write a = Ok v"
    using assms(3,4) by (cases "stream_clone a"; cases "stream_write a") auto
  ultimately show ?thesis
    by (cases "ds_broker (w_state w)")
      (simp_all add: attach_broker_lock_def next_attach_token_def Let_def)
qed

lemma attach_after_schedule:
  "\<exists>w w'. daemon_run pty_codec ''abcdefghij'' 0 ''bash'' None
        (attach_schedule @ [AAccept 2 calm]) = Some w \<and>
     ds_broker (w_state w) = Some \<lparr>ab_token = 1, ab_writer = 1\<rparr> \<and>
     ds_session_id (w_state w) = ''abcdefghij'' \<and> w_sent w 2 = [] \<and>
     w_handlers w 2 = Some (HReading False None) \<and>
     recv_step pty_codec 2 (InFrame attach_frame) calm w = Some w'"
  by (simp add: attach_schedule_def drun_simps)

theorem attach_request_exclusive_witness:
  "\<exists>w w'. daemon_run pty_codec ''abcdefghij'' 0 ''bash'' None
        (attach_schedule @ [AAccept 2 calm]) = Some w \<and>
     recv_step pty_codec 2 (InFrame attach_frame) calm w = Some w' \<and>
     w_state w' = w_state w \<and> w_sent w' 2 = [(SESSION_BUSY, BSessionBusy ''abcdefghij'')]"
proof -
  obtain w w' where w: "daemon_run pty_codec ''abcdefghij'' 0 ''bash'' None
        (attach_schedule @ [AAccept 2 calm]) = Some w"
    and b: "ds_broker (w_state w) = Some \<lparr>ab_token = 1, ab_writer = 1\<rparr>"
      "ds_session_id (w_state w) = ''abcdefghij''" "w_sent w 2 = []"
    and h: "w_handlers w 2 = Some (HReading False None)"
    and r: "recv_step pty_codec 2 (InFrame attach_frame) calm w = Some w'"
    using attach_after_schedule by auto
  have "w_state w' = w_state w \<and> w_sent w' 2 = [(SESSION_BUSY, BSessionBusy ''abcdefghij'')]"
    using attach_request_exclusive [OF h _ _ _ r] b
    by (simp add: attach_frame_def calm_def)
  with w r show ?thesis by blast
qed

text \<open>
  A detach request frees the session at once: after the critical section no broker is
  attached, the detach time is recorded and the ring, the token counter and the shutdown flag are
  as before; if a broker was attached, the handler's next step tells exactly that connection
  \<open>ClientShouldExit\<close>, and otherwise nothing is sent and the handler is done.
\<close>

theorem detach_request_frees_session:
  assumes "w_handlers w c = Some (HReading saw win)" and "frame_msg_type f = DETACH"
    and "is_ok (decode_body cd KDetachRequest f)" and "is_ok (stream_write a')"
    and "recv_step cd c (InFrame f) a w = Some w1"
  shows "w_state w1 = (w_state w)\<lparr>ds_last_detach_time := Some (now a), ds_broker := None\<rparr> \<and>
     w_sent w1 = w_sent w \<and>
     (case ds_broker (w_state w) of
        None \<Rightarrow> w_handlers w1 c = Some (HDone (Ok ()))
      | Some b \<Rightarrow>
          (\<exists>w2. handler_step c a' w1 = Some w2 \<and> w_state w2 = w_state w1 \<and>
             w_handlers w2 c = Some (HDone (Ok ())) \<and>
             w_sent w2 = (w_sent w)(ab_writer b :=
               w_sent w (ab_writer b) @ [(CLIENT_SHOULD_EXIT, BUnit)])))"
  using assms
  by (auto simp: recv_step_def reading_step_def obi_consts detach_current_def handler_step_def
      notify_step_def split: result.splits option.splits)

lemma detach_after_schedule:
  "\<exists>w w1. daemon_run pty_codec ''abcdefghij'' 0 ''bash'' None
        (attach_schedule @ [AAccept 2 calm]) = Some w \<and>
     w_handlers w 2 = Some (HReading False None) \<and>
     recv_step pty_codec 2
       (InFrame \<lparr>frame_msg_type = DETACH, frame_flags = 0, frame_payload = [160]\<rparr>) calm w = Some w1"
  using detach_frame_decodes by (simp add: attach_schedule_def drun_simps)

theorem detach_request_frees_session_witness:
  "\<exists>w w1. daemon_run pty_codec ''abcdefghij'' 0 ''bash'' None
        (attach_schedule @ [AAccept 2 calm]) = Some w \<and>
     recv_step pty_codec 2
       (InFrame \<lparr>frame_msg_type = DETACH, frame_flags = 0, frame_payload = [160]\<rparr>) calm w = Some w1 \<and>
     ds_broker (w_state w1) = None \<and> ds_last_detach_time (w_state w1) = Some 5"
proof -
  obtain w w1 where w: "daemon_run pty_codec ''abcdefghij'' 0 ''bash'' None
        (attach_schedule @ [AAccept 2 calm]) = Some w"
    and h: "w_handlers w 2 = Some (HReading False None)"
    and r: "recv_step pty_codec 2
       (InFrame \<lparr>frame_msg_type = DETACH, frame_flags = 0, frame_payload = [160]\<rparr>) calm w = Some w1"
    using detach_after_schedule by auto
  have "ds_broker (w_state w1) = None \<and> ds_last_detach_time (w_state w1) = Some 5"
    using detach_request_frees_session [OF h _ _ _ r, of calm] detach_frame_decodes
    by (simp add: calm_def)
  with w r show ?thesis by blast
qed

text \<open>
  C6. A broker connection that fails with an error, rather than closing or sending \<open>Detach\<close>, leaves
  the session attached: when the handler's frame loop ends on a read error, on a frame of a known
  but unexpected type, or on a failed write to the PTY, the handler returns the error without
  reaching its final critical section, so the daemon state is unchanged and the connection stays
  the broker.
\<close>

theorem failed_broker_stays_attached:
  assumes "w_handlers w c = Some (HProxy token)"
    and "(\<exists>e. ev = InErr e) \<or>
         (\<exists>f. ev = InFrame f \<and> msg_name (frame_msg_type f) \<noteq> None \<and>
            frame_msg_type f \<notin> {PTY_DATA, WINDOW_SIZE, DETACH}) \<or>
         (\<exists>f bs. ev = InFrame f \<and> frame_msg_type f = PTY_DATA \<and>
            decode_PtyData cd f = Ok bs \<and> \<not> is_ok (pty_write a))"
    and "recv_step cd c ev a w = Some w'"
  shows "(\<exists>e. w_handlers w' c = Some (HDone (Err e))) \<and> w_state w' = w_state w"
  using assms
  by (auto simp: recv_step_def proxy_step_def Let_def obi_consts split: result.splits)

lemma failed_broker_schedule:
  "\<exists>w w'. daemon_run pty_codec ''abcdefghij'' 0 ''bash'' None attach_schedule = Some w \<and>
     w_handlers w 1 = Some (HProxy 1) \<and>
     ds_broker (w_state w) = Some \<lparr>ab_token = 1, ab_writer = 1\<rparr> \<and>
     recv_step pty_codec 1 (InErr (Io (OtherKind 5))) calm w = Some w'"
  by (simp add: attach_schedule_def drun_simps)

theorem failed_broker_stays_attached_witness:
  "\<exists>w w'. daemon_run pty_codec ''abcdefghij'' 0 ''bash'' None attach_schedule = Some w \<and>
     recv_step pty_codec 1 (InErr (Io (OtherKind 5))) calm w = Some w' \<and>
     ds_broker (w_state w') = Some \<lparr>ab_token = 1, ab_writer = 1\<rparr>"
proof -
  obtain w w' where
    w: "daemon_run pty_codec ''abcdefghij'' 0 ''bash'' None attach_schedule = Some w"
    and h: "w_handlers w 1 = Some (HProxy 1)"
    and b: "ds_broker (w_state w) = Some \<lparr>ab_token = 1, ab_writer = 1\<rparr>"
    and r: "recv_step pty_codec 1 (InErr (Io (OtherKind 5))) calm w = Some w'"
    using failed_broker_schedule by blast
  from failed_broker_stays_attached [OF h _ r] b have
    "ds_broker (w_state w') = Some \<lparr>ab_token = 1, ab_writer = 1\<rparr>" by simp
  with w r show ?thesis by blast
qed

definition failing :: answers where
  "failing = calm\<lparr>stream_write := Err (Io (OtherKind 32))\<rparr>"


end
