(* ===== verification/Cli.thy ===== *)
theory Cli
  imports Obi_Prelude
begin

text \<open>
  The command line of the client, \<open>src/src/cli.rs\<close>: \<open>parse_client_args\<close> and the argument vector for
  \<open>ssh\<close>. An \<open>OsString\<close> is its bytes, a \<open>string\<close>; \<open>to_str\<close> and \<open>into_string\<close> succeed on valid UTF-8.
  An error carries the argument's own bytes, not their lossy conversion. The lemmas show that printing a parsed command line and parsing it again gives the same result, and
  what \<open>ssh\<close> is given.
\<close>

section \<open>UTF-8\<close>

definition is_cont :: "nat \<Rightarrow> bool" where
  "is_cont b \<longleftrightarrow> 128 \<le> b \<and> b \<le> 191"

fun utf8_ok :: "nat list \<Rightarrow> bool" where
  "utf8_ok [] \<longleftrightarrow> True"
| "utf8_ok (a # bs) \<longleftrightarrow>
     (if a < 128 then utf8_ok bs
      else
        (case bs of
           [] \<Rightarrow> False
         | b # cs \<Rightarrow>
             if 194 \<le> a \<and> a \<le> 223 then is_cont b \<and> utf8_ok cs
             else
               (case cs of
                  [] \<Rightarrow> False
                | c # ds \<Rightarrow>
                    if 224 \<le> a \<and> a \<le> 239 then
                      is_cont b \<and> is_cont c \<and> (a = 224 \<longrightarrow> 160 \<le> b) \<and> (a = 237 \<longrightarrow> b \<le> 159)
                      \<and> utf8_ok ds
                    else
                      (case ds of
                         [] \<Rightarrow> False
                       | d # es \<Rightarrow>
                           240 \<le> a \<and> a \<le> 244 \<and> is_cont b \<and> is_cont c \<and> is_cont d
                           \<and> (a = 240 \<longrightarrow> 144 \<le> b) \<and> (a = 244 \<longrightarrow> b \<le> 143) \<and> utf8_ok es))))"

definition is_utf8 :: "string \<Rightarrow> bool" where
  "is_utf8 s \<longleftrightarrow> utf8_ok (map of_char s)"

section \<open>Arguments\<close>

datatype ClientAction = Attach | New | List | Detach | DetachConnect | Version

datatype CliError =
    MissingDestination
  | MissingOptionValue string
  | NonUtf8OptionValue string
  | UnsupportedOption string
  | ConflictingActions
  | DetachRequiresSession
  | RemoteCommandNotSupported
  | VersionTakesNoArguments

record ClientArgs =
  ca_action :: ClientAction
  ca_session :: "string option"
  ca_ssh_args :: "string list"
  ca_destination :: string

definition ssh_command_args :: "ClientArgs \<Rightarrow> string \<Rightarrow> string list" where
  "ssh_command_args a remote_command =
     (if ''-T'' \<in> set (ca_ssh_args a) then [] else [''-T''])
     @ ca_ssh_args a @ [ca_destination a] @ [remote_command]"

definition starts_with_dash :: "string \<Rightarrow> bool" where
  "starts_with_dash arg \<longleftrightarrow> arg \<noteq> [] \<and> hd arg = CHR ''-''"

definition os_to_string :: "string \<Rightarrow> string \<Rightarrow> (string, CliError) result" where
  "os_to_string val option = (if is_utf8 val then Ok val else Err (NonUtf8OptionValue option))"

definition is_standalone_ssh_flag :: "string \<Rightarrow> bool" where
  "is_standalone_ssh_flag arg \<longleftrightarrow>
     arg \<in> {''-4'', ''-6'', ''-A'', ''-a'', ''-C'', ''-f'', ''-G'', ''-g'', ''-K'', ''-k'', ''-N'', ''-n'',
            ''-q'', ''-T'', ''-t'', ''-V'', ''-X'', ''-x'', ''-Y'', ''-y''} \<or>
     is_utf8 arg \<and> length arg > 1 \<and> list_all (\<lambda>c. c = CHR ''v'') (tl arg)"

definition ssh_option_needing_value :: "string \<Rightarrow> string option" where
  "ssh_option_needing_value arg =
     (if arg \<in> {''-B'', ''-b'', ''-c'', ''-D'', ''-E'', ''-e'', ''-F'', ''-I'', ''-i'', ''-J'', ''-L'', ''-l'',
                ''-m'', ''-O'', ''-o'', ''-p'', ''-Q'', ''-R'', ''-S'', ''-W'', ''-w''}
      then Some arg else None)"

definition is_joined_ssh_option :: "string \<Rightarrow> bool" where
  "is_joined_ssh_option arg \<longleftrightarrow>
     is_utf8 arg \<and>
     (case arg of
        d # c # _ \<Rightarrow> d = CHR ''-'' \<and> c \<in> set ''BbcDEeFIiJLlmOopQRSWw''
      | _ \<Rightarrow> False)"

definition set_action :: "ClientAction \<Rightarrow> ClientAction \<Rightarrow> (ClientAction, CliError) result" where
  "set_action action next_action =
     (if action \<noteq> Attach then Err ConflictingActions else Ok next_action)"

text \<open>The variables of the loop.\<close>

record parse_state =
  ps_action :: ClientAction
  ps_session :: "string option"
  ps_ssh_args :: "string list"
  ps_destination :: "string option"

definition action_flag :: "string \<Rightarrow> ClientAction option" where
  "action_flag arg =
     (if arg = ''--new'' then Some New
      else if arg = ''--list'' then Some List
      else if arg = ''--detach'' then Some Detach
      else if arg = ''--detach-connect'' then Some DetachConnect
      else if arg = ''--obi-version'' then Some Version
      else None)"

fun parse_loop :: "string list \<Rightarrow> parse_state \<Rightarrow> (parse_state, CliError) result" where
  "parse_loop [] s = Ok s"
| "parse_loop (arg # rest) s =
     (if ps_destination s \<noteq> None then Err RemoteCommandNotSupported
      else if arg = ''--'' then
        (case rest of
           [] \<Rightarrow> Err MissingDestination
         | [dest] \<Rightarrow> Ok (s\<lparr>ps_destination := Some dest\<rparr>)
         | _ \<Rightarrow> Err RemoteCommandNotSupported)
      else
        (case action_flag arg of
           Some a \<Rightarrow>
             (case set_action (ps_action s) a of
                Err e \<Rightarrow> Err e
              | Ok a' \<Rightarrow> parse_loop rest (s\<lparr>ps_action := a'\<rparr>))
         | None \<Rightarrow>
             if arg = ''--session'' then
               (case rest of
                  [] \<Rightarrow> Err (MissingOptionValue ''--session'')
                | val # rest' \<Rightarrow>
                    (case os_to_string val ''--session'' of
                       Err e \<Rightarrow> Err e
                     | Ok str \<Rightarrow> parse_loop rest' (s\<lparr>ps_session := Some str\<rparr>)))
             else if starts_with_dash arg then
               (if is_standalone_ssh_flag arg then
                  parse_loop rest (s\<lparr>ps_ssh_args := ps_ssh_args s @ [arg]\<rparr>)
                else
                  (case ssh_option_needing_value arg of
                     Some opt \<Rightarrow>
                       (case rest of
                          [] \<Rightarrow> Err (MissingOptionValue opt)
                        | val # rest' \<Rightarrow>
                            parse_loop rest' (s\<lparr>ps_ssh_args := ps_ssh_args s @ [arg, val]\<rparr>))
                   | None \<Rightarrow>
                       if is_joined_ssh_option arg then
                         parse_loop rest (s\<lparr>ps_ssh_args := ps_ssh_args s @ [arg]\<rparr>)
                       else Err (UnsupportedOption arg)))
             else parse_loop rest (s\<lparr>ps_destination := Some arg\<rparr>)))"

definition start_state :: parse_state where
  "start_state = \<lparr>ps_action = Attach, ps_session = None, ps_ssh_args = [], ps_destination = None\<rparr>"

definition finish_args :: "parse_state \<Rightarrow> (ClientArgs, CliError) result" where
  "finish_args s =
     (if ps_action s = Version then
        (if ps_destination s \<noteq> None \<or> ps_session s \<noteq> None \<or> ps_ssh_args s \<noteq> []
         then Err VersionTakesNoArguments
         else Ok \<lparr>ca_action = Version, ca_session = None, ca_ssh_args = [], ca_destination = []\<rparr>)
      else
        (case ps_destination s of
           None \<Rightarrow> Err MissingDestination
         | Some dest \<Rightarrow>
             if ps_action s = Detach \<and> ps_session s = None then Err DetachRequiresSession
             else Ok \<lparr>ca_action = ps_action s, ca_session = ps_session s,
                      ca_ssh_args = ps_ssh_args s, ca_destination = dest\<rparr>))"

definition parse_client_args :: "string list \<Rightarrow> (ClientArgs, CliError) result" where
  "parse_client_args args = and_then (parse_loop args start_state) finish_args"

section \<open>Lemmas\<close>

text \<open>The command line that says what the arguments hold.\<close>

definition action_args :: "ClientAction \<Rightarrow> string list" where
  "action_args a =
     (case a of
        Attach \<Rightarrow> [] | New \<Rightarrow> [''--new''] | List \<Rightarrow> [''--list''] | Detach \<Rightarrow> [''--detach'']
      | DetachConnect \<Rightarrow> [''--detach-connect''] | Version \<Rightarrow> [''--obi-version''])"

definition print_args :: "ClientArgs \<Rightarrow> string list" where
  "print_args a =
     (if ca_action a = Version then [''--obi-version'']
      else
        action_args (ca_action a)
        @ (case ca_session a of None \<Rightarrow> [] | Some s \<Rightarrow> [''--session'', s])
        @ ca_ssh_args a @ [''--'', ca_destination a])"

text \<open>Lists of complete \<open>ssh\<close> options: the words that the loop collects.\<close>

definition plain_option :: "string \<Rightarrow> bool" where
  "plain_option arg \<longleftrightarrow>
     arg \<noteq> ''--'' \<and> arg \<noteq> ''--session'' \<and> action_flag arg = None \<and> starts_with_dash arg"

fun ssh_options :: "string list \<Rightarrow> bool" where
  "ssh_options [] \<longleftrightarrow> True"
| "ssh_options (arg # rest) \<longleftrightarrow> plain_option arg \<and>
     (if is_standalone_ssh_flag arg then ssh_options rest
      else
        (case ssh_option_needing_value arg of
           Some _ \<Rightarrow> (case rest of [] \<Rightarrow> False | _ # rest' \<Rightarrow> ssh_options rest')
         | None \<Rightarrow> is_joined_ssh_option arg \<and> ssh_options rest))"

lemma ssh_options_append: "ssh_options xs \<Longrightarrow> ssh_options (xs @ ys) = ssh_options ys"
  by (induction xs rule: ssh_options.induct) (auto split: if_splits option.splits list.splits)

text \<open>One turn of the loop on an option for \<open>ssh\<close>.\<close>

lemma parse_plain_option:
  assumes "plain_option arg" and "ps_destination s = None"
  shows "parse_loop (arg # rest) s =
     (if is_standalone_ssh_flag arg then parse_loop rest (s\<lparr>ps_ssh_args := ps_ssh_args s @ [arg]\<rparr>)
      else
        (case ssh_option_needing_value arg of
           Some opt \<Rightarrow>
             (case rest of
                [] \<Rightarrow> Err (MissingOptionValue opt)
              | val # rest' \<Rightarrow>
                  parse_loop rest' (s\<lparr>ps_ssh_args := ps_ssh_args s @ [arg, val]\<rparr>))
         | None \<Rightarrow>
             if is_joined_ssh_option arg then
               parse_loop rest (s\<lparr>ps_ssh_args := ps_ssh_args s @ [arg]\<rparr>)
             else Err (UnsupportedOption arg)))"
  using assms unfolding plain_option_def by (subst parse_loop.simps) simp

declare parse_loop.simps(2) [simp del]

lemma parse_ssh_options:
  "ssh_options opts \<Longrightarrow> ps_destination s = None \<Longrightarrow>
     parse_loop (opts @ rest) s = parse_loop rest (s\<lparr>ps_ssh_args := ps_ssh_args s @ opts\<rparr>)"
proof (induction opts arbitrary: s rule: ssh_options.induct)
  case (2 arg opts)
  note IH = "2.IH" and prems = "2.prems"
  have plain: "plain_option arg" using prems(1) by simp
  consider "is_standalone_ssh_flag arg" "ssh_options opts"
    | opt val opts' where "\<not> is_standalone_ssh_flag arg" "ssh_option_needing_value arg = Some opt"
        "opts = val # opts'" "ssh_options opts'"
    | "\<not> is_standalone_ssh_flag arg" "ssh_option_needing_value arg = None"
        "is_joined_ssh_option arg" "ssh_options opts"
    using prems(1) by (auto split: if_splits option.splits list.splits)
  then show ?case
  proof cases
    case 1
    with IH(1) prems(2) parse_plain_option [OF plain prems(2)] show ?thesis by simp
  next
    case 2
    with IH prems(2) parse_plain_option [OF plain prems(2)] show ?thesis by simp
  next
    case 3
    with IH(2) prems(2) parse_plain_option [OF plain prems(2)] show ?thesis by simp
  qed
qed simp

text \<open>What the loop has collected is printable, and its destination follows \<open>--\<close> or has no dash.\<close>

definition state_ok :: "parse_state \<Rightarrow> bool" where
  "state_ok s \<longleftrightarrow> ssh_options (ps_ssh_args s) \<and> (\<forall>v. ps_session s = Some v \<longrightarrow> is_utf8 v)"

lemma parse_loop_ok: "parse_loop args s = Ok s' \<Longrightarrow> state_ok s \<Longrightarrow> state_ok s'"
proof (induction args s arbitrary: s' rule: parse_loop.induct)
  case (2 arg rest s)
  note IH = "2.IH" and prems = "2.prems"
  note turn = prems(1) [unfolded parse_loop.simps(2)]
  show ?case
  proof (cases "ps_destination s \<noteq> None \<or> arg = ''--''")
    case True
    with turn prems(2) show ?thesis
      by (auto simp: state_ok_def split: if_splits list.splits)
  next
    case not_dest: False
    show ?thesis
    proof (cases "action_flag arg")
      case (Some a)
      with turn not_dest obtain a' where "set_action (ps_action s) a = Ok a'"
        and "parse_loop rest (s\<lparr>ps_action := a'\<rparr>) = Ok s'"
        by (auto split: result.splits)
      moreover have "state_ok (s\<lparr>ps_action := a'\<rparr>)" using prems(2) by (simp add: state_ok_def)
      ultimately show ?thesis using IH(6) [OF _ _ Some] not_dest by blast
    next
      case None
      consider "arg = ''--session''" | "arg \<noteq> ''--session''" "\<not> starts_with_dash arg"
        | "arg \<noteq> ''--session''" "starts_with_dash arg"
        by blast
      then show ?thesis
      proof cases
        case 1
        with turn not_dest None obtain val rest' where rest: "rest = val # rest'" and "is_utf8 val"
          and "parse_loop rest' (s\<lparr>ps_session := Some val\<rparr>) = Ok s'"
          by (auto simp: os_to_string_def split: list.splits if_splits)
        moreover have "state_ok (s\<lparr>ps_session := Some val\<rparr>)"
          using prems(2) \<open>is_utf8 val\<close> by (simp add: state_ok_def)
        moreover have "os_to_string val ''--session'' = Ok val"
          using \<open>is_utf8 val\<close> by (simp add: os_to_string_def)
        ultimately show ?thesis using IH(1) [OF _ _ None 1 rest] not_dest by blast
      next
        case 2
        with turn not_dest None have "parse_loop rest (s\<lparr>ps_destination := Some arg\<rparr>) = Ok s'" by simp
        moreover have "state_ok (s\<lparr>ps_destination := Some arg\<rparr>)" using prems(2) by (simp add: state_ok_def)
        ultimately show ?thesis using IH(5) [OF _ _ None] 2 not_dest by blast
      next
        case 3
        with None not_dest have plain: "plain_option arg" by (simp add: plain_option_def)
        have app: "ssh_options (ps_ssh_args s @ xs) = ssh_options xs" for xs
          using prems(2) by (simp add: state_ok_def ssh_options_append)
        show ?thesis
        proof (cases "is_standalone_ssh_flag arg")
          case True
          with turn 3 not_dest None
          have "parse_loop rest (s\<lparr>ps_ssh_args := ps_ssh_args s @ [arg]\<rparr>) = Ok s'" by simp
          moreover have "state_ok (s\<lparr>ps_ssh_args := ps_ssh_args s @ [arg]\<rparr>)"
            using prems(2) plain app True by (simp add: state_ok_def)
          ultimately show ?thesis using IH(2) [OF _ _ None 3 True] not_dest by blast
        next
          case False
          show ?thesis
          proof (cases "ssh_option_needing_value arg")
            case opt: (Some opt)
            with turn 3 not_dest None False obtain val rest' where rest: "rest = val # rest'"
              and "parse_loop rest' (s\<lparr>ps_ssh_args := ps_ssh_args s @ [arg, val]\<rparr>) = Ok s'"
              by (auto split: list.splits)
            moreover have "state_ok (s\<lparr>ps_ssh_args := ps_ssh_args s @ [arg, val]\<rparr>)"
              using prems(2) plain app False opt by (simp add: state_ok_def)
            ultimately show ?thesis using IH(4) [OF _ _ None 3 False opt rest] not_dest by blast
          next
            case opt: None
            with turn 3 not_dest None False have joined: "is_joined_ssh_option arg"
              and "parse_loop rest (s\<lparr>ps_ssh_args := ps_ssh_args s @ [arg]\<rparr>) = Ok s'"
              by (simp_all split: if_splits)
            moreover have "state_ok (s\<lparr>ps_ssh_args := ps_ssh_args s @ [arg]\<rparr>)"
              using prems(2) plain app False opt joined by (simp add: state_ok_def)
            ultimately show ?thesis using IH(3) [OF _ _ None 3 False opt] not_dest joined by blast
          qed
        qed
      qed
    qed
  qed
qed simp

lemma parse_loop_dest:
  "parse_loop [''--'', dest] s = (if ps_destination s = None then Ok (s\<lparr>ps_destination := Some dest\<rparr>)
     else Err RemoteCommandNotSupported)"
  by (simp add: parse_loop.simps)

lemma parse_loop_action:
  "a \<noteq> Version \<Longrightarrow> ps_action s = Attach \<Longrightarrow> ps_destination s = None \<Longrightarrow>
     parse_loop (action_args a @ rest) s = parse_loop rest (s\<lparr>ps_action := a\<rparr>)"
  by (cases s; cases a)
    (simp_all add: action_args_def parse_loop.simps(2) action_flag_def set_action_def)

lemma parse_loop_session:
  "(\<forall>v. session = Some v \<longrightarrow> is_utf8 v) \<Longrightarrow> ps_session s = None \<Longrightarrow> ps_destination s = None \<Longrightarrow>
     parse_loop ((case session of None \<Rightarrow> [] | Some v \<Rightarrow> [''--session'', v]) @ rest) s =
     parse_loop rest (s\<lparr>ps_session := session\<rparr>)"
  by (cases s; cases session) (simp_all add: parse_loop.simps(2) action_flag_def os_to_string_def)

lemma parse_printed:
  assumes "ssh_options (ca_ssh_args a)" and "\<forall>v. ca_session a = Some v \<longrightarrow> is_utf8 v"
    and "ca_action a \<noteq> Version" and "ca_action a = Detach \<longrightarrow> ca_session a \<noteq> None"
  shows "parse_client_args (print_args a) = Ok a"
proof -
  have "parse_loop (print_args a) start_state =
      Ok \<lparr>ps_action = ca_action a, ps_session = ca_session a, ps_ssh_args = ca_ssh_args a,
          ps_destination = Some (ca_destination a)\<rparr>"
    using assms
    by (simp add: print_args_def start_state_def parse_loop_action parse_loop_session
        parse_ssh_options parse_loop_dest)
  then show ?thesis
    using assms(3,4) by (simp add: parse_client_args_def finish_args_def)
qed

lemma parsed_args:
  assumes "parse_client_args args = Ok a" and "ca_action a \<noteq> Version"
  shows "ssh_options (ca_ssh_args a) \<and> (\<forall>v. ca_session a = Some v \<longrightarrow> is_utf8 v) \<and>
     (ca_action a = Detach \<longrightarrow> ca_session a \<noteq> None)"
proof -
  obtain s where loop: "parse_loop args start_state = Ok s" and fin: "finish_args s = Ok a"
    using assms(1) by (auto simp: parse_client_args_def and_then_Ok_iff)
  have "state_ok start_state" by (simp add: state_ok_def start_state_def)
  with loop have "state_ok s" by (rule parse_loop_ok)
  with fin assms(2) show ?thesis
    by (auto simp: finish_args_def state_ok_def split: if_splits option.splits)
qed

section \<open>Properties\<close>

text \<open>
  C32. Parsing the client's command line is a normalisation: whatever accepted command line was
  given, writing the result in the canonical order (action, session, options for \<open>ssh\<close>, \<open>--\<close>,
  destination) and parsing that gives the same result again.
\<close>

theorem parse_print_parse:
  assumes "parse_client_args args = Ok a"
  shows "parse_client_args (print_args a) = Ok a"
proof (cases "ca_action a = Version")
  case True
  with assms have "a = \<lparr>ca_action = Version, ca_session = None, ca_ssh_args = [], ca_destination = []\<rparr>"
    by (auto simp: parse_client_args_def and_then_Ok_iff finish_args_def split: if_splits option.splits)
  then show ?thesis
    by (simp add: print_args_def parse_client_args_def start_state_def parse_loop.simps action_flag_def
        set_action_def finish_args_def)
next
  case False
  with parsed_args [OF assms False] show ?thesis by (intro parse_printed) auto
qed

definition demo_line :: "string list" where
  "demo_line = [''-p'', ''22'', ''--session'', ''abcdefghij'', ''-vv'', ''--detach'', ''host'']"

lemma demo_line_parsed:
  "parse_client_args demo_line =
     Ok \<lparr>ca_action = Detach, ca_session = Some ''abcdefghij'', ca_ssh_args = [''-p'', ''22'', ''-vv''],
         ca_destination = ''host''\<rparr>"
  by code_simp

theorem parse_print_parse_witness:
  "parse_client_args
     (print_args \<lparr>ca_action = Detach, ca_session = Some ''abcdefghij'',
                   ca_ssh_args = [''-p'', ''22'', ''-vv''], ca_destination = ''host''\<rparr>) =
   Ok \<lparr>ca_action = Detach, ca_session = Some ''abcdefghij'',
       ca_ssh_args = [''-p'', ''22'', ''-vv''], ca_destination = ''host''\<rparr>"
  using parse_print_parse [OF demo_line_parsed] .

text \<open>
  What \<open>ssh\<close> is run with: for every accepted command line with a destination, the argument vector
  is a list of complete options, among them \<open>-T\<close>, then the destination and the remote command as
  the last two arguments. A destination that starts with a dash, which \<open>--\<close> lets through, is not
  protected: it comes out as one more option, and \<open>ssh\<close> takes the remote command for the host.
\<close>

theorem ssh_command_args_shape:
  assumes "parse_client_args args = Ok a" and "ca_action a \<noteq> Version"
  shows "(\<exists>opts. ssh_command_args a remote_command = opts @ [ca_destination a, remote_command] \<and>
            ssh_options opts \<and> ''-T'' \<in> set opts) \<and>
     (\<exists>b. parse_client_args [''--'', ''-oProxyCommand=x''] = Ok b \<and>
        ssh_command_args b remote_command = [''-T'', ''-oProxyCommand=x'', remote_command] \<and>
        ssh_options (butlast (ssh_command_args b remote_command)))"
proof
  have "ssh_options [''-T'']" by code_simp
  with parsed_args [OF assms] have
    "ssh_options ((if ''-T'' \<in> set (ca_ssh_args a) then [] else [''-T'']) @ ca_ssh_args a)"
    by (simp add: ssh_options_append)
  then show "\<exists>opts. ssh_command_args a remote_command = opts @ [ca_destination a, remote_command] \<and>
            ssh_options opts \<and> ''-T'' \<in> set opts"
    by (intro exI [of _ "(if ''-T'' \<in> set (ca_ssh_args a) then [] else [''-T'']) @ ca_ssh_args a"])
      (simp add: ssh_command_args_def)
  have "parse_client_args [''--'', ''-oProxyCommand=x''] =
      Ok \<lparr>ca_action = Attach, ca_session = None, ca_ssh_args = [], ca_destination = ''-oProxyCommand=x''\<rparr>"
    and "ssh_options [''-T'', ''-oProxyCommand=x'']"
    by code_simp+
  then show "\<exists>b. parse_client_args [''--'', ''-oProxyCommand=x''] = Ok b \<and>
        ssh_command_args b remote_command = [''-T'', ''-oProxyCommand=x'', remote_command] \<and>
        ssh_options (butlast (ssh_command_args b remote_command))"
    by (simp add: ssh_command_args_def del: ssh_options.simps)
qed

theorem ssh_command_args_shape_witness:
  "\<exists>opts. ssh_command_args \<lparr>ca_action = Detach, ca_session = Some ''abcdefghij'',
        ca_ssh_args = [''-p'', ''22'', ''-vv''], ca_destination = ''host''\<rparr> ''cmd'' = opts @ [''host'', ''cmd''] \<and>
     ssh_options opts \<and> ''-T'' \<in> set opts"
  using ssh_command_args_shape [OF demo_line_parsed, of "''cmd''"] by simp

end
