(* ===== verification/Bootstrap.thy ===== *)
theory Bootstrap
  imports Protocol
begin

text \<open>
  The remote command of the client, \<open>src/src/bootstrap.rs\<close>: quoting for the remote shell and the
  command that carries the bootstrap script, whose text is a parameter. The specification is the
  way a POSIX shell splits a command into words; the lemmas show that quoting is its inverse.
\<close>

definition READY_MARKER :: string where
  [obi_consts]: "READY_MARKER = ''OBI-SERVER-READY''"

definition INSTALL_REQUIRED_MARKER :: string where
  [obi_consts]: "INSTALL_REQUIRED_MARKER = ''OBI-INSTALL-REQUIRED''"

definition INSTALL_OK_MARKER :: string where
  [obi_consts]: "INSTALL_OK_MARKER = ''OBI-INSTALL-OK''"

definition DEFAULT_TERM :: string where
  [obi_consts]: "DEFAULT_TERM = ''xterm-256color''"

definition is_ascii_alphanumeric :: "char \<Rightarrow> bool" where
  "is_ascii_alphanumeric c \<longleftrightarrow>
     (let n = of_char c :: nat in 48 \<le> n \<and> n \<le> 57 \<or> 65 \<le> n \<and> n \<le> 90 \<or> 97 \<le> n \<and> n \<le> 122)"

definition plain_byte :: "char \<Rightarrow> bool" where
  "plain_byte c \<longleftrightarrow>
     is_ascii_alphanumeric c \<or> c = CHR ''.'' \<or> c = CHR ''/'' \<or> c = CHR ''_'' \<or> c = CHR ''-''"

text \<open>The replacement of a quote: close the quotes, an escaped quote, open them again.\<close>

definition escape_quote :: "char \<Rightarrow> string" where
  "escape_quote c = (if c = CHR 0x27 then [CHR 0x27, CHR 0x5C, CHR 0x27, CHR 0x27] else [c])"

definition shell_quote :: "string \<Rightarrow> string" where
  "shell_quote val =
     (if list_all plain_byte val then val
      else [CHR 0x27] @ concat (map escape_quote val) @ [CHR 0x27])"

definition remote_shell_command ::
  "string \<Rightarrow> string \<Rightarrow> string list \<Rightarrow> string \<Rightarrow> string" where
  "remote_shell_command SCRIPT CRATE_VERSION server_args term_name =
     ''sh -c '' @ shell_quote SCRIPT @ '' sh '' @ shell_quote CURRENT_PROTOCOL_BASELINE
     @ '' --client-version '' @ shell_quote CRATE_VERSION @ '' --term '' @ shell_quote term_name
     @ concat (map (\<lambda>arg. '' '' @ shell_quote arg) server_args)"

definition is_useful_term :: "string \<Rightarrow> bool" where
  "is_useful_term t \<longleftrightarrow> t \<noteq> [] \<and> t \<noteq> ''dumb''"

definition terminal_type_from_env :: "string option \<Rightarrow> string" where
  "terminal_type_from_env env_term =
     (case env_term of
        Some t \<Rightarrow> if is_useful_term t then t else DEFAULT_TERM
      | None \<Rightarrow> DEFAULT_TERM)"

section \<open>Words of a shell command\<close>

text \<open>
  How a POSIX shell reads a simple command that uses only plain bytes, blanks, single quotes and
  backslashes: \<open>None\<close> when the quotes do not close or when another character, which the shell may
  give a meaning, stands outside quotes. The second argument is the word begun, if any.
\<close>

fun sh_words :: "bool \<Rightarrow> string option \<Rightarrow> string \<Rightarrow> string list option" where
  "sh_words quoted word [] =
     (if quoted then None else Some (case word of None \<Rightarrow> [] | Some w \<Rightarrow> [w]))"
| "sh_words quoted word (c # cs) =
     (let w = (case word of None \<Rightarrow> [] | Some w \<Rightarrow> w) in
      if quoted then
        (if c = CHR 0x27 then sh_words False (Some w) cs else sh_words True (Some (w @ [c])) cs)
      else if c = CHR 0x27 then sh_words True (Some w) cs
      else if c = CHR '' '' then
        (case word of
           None \<Rightarrow> sh_words False None cs
         | Some w \<Rightarrow> map_option ((#) w) (sh_words False None cs))
      else if c = CHR 0x5C then
        (case cs of [] \<Rightarrow> None | d # ds \<Rightarrow> sh_words False (Some (w @ [d])) ds)
      else if plain_byte c then sh_words False (Some (w @ [c])) cs
      else None)"

section \<open>Lemmas\<close>

lemma plain_byte_not_special:
  "plain_byte c \<Longrightarrow> c \<noteq> CHR 0x27 \<and> c \<noteq> CHR '' '' \<and> c \<noteq> CHR 0x5C"
  by (auto simp: plain_byte_def is_ascii_alphanumeric_def)

lemma sh_words_plain:
  "list_all plain_byte val \<Longrightarrow>
     sh_words False (Some w) (val @ rest) = sh_words False (Some (w @ val)) rest"
proof (induction val arbitrary: w)
  case (Cons c cs)
  then show ?case using plain_byte_not_special [of c] by simp
qed simp

lemma sh_words_escape_quote:
  "sh_words True (Some w) (escape_quote c @ rest) = sh_words True (Some (w @ [c])) rest"
  by (simp add: escape_quote_def)

lemma sh_words_quoted:
  "sh_words True (Some w) (concat (map escape_quote val) @ CHR 0x27 # rest) =
     sh_words False (Some (w @ val)) rest"
proof (induction val arbitrary: w)
  case (Cons c cs)
  then show ?case by (simp add: sh_words_escape_quote del: sh_words.simps(2))
qed simp

lemma sh_words_shell_quote:
  assumes "val \<noteq> []"
  shows "sh_words False None (shell_quote val @ rest) = sh_words False (Some val) rest"
proof (cases "list_all plain_byte val")
  case True
  then obtain c cs where v: "val = c # cs" "plain_byte c" "list_all plain_byte cs"
    using assms by (cases val) auto
  have "sh_words False None (val @ rest) = sh_words False (Some [c]) (cs @ rest)"
    using plain_byte_not_special [OF v(2)] v by simp
  with True v sh_words_plain [OF v(3), of "[c]" rest] show ?thesis
    by (simp add: shell_quote_def)
next
  case False
  then show ?thesis
    using sh_words_quoted [of "[]" val rest] by (simp add: shell_quote_def)
qed

lemma sh_words_space: "sh_words False (Some w) (CHR '' '' # rest) = map_option ((#) w) (sh_words False None rest)"
  by simp

lemma sh_words_args:
  assumes "\<forall>a\<in>set args. a \<noteq> []"
  shows "sh_words False (Some w) (concat (map (\<lambda>a. '' '' @ shell_quote a) args)) = Some (w # args)"
  using assms
proof (induction args arbitrary: w)
  case (Cons a args)
  then have "sh_words False None (shell_quote a @ concat (map (\<lambda>a. '' '' @ shell_quote a) args)) =
      Some (a # args)"
    by (simp add: sh_words_shell_quote)
  then show ?case by (simp add: sh_words_space del: sh_words.simps(2))
qed simp

lemma shell_quote_plain: "list_all plain_byte val \<Longrightarrow> shell_quote val = val"
  by (simp add: shell_quote_def)

text \<open>The command is the quoted words joined by blanks.\<close>

lemma remote_shell_command_words:
  "''sh'' @ concat (map (\<lambda>a. '' '' @ shell_quote a)
      ([''-c'', SCRIPT, ''sh'', CURRENT_PROTOCOL_BASELINE, ''--client-version'', CRATE_VERSION, ''--term'', term_name]
       @ server_args)) =
   remote_shell_command SCRIPT CRATE_VERSION server_args term_name"
proof -
  have "shell_quote ''-c'' = ''-c''" "shell_quote ''sh'' = ''sh''"
    "shell_quote ''--client-version'' = ''--client-version''" "shell_quote ''--term'' = ''--term''"
    by code_simp+
  then show ?thesis by (simp add: remote_shell_command_def)
qed

section \<open>Properties\<close>



end
