(* ===== verification/SearchText.thy ===== *)
theory SearchText
  imports Obi_Prelude "HOL-Library.Sublist"
begin

text \<open>
  The text functions of the documentation's search, \<open>src/docs/searcher-c2a407aa.js\<close>: the query
  parameters of a URL, HTML escaping, the metric line, the teaser of a search result and its link.
  A JavaScript string is modelled by its code units, restricted to those below 256 (Latin-1), so
  that \<open>length\<close>, \<open>substring\<close> and \<open>toLowerCase\<close> are those of the language on such strings; the
  stemmer of the elasticlunr library is a parameter. The lemmas show that the sliding window sums
  are the sums of the windows, that the offsets kept for the words are where the words are, and
  that escaping and the URL functions round trip.
\<close>

section \<open>Strings of JavaScript\<close>

definition js_lower_char :: "char \<Rightarrow> char" where
  "js_lower_char c =
     (let n = of_char c :: nat in
      if 65 \<le> n \<and> n \<le> 90 \<or> 192 \<le> n \<and> n \<le> 222 \<and> n \<noteq> 215 then char_of (n + 32) else c)"

definition toLowerCase :: "string \<Rightarrow> string" where
  "toLowerCase s = map js_lower_char s"

definition js_is_space :: "char \<Rightarrow> bool" where
  "js_is_space c \<longleftrightarrow> (let n = of_char c :: nat in 9 \<le> n \<and> n \<le> 13 \<or> n = 32 \<or> n = 160)"

definition js_trim :: "string \<Rightarrow> string" where
  "js_trim s = rev (dropWhile js_is_space (rev (dropWhile js_is_space s)))"

definition substring :: "'a list \<Rightarrow> nat \<Rightarrow> nat \<Rightarrow> 'a list" where
  "substring s a b = take (b - a) (drop a s)"

text \<open>\<open>split\<close> at a non-empty separator: leftmost occurrences that do not overlap.\<close>

function split_str :: "'a list \<Rightarrow> 'a list \<Rightarrow> 'a list list" where
  "split_str sep s =
     (if sep \<noteq> [] \<and> prefix sep s then [] # split_str sep (drop (length sep) s)
      else (case s of
              [] \<Rightarrow> [[]]
            | x # xs \<Rightarrow>
                (case split_str sep xs of [] \<Rightarrow> [[x]] | y # ys \<Rightarrow> (x # y) # ys)))"
  by pat_completeness auto
termination
  by (relation "measure (length \<circ> snd)") (auto simp: prefix_def)

declare split_str.simps [simp del]

section \<open>URLs\<close>

text \<open>
  An object with string keys, as \<open>parseURL\<close> builds it: own properties in the order of creation.
  Assigning a string to \<open>__proto__\<close> does nothing. The value \<open>None\<close> is \<open>undefined\<close>.
\<close>

type_synonym js_object = "(string \<times> string option) list"

fun obj_set :: "string \<Rightarrow> string option \<Rightarrow> js_object \<Rightarrow> js_object" where
  "obj_set k v [] = (if k = ''__proto__'' then [] else [(k, v)])"
| "obj_set k v ((k', v') # ps) = (if k = k' then (k, v) # ps else (k', v') # obj_set k v ps)"

definition obj_delete :: "string \<Rightarrow> js_object \<Rightarrow> js_object" where
  "obj_delete k ps = filter (\<lambda>(k', _). k' \<noteq> k) ps"

definition hasOwnProperty :: "js_object \<Rightarrow> string \<Rightarrow> bool" where
  "hasOwnProperty ps k \<longleftrightarrow> map_of ps k \<noteq> None"

definition js_show :: "string option \<Rightarrow> string" where
  "js_show v = (case v of Some s \<Rightarrow> s | None \<Rightarrow> ''undefined'')"

text \<open>Enumeration by \<open>for ... in\<close>: array indices in numeric order, then the other keys.\<close>

definition array_index :: "string \<Rightarrow> nat option" where
  "array_index k =
     (case parse_digits 0 k of
        Some n \<Rightarrow> if k = show_nat n \<and> n < 2 ^ 32 - 1 then Some n else None
      | None \<Rightarrow> None)"

definition for_in :: "js_object \<Rightarrow> js_object" where
  "for_in ps =
     sort_key (\<lambda>(k, _). the (array_index k)) (filter (\<lambda>(k, _). array_index k \<noteq> None) ps)
     @ filter (\<lambda>(k, _). array_index k = None) ps"

text \<open>The properties of an anchor element after \<open>a.href = url\<close>, which the browser's URL parser sets.\<close>

record anchor =
  a_protocol :: string
  a_hostname :: string
  a_port :: string
  a_pathname :: string
  a_search :: string
  a_hash :: string

record url_object =
  u_protocol :: string
  u_host :: string
  u_port :: string
  u_params :: js_object
  u_hash :: string
  u_path :: string

fun replace_first :: "char \<Rightarrow> string \<Rightarrow> string" where
  "replace_first c [] = []"
| "replace_first c (x # xs) = (if x = c then xs else x # replace_first c xs)"

definition parse_params :: "string \<Rightarrow> js_object" where
  "parse_params search =
     (let query = (case search of x # xs \<Rightarrow> if x = CHR ''?'' then xs else search | [] \<Rightarrow> []) in
      fold (\<lambda>part ret.
          if part = [] then ret
          else (case split_on (CHR ''='') part of
                  k # v # _ \<Rightarrow> obj_set k (Some v) ret
                | [k] \<Rightarrow> obj_set k None ret
                | [] \<Rightarrow> ret))
        (split_on (CHR ''&'') query) [])"

definition parseURL :: "(string \<Rightarrow> anchor) \<Rightarrow> string \<Rightarrow> url_object" where
  "parseURL anchor_of url =
     (let a = anchor_of url in
      \<lparr>u_protocol = replace_first (CHR '':'') (a_protocol a),
       u_host = a_hostname a,
       u_port = a_port a,
       u_params = parse_params (a_search a),
       u_hash = replace_first (CHR ''#'') (a_hash a),
       u_path = (case a_pathname a of
                   [] \<Rightarrow> [] | x # xs \<Rightarrow> if x = CHR ''/'' then x # xs else CHR ''/'' # x # xs)\<rparr>)"

fun render_params :: "char \<Rightarrow> js_object \<Rightarrow> string" where
  "render_params joiner [] = []"
| "render_params joiner ((k, v) # ps) =
     joiner # k @ ''='' @ js_show v @ render_params (CHR ''&'') ps"

definition renderURL :: "url_object \<Rightarrow> string" where
  "renderURL u =
     u_protocol u @ ''://'' @ u_host u
     @ (if u_port u \<noteq> [] then '':'' @ u_port u else [])
     @ u_path u
     @ render_params (CHR ''?'') (for_in (u_params u))
     @ (if u_hash u \<noteq> [] then ''#'' @ u_hash u else [])"

section \<open>Percent encoding\<close>

text \<open>\<open>encodeURIComponent\<close>: the UTF-8 bytes of every character that is not unreserved.\<close>

definition uri_unreserved :: "char \<Rightarrow> bool" where
  "uri_unreserved c \<longleftrightarrow>
     (let n = of_char c :: nat in
      48 \<le> n \<and> n \<le> 57 \<or> 65 \<le> n \<and> n \<le> 90 \<or> 97 \<le> n \<and> n \<le> 122
      \<or> n \<in> {45, 95, 46, 33, 126, 42, 39, 40, 41})"

definition hex_digit :: "nat \<Rightarrow> char" where
  "hex_digit d = (if d < 10 then char_of (48 + d) else char_of (55 + d))"

definition percent_byte :: "nat \<Rightarrow> string" where
  "percent_byte b = [CHR ''%'', hex_digit (b div 16), hex_digit (b mod 16)]"

definition encode_uri_char :: "char \<Rightarrow> string" where
  "encode_uri_char c =
     (let n = of_char c :: nat in
      if uri_unreserved c then [c]
      else if n < 128 then percent_byte n
      else percent_byte (192 + n div 64) @ percent_byte (128 + n mod 64))"

definition encodeURIComponent :: "string \<Rightarrow> string" where
  "encodeURIComponent s = concat (map encode_uri_char s)"

text \<open>
  \<open>decodeURIComponent\<close>; \<open>None\<close> is a \<open>URIError\<close>, or a result with a character that is not Latin-1
  and so outside the model.
\<close>

definition hex_value :: "char \<Rightarrow> nat option" where
  "hex_value c =
     (let n = of_char c :: nat in
      if 48 \<le> n \<and> n \<le> 57 then Some (n - 48)
      else if 65 \<le> n \<and> n \<le> 70 then Some (n - 55)
      else if 97 \<le> n \<and> n \<le> 102 then Some (n - 87)
      else None)"

fun percent_value :: "string \<Rightarrow> (nat \<times> string) option" where
  "percent_value (p # h # l # rest) =
     (if p \<noteq> CHR ''%'' then None
      else (case (hex_value h, hex_value l) of
              (Some a, Some b) \<Rightarrow> Some (16 * a + b, rest)
            | _ \<Rightarrow> None))"
| "percent_value _ = None"

lemma percent_value_length: "percent_value s = Some (b, rest) \<Longrightarrow> length rest < length s"
  by (cases s rule: percent_value.cases) (auto split: if_splits option.splits)

function decodeURIComponent :: "string \<Rightarrow> string option" where
  "decodeURIComponent s =
     (case s of
        [] \<Rightarrow> Some []
      | c # cs \<Rightarrow>
          if c \<noteq> CHR ''%'' then map_option ((#) c) (decodeURIComponent cs)
          else
            (case percent_value s of
               None \<Rightarrow> None
             | Some (b, rest) \<Rightarrow>
                 if b < 128 then map_option ((#) (char_of b)) (decodeURIComponent rest)
                 else if 194 \<le> b \<and> b \<le> 195 then
                   (case percent_value rest of
                      None \<Rightarrow> None
                    | Some (b2, rest2) \<Rightarrow>
                        if 128 \<le> b2 \<and> b2 < 192
                        then map_option ((#) (char_of ((b - 192) * 64 + (b2 - 128))))
                               (decodeURIComponent rest2)
                        else None)
                 else None))"
  by pat_completeness auto
termination
  by (relation "measure length") (auto dest!: percent_value_length)

declare decodeURIComponent.simps [simp del]

definition replace_all :: "char \<Rightarrow> string \<Rightarrow> string \<Rightarrow> string" where
  "replace_all c r s = concat (map (\<lambda>x. if x = c then r else [x]) s)"

section \<open>Escaping and the metric line\<close>

definition escape_char :: "char \<Rightarrow> string" where
  "escape_char c =
     (if c = CHR ''&'' then ''&amp;''
      else if c = CHR ''<'' then ''&lt;''
      else if c = CHR ''>'' then ''&gt;''
      else if c = CHR 0x22 then ''&#34;''
      else if c = CHR 0x27 then ''&#39;''
      else [c])"

definition escapeHTML :: "string \<Rightarrow> string" where
  "escapeHTML s = concat (map escape_char s)"

definition formatSearchMetric :: "nat \<Rightarrow> string \<Rightarrow> string" where
  "formatSearchMetric count searchterm =
     (if count = 1 then
        show_nat count @ '' search result for '' @ [CHR 0x27] @ searchterm @ [CHR 0x27] @ '':''
      else if count = 0 then
        ''No search results for '' @ [CHR 0x27] @ searchterm @ [CHR 0x27] @ ''.''
      else
        show_nat count @ '' search results for '' @ [CHR 0x27] @ searchterm @ [CHR 0x27] @ '':'')"

section \<open>The teaser\<close>

text \<open>The triples \<open>[word, weight, index_in_document]\<close> of the array \<open>weighted\<close>.\<close>

record weighted_word =
  ww_word :: string
  ww_value :: nat
  ww_index :: nat

definition searchterm_weight :: nat where
  "searchterm_weight = 40"

text \<open>The loop over the words of one sentence: the triples, \<open>index\<close> and \<open>searchterm_found\<close>.\<close>

fun weigh_words ::
  "(string \<Rightarrow> string) \<Rightarrow> string list \<Rightarrow> nat \<Rightarrow> nat \<Rightarrow> string list \<Rightarrow> weighted_word list \<times> nat \<times> bool" where
  "weigh_words stemmer stemmed val index [] = ([], index, False)"
| "weigh_words stemmer stemmed val index (word # words) =
     (if word \<noteq> [] then
        (let hit = list_ex (\<lambda>t. prefix t (stemmer word)) stemmed;
             v = (if hit then searchterm_weight else val);
             (rest, index', found) =
               weigh_words stemmer stemmed 2 (index + length word + 1) words
         in (\<lparr>ww_word = word, ww_value = v, ww_index = index\<rparr> # rest, index', hit \<or> found))
      else weigh_words stemmer stemmed val (index + length word + 1) words)"

fun weigh_sentences ::
  "(string \<Rightarrow> string) \<Rightarrow> string list \<Rightarrow> nat \<Rightarrow> string list \<Rightarrow> weighted_word list \<times> bool" where
  "weigh_sentences stemmer stemmed index [] = ([], False)"
| "weigh_sentences stemmer stemmed index (sentence # sentences) =
     (let (ws, index', found) = weigh_words stemmer stemmed 8 index (split_on (CHR '' '') sentence);
          (rest, found') = weigh_sentences stemmer stemmed (index' + 1) sentences
      in (ws @ rest, found \<or> found'))"

definition weigh_body ::
  "(string \<Rightarrow> string) \<Rightarrow> string list \<Rightarrow> string \<Rightarrow> weighted_word list \<times> bool" where
  "weigh_body stemmer searchterms body =
     weigh_sentences stemmer (map (\<lambda>w. stemmer (toLowerCase w)) searchterms) 0
       (split_str ''. '' (toLowerCase body))"

text \<open>The running sums of the sliding window; \<open>cur_sum\<close> is an integer as in the code.\<close>

fun slide :: "int list \<Rightarrow> nat \<Rightarrow> int \<Rightarrow> nat \<Rightarrow> nat \<Rightarrow> int list" where
  "slide values window_size cur_sum wordindex 0 = []"
| "slide values window_size cur_sum wordindex (Suc n) =
     (let sum' = cur_sum - values ! wordindex + values ! (wordindex + window_size)
      in sum' # slide values window_size sum' (wordindex + 1) n)"

definition window_weights :: "int list \<Rightarrow> nat \<Rightarrow> int list" where
  "window_weights values window_size =
     (let cur_sum = foldl (+) 0 (take window_size values)
      in cur_sum # slide values window_size cur_sum 0 (length values - window_size))"

text \<open>The backward scan for the maximum: \<open>n\<close> indices are still to be visited.\<close>

fun scan_max :: "int list \<Rightarrow> nat \<Rightarrow> int \<Rightarrow> nat \<Rightarrow> nat" where
  "scan_max weights 0 max_sum best = best"
| "scan_max weights (Suc i) max_sum best =
     (if weights ! i > max_sum then scan_max weights i (weights ! i) i
      else scan_max weights i max_sum best)"

fun teaser_loop :: "string \<Rightarrow> nat \<Rightarrow> weighted_word list \<Rightarrow> string list" where
  "teaser_loop body index [] = []"
| "teaser_loop body index (word # words) =
     (let gap = (if index < ww_index word then [substring body index (ww_index word)] else []);
          end_index = ww_index word + length (ww_word word);
          em = (ww_value word = searchterm_weight)
      in gap @ (if em then [''<em>''] else []) @ [substring body (ww_index word) end_index]
         @ (if em then [''</em>''] else []) @ teaser_loop body end_index words)"

definition max_sum_window_index :: "weighted_word list \<Rightarrow> nat \<Rightarrow> bool \<Rightarrow> nat" where
  "max_sum_window_index weighted window_size searchterm_found =
     (let weights = window_weights (map (int \<circ> ww_value) weighted) window_size
      in if searchterm_found then scan_max weights (length weights) 0 0 else 0)"

definition teaser_split ::
  "(string \<Rightarrow> string) \<Rightarrow> nat \<Rightarrow> string \<Rightarrow> string list \<Rightarrow> string list" where
  "teaser_split stemmer teaser_word_count body searchterms =
     (let (weighted, found) = weigh_body stemmer searchterms body in
      if weighted = [] then [body]
      else
        (let window_size = min (length weighted) teaser_word_count;
             i = max_sum_window_index weighted window_size found
         in teaser_loop body (ww_index (weighted ! i)) (take window_size (drop i weighted))))"

definition makeTeaser ::
  "(string \<Rightarrow> string) \<Rightarrow> nat \<Rightarrow> string \<Rightarrow> string list \<Rightarrow> string" where
  "makeTeaser stemmer teaser_word_count body searchterms =
     concat (teaser_split stemmer teaser_word_count body searchterms)"

section \<open>The link of a result\<close>

record search_result =
  res_ref :: nat
  res_body :: string
  res_breadcrumbs :: string

definition encoded_search :: "string list \<Rightarrow> string" where
  "encoded_search searchterms =
     replace_all (CHR 0x27) ''%27'' (encodeURIComponent (join_with '' '' searchterms))"

record search_config =
  cfg_stemmer :: "string \<Rightarrow> string"
  cfg_doc_urls :: "string list"
  cfg_path_to_root :: string
  cfg_teaser_word_count :: nat
  cfg_limit_results :: nat

text \<open>
  \<open>None\<close> is the \<open>TypeError\<close> of a reference outside \<open>doc_urls\<close>; the counter is \<open>teaser_count\<close>.
\<close>

definition formatSearchResult ::
  "search_config \<Rightarrow> nat \<Rightarrow> search_result \<Rightarrow> string list \<Rightarrow> string option \<times> nat" where
  "formatSearchResult cfg teaser_count result searchterms =
     (let teaser = makeTeaser (cfg_stemmer cfg) (cfg_teaser_word_count cfg)
                     (escapeHTML (res_body result)) searchterms;
          count = teaser_count + 1
      in if \<not> res_ref result < length (cfg_doc_urls cfg) then (None, count)
         else
           (let url = split_on (CHR ''#'') (cfg_doc_urls cfg ! res_ref result);
                url = (if length url = 1 then url @ [[]] else url)
            in (Some (''<a href='' @ [CHR 0x22] @ cfg_path_to_root cfg @ url ! 0 @ ''?'' @ ''highlight''
                  @ ''='' @ encoded_search searchterms @ ''#'' @ url ! 1 @ [CHR 0x22]
                  @ '' aria-details='' @ [CHR 0x22] @ ''mdbook-teaser_'' @ show_nat count @ [CHR 0x22] @ ''>''
                  @ res_breadcrumbs result @ ''</a>''
                  @ ''<span class='' @ [CHR 0x22] @ ''teaser'' @ [CHR 0x22] @ '' id='' @ [CHR 0x22]
                  @ ''mdbook-teaser_'' @ show_nat count @ [CHR 0x22] @ '' aria-label='' @ [CHR 0x22]
                  @ ''Search Result Teaser'' @ [CHR 0x22] @ ''>'' @ teaser @ ''</span>''), count)))"

section \<open>Lemmas: the sliding window\<close>

definition window_sum :: "int list \<Rightarrow> nat \<Rightarrow> nat \<Rightarrow> int" where
  "window_sum values n i = sum_list (take n (drop i values))"

lemma window_sum_step:
  assumes "i + n < length values"
  shows "window_sum values n (Suc i) = window_sum values n i - values ! i + values ! (i + n)"
proof (cases n)
  case 0
  then show ?thesis by (simp add: window_sum_def)
next
  case (Suc m)
  have "drop i values = values ! i # drop (Suc i) values"
    using assms by (simp add: Cons_nth_drop_Suc)
  moreover have "take (Suc m) (drop (Suc i) values) =
      take m (drop (Suc i) values) @ [values ! (i + n)]"
    using assms Suc by (simp add: take_Suc_conv_app_nth)
  ultimately show ?thesis by (simp add: window_sum_def Suc)
qed

lemma slide_sums:
  assumes "i + n + m = length values"
  shows "slide values n (window_sum values n i) i m =
     map (window_sum values n) [Suc i..<Suc i + m]"
  using assms
proof (induction m arbitrary: i)
  case (Suc m)
  then have "window_sum values n i - values ! i + values ! (i + n) = window_sum values n (Suc i)"
    by (simp add: window_sum_step)
  then have "slide values n (window_sum values n i) i (Suc m) =
      window_sum values n (Suc i) # slide values n (window_sum values n (Suc i)) (Suc i) m"
    by (simp add: Let_def)
  also have "slide values n (window_sum values n (Suc i)) (Suc i) m =
      map (window_sum values n) [Suc (Suc i)..<Suc (Suc i) + m]"
    by (rule Suc.IH) (use Suc.prems in simp)
  also have "window_sum values n (Suc i) # \<dots> = map (window_sum values n) [Suc i..<Suc i + Suc m]"
    by (simp add: upt_conv_Cons del: upt_Suc)
  finally show ?case .
qed simp

lemma foldl_plus: "foldl (+) (a :: int) xs = a + sum_list xs"
  by (induction xs arbitrary: a) auto

lemma window_weights_sums:
  assumes "n \<le> length values"
  shows "window_weights values n = map (window_sum values n) [0..<length values - n + 1]"
proof -
  have "foldl (+) 0 (take n values) = window_sum values n 0"
    by (simp add: window_sum_def foldl_plus)
  moreover have "slide values n (window_sum values n 0) 0 (length values - n) =
      map (window_sum values n) [Suc 0..<Suc 0 + (length values - n)]"
    by (rule slide_sums) (use assms in simp)
  ultimately show ?thesis
    by (simp add: window_weights_def Let_def upt_conv_Cons del: upt_Suc)
qed

text \<open>The backward scan with a strict comparison finds the last maximum.\<close>

lemma scan_max_found:
  assumes "j < n" and "weights ! j > m"
  shows "let r = scan_max weights n m b in
     r < n \<and> (\<forall>j<n. weights ! j \<le> weights ! r) \<and> (\<forall>j. r < j \<and> j < n \<longrightarrow> weights ! j < weights ! r)
     \<and> m < weights ! r"
  using assms
proof (induction n arbitrary: m b j)
  case (Suc n)
  show ?case
  proof (cases "weights ! n > m")
    case True
    show ?thesis
    proof (cases "\<exists>j<n. weights ! j > weights ! n")
      case True
      then obtain j' where "j' < n" "weights ! j' > weights ! n" by blast
      from Suc.IH [OF this, of n] \<open>weights ! n > m\<close> show ?thesis
        by (auto simp: Let_def less_Suc_eq)
    next
      case False
      have "scan_max weights k (weights ! n) n = n" if "k \<le> n" for k
        using that False by (induction k) auto
      then have "scan_max weights (Suc n) m b = n" using \<open>weights ! n > m\<close> by simp
      with False \<open>weights ! n > m\<close> show ?thesis
        by (auto simp: Let_def less_Suc_eq)
    qed
  next
    case False
    with Suc.prems have "j < n" "weights ! j > m" by (auto simp: less_Suc_eq)
    from Suc.IH [OF this, of b] False show ?thesis
      by (auto simp: Let_def less_Suc_eq)
  qed
qed simp

section \<open>Lemmas: offsets of the words\<close>

lemma split_str_nonempty [simp]: "split_str sep s \<noteq> []"
  by (subst split_str.simps) (auto split: list.splits)

lemma join_split_str: "join_with sep (split_str sep s) = s"
proof (induction sep s rule: split_str.induct)
  case (1 sep s)
  show ?case
  proof (cases "sep \<noteq> [] \<and> prefix sep s")
    case True
    obtain y ys where y: "split_str sep (drop (length sep) s) = y # ys"
      by (cases "split_str sep (drop (length sep) s)") auto
    with 1(1) [OF True] True show ?thesis
      by (subst split_str.simps) (auto simp: prefix_def)
  next
    case False
    show ?thesis
    proof (cases s)
      case Nil
      with False show ?thesis by (subst split_str.simps) auto
    next
      case (Cons x xs)
      obtain y ys where "split_str sep xs = y # ys" by (cases "split_str sep xs") auto
      with 1(2) [OF False Cons] Cons False show ?thesis
        by (subst split_str.simps) (cases ys; auto)
    qed
  qed
qed

lemma drop_eq_append:
  assumes "drop i xs = us @ vs" and "i \<le> length xs"
  shows "drop (i + length us) xs = vs" and "i + length us + length vs = length xs"
proof -
  have "drop (length us) (drop i xs) = vs" using assms(1) by simp
  then show "drop (i + length us) xs = vs" by (simp add: add.commute)
  show "i + length us + length vs = length xs"
    using assms(2) arg_cong [OF assms(1), of length] by (simp only: length_drop length_append)
qed

text \<open>Words that lie in a text one after the other, from offset \<open>lo\<close> on.\<close>

fun laid_out :: "string \<Rightarrow> nat \<Rightarrow> weighted_word list \<Rightarrow> bool" where
  "laid_out text lo [] \<longleftrightarrow> lo \<le> length text"
| "laid_out text lo (w # ws) \<longleftrightarrow>
     lo \<le> ww_index w \<and> ww_word w \<noteq> [] \<and>
     substring text (ww_index w) (ww_index w + length (ww_word w)) = ww_word w \<and>
     laid_out text (ww_index w + length (ww_word w)) ws"

lemma laid_out_mono: "laid_out text lo ws \<Longrightarrow> lo' \<le> lo \<Longrightarrow> laid_out text lo' ws"
  by (cases ws) auto

lemma laid_out_append:
  assumes "laid_out (take hi text) lo ws" and "laid_out text hi vs" and "hi \<le> length text"
  shows "laid_out text lo (ws @ vs)"
  using assms
proof (induction ws arbitrary: lo)
  case Nil
  then show ?case by (auto intro: laid_out_mono)
next
  case (Cons w ws)
  have "substring text (ww_index w) (ww_index w + length (ww_word w)) = ww_word w"
  proof -
    have "take (length (ww_word w)) (drop (ww_index w) (take hi text)) = ww_word w"
      using Cons.prems(1) by (simp add: substring_def)
    then show ?thesis
      by (simp add: substring_def drop_take) (metis min.absorb1 min_def take_take length_take
          nat_le_linear take_all_iff)
  qed
  with Cons show ?case by simp
qed

lemma laid_out_drop:
  assumes "laid_out text lo ws" and "i < length ws"
  shows "laid_out text (ww_index (ws ! i)) (drop i ws)"
  using assms
proof (induction ws arbitrary: lo i)
  case (Cons w ws)
  then show ?case by (cases i) auto
qed simp

lemma laid_out_take: "laid_out text lo ws \<Longrightarrow> laid_out text lo (take n ws)"
proof (induction ws arbitrary: lo n)
  case (Cons w ws)
  then have "ww_index w + length (ww_word w) \<le> length text"
    by (cases "ww_word w") (auto simp: substring_def dest!: arg_cong [of _ _ length])
  with Cons show ?case by (cases n) auto
qed simp

lemma weigh_words_layout:
  assumes "words \<noteq> []" and "drop index text = join_with '' '' words" and "index \<le> length text"
    and "weigh_words stemmer stemmed val index words = (ws, index', found)"
  shows "index' = length text + 1 \<and> laid_out text index ws"
  using assms
proof (induction words arbitrary: val index ws index' found)
  case (Cons word words)
  define next_index where "next_index = index + length word + 1"
  obtain ws2 i2 f2 v2 where rec: "weigh_words stemmer stemmed v2 next_index words = (ws2, i2, f2)"
    and i': "index' = i2" and v2: "v2 = (if word \<noteq> [] then 2 else val)"
    and ws: "if word = [] then ws = ws2 else (\<exists>v. ws = \<lparr>ww_word = word, ww_value = v, ww_index = index\<rparr> # ws2)"
    using Cons.prems(4)
    by (cases "word = []") (auto simp: next_index_def Let_def split: prod.splits)
  have at_index: "substring text index (index + length word) = word"
    using Cons.prems(2) by (cases words) (auto simp: substring_def)
  show ?case
  proof (cases words)
    case Nil
    then have "length text = index + length word"
      using Cons.prems(2,3) by (auto dest!: arg_cong [of _ _ length])
    with Nil rec ws i' at_index show ?thesis
      by (auto simp: next_index_def split: if_splits)
  next
    case (Cons w' words')
    then have d: "drop index text = word @ '' '' @ join_with '' '' words"
      using Cons.prems(2) by simp
    then have "drop index text = (word @ '' '') @ join_with '' '' words" by simp
    from drop_eq_append [OF this Cons.prems(3)]
    have "drop next_index text = join_with '' '' words" and "next_index \<le> length text"
      by (simp_all add: next_index_def)
    then have "i2 = length text + 1 \<and> laid_out text next_index ws2"
      using Cons.IH [OF _ _ _ rec] Cons by simp
    then have "i2 = length text + 1" and "laid_out text (index + length word) ws2"
      using laid_out_mono [of "text" next_index ws2] by (auto simp: next_index_def)
    with ws i' at_index show ?thesis
      by (auto split: if_splits)
  qed
qed simp

lemma weigh_sentences_layout:
  assumes "sentences \<noteq> []" and "drop index text = join_with ''. '' sentences"
    and "index \<le> length text"
    and "weigh_sentences stemmer stemmed index sentences = (ws, found)"
  shows "laid_out text index ws"
  using assms
proof (induction sentences arbitrary: index ws found)
  case (Cons sentence sentences)
  define hi where "hi = index + length sentence"
  obtain ws1 i1 f1 ws2 f2 where
    words: "weigh_words stemmer stemmed 8 index (split_on (CHR '' '') sentence) = (ws1, i1, f1)"
    and rec: "weigh_sentences stemmer stemmed (i1 + 1) sentences = (ws2, f2)"
    and ws: "ws = ws1 @ ws2"
    using Cons.prems(4) by (auto split: prod.splits)
  have pre: "take (length sentence) (drop index text) = sentence" and hi: "hi \<le> length text"
  proof -
    obtain tail where "drop index text = sentence @ tail"
      using Cons.prems(2) by (cases sentences) auto
    from this drop_eq_append(2) [OF this Cons.prems(3)]
    show "take (length sentence) (drop index text) = sentence" and "hi \<le> length text"
      by (simp_all add: hi_def)
  qed
  have "drop index (take hi text) = join_with '' '' (split_on (CHR '' '') sentence)"
    using pre by (simp add: hi_def drop_take join_split_on)
  then have first: "i1 = hi + 1 \<and> laid_out (take hi text) index ws1"
    using weigh_words_layout [OF _ _ _ words] hi by (simp add: hi_def)
  have "laid_out text hi ws2"
  proof (cases sentences)
    case Nil
    with rec hi show ?thesis by simp
  next
    case (Cons s' ss)
    then have d: "drop index text = sentence @ ''. '' @ join_with ''. '' sentences"
      using Cons.prems(2) by simp
    then have "drop index text = (sentence @ ''. '') @ join_with ''. '' sentences" by simp
    from drop_eq_append [OF this Cons.prems(3)]
    have "drop (hi + 2) text = join_with ''. '' sentences" and "hi + 2 \<le> length text"
      by (simp_all add: hi_def)
    then have "laid_out text (hi + 2) ws2"
      using Cons.IH [of "hi + 2"] rec first Cons by simp
    then show ?thesis by (rule laid_out_mono) simp
  qed
  with first hi ws show ?case by (blast intro: laid_out_append)
qed simp

lemma weigh_body_layout:
  "weigh_body stemmer terms body = (ws, found) \<Longrightarrow> laid_out (toLowerCase body) 0 ws"
  using weigh_sentences_layout [OF split_str_nonempty, of 0 "toLowerCase body" "''. ''"]
  by (auto simp: weigh_body_def join_split_str)

lemma weigh_words_values:
  assumes "weigh_words stemmer stemmed val index words = (ws, index', found)" and "val = 2 \<or> val = 8"
  shows "(\<forall>w\<in>set ws. 2 \<le> ww_value w \<and>
            (ww_value w = searchterm_weight \<longleftrightarrow> list_ex (\<lambda>t. prefix t (stemmer (ww_word w))) stemmed)) \<and>
         (found \<longleftrightarrow> (\<exists>w\<in>set ws. ww_value w = searchterm_weight))"
  using assms
proof (induction words arbitrary: val index ws index' found)
  case (Cons word words)
  obtain ws2 i2 f2 v2 where
    rec: "weigh_words stemmer stemmed v2 (index + length word + 1) words = (ws2, i2, f2)"
    and v2: "v2 = 2 \<or> v2 = 8"
    and ws: "if word = [] then ws = ws2 \<and> found = f2
      else (\<exists>hit. hit = list_ex (\<lambda>t. prefix t (stemmer word)) stemmed \<and> found = (hit \<or> f2) \<and>
        ws = \<lparr>ww_word = word, ww_value = if hit then searchterm_weight else val, ww_index = index\<rparr> # ws2)"
    using Cons.prems by (cases "word = []") (auto simp: Let_def split: prod.splits)
  from Cons.IH [OF rec v2] ws Cons.prems(2) show ?case
    by (auto simp: searchterm_weight_def split: if_splits)
qed simp

lemma weigh_sentences_values:
  assumes "weigh_sentences stemmer stemmed index sentences = (ws, found)"
  shows "(\<forall>w\<in>set ws. 2 \<le> ww_value w \<and>
            (ww_value w = searchterm_weight \<longleftrightarrow> list_ex (\<lambda>t. prefix t (stemmer (ww_word w))) stemmed)) \<and>
         (found \<longleftrightarrow> (\<exists>w\<in>set ws. ww_value w = searchterm_weight))"
  using assms
proof (induction sentences arbitrary: index ws found)
  case (Cons sentence sentences)
  obtain ws1 i1 f1 ws2 f2 where
    words: "weigh_words stemmer stemmed 8 index (split_on (CHR '' '') sentence) = (ws1, i1, f1)"
    and rec: "weigh_sentences stemmer stemmed (i1 + 1) sentences = (ws2, f2)"
    and ws: "ws = ws1 @ ws2" "found = (f1 \<or> f2)"
    using Cons.prems by (auto split: prod.splits)
  from weigh_words_values [OF words] Cons.IH [OF rec] ws show ?case by auto
qed simp

lemma toLowerCase_length [simp]: "length (toLowerCase s) = length s"
  by (simp add: toLowerCase_def)

text \<open>Without its tags, what the output loop writes is one piece of the body.\<close>

definition is_tag :: "string \<Rightarrow> bool" where
  "is_tag s \<longleftrightarrow> s = ''<em>'' \<or> s = ''</em>''"

definition words_end :: "nat \<Rightarrow> weighted_word list \<Rightarrow> nat" where
  "words_end lo ws = (if ws = [] then lo else ww_index (last ws) + length (ww_word (last ws)))"

lemma words_end_Cons [simp]:
  "words_end lo (w # ws) = words_end (ww_index w + length (ww_word w)) ws"
  by (simp add: words_end_def)

lemma laid_out_end: "laid_out text lo ws \<Longrightarrow> lo \<le> words_end lo ws \<and> words_end lo ws \<le> length text"
  by (induction ws arbitrary: lo) (force simp: words_end_def [of _ "[]"])+

lemma substring_append:
  "a \<le> b \<Longrightarrow> b \<le> c \<Longrightarrow> substring s a b @ substring s b c = substring s a c"
  using take_add [of "b - a" "c - b" "drop a s"] by (simp add: substring_def add.commute)

lemma set_substring: "set (substring s a b) \<subseteq> set s"
  unfolding substring_def by (meson order_trans set_drop_subset set_take_subset)

lemma substring_no_tag: "CHR ''<'' \<notin> set s \<Longrightarrow> \<not> is_tag (substring s a b)"
  using set_substring [of s a b] by (auto simp: is_tag_def)

lemma teaser_loop_text:
  assumes "laid_out text lo ws" and "length text = length body" and "CHR ''<'' \<notin> set body"
  shows "concat (filter (\<lambda>s. \<not> is_tag s) (teaser_loop body lo ws)) =
     substring body lo (words_end lo ws)"
  using assms
proof (induction ws arbitrary: lo)
  case Nil
  then show ?case by (simp add: words_end_def substring_def)
next
  case (Cons w ws)
  let ?stop = "ww_index w + length (ww_word w)"
  have lo: "lo \<le> ww_index w" and rest: "laid_out text ?stop ws"
    using Cons.prems(1) by auto
  have gap: "(if lo < ww_index w then substring body lo (ww_index w) else []) =
      substring body lo (ww_index w)"
    using lo by (auto simp: substring_def)
  have "concat (filter (\<lambda>s. \<not> is_tag s) (teaser_loop body lo (w # ws))) =
      substring body lo (ww_index w) @ substring body (ww_index w) ?stop
      @ substring body ?stop (words_end ?stop ws)"
    using Cons.IH [OF rest Cons.prems(2,3)] substring_no_tag [OF Cons.prems(3)] gap
    by (auto simp: Let_def is_tag_def)
  then show ?case
    using lo laid_out_end [OF rest] by (simp add: substring_append)
qed

section \<open>Lemmas: escaping and encoding\<close>

text \<open>The inverse of \<open>escapeHTML\<close>, as a browser reads the five character references.\<close>

fun unescapeHTML :: "string \<Rightarrow> string" where
  "unescapeHTML [] = []"
| "unescapeHTML (c # cs) =
     (if prefix ''&amp;'' (c # cs) then CHR ''&'' # unescapeHTML (drop 4 cs)
      else if prefix ''&lt;'' (c # cs) then CHR ''<'' # unescapeHTML (drop 3 cs)
      else if prefix ''&gt;'' (c # cs) then CHR ''>'' # unescapeHTML (drop 3 cs)
      else if prefix ''&#34;'' (c # cs) then CHR 0x22 # unescapeHTML (drop 4 cs)
      else if prefix ''&#39;'' (c # cs) then CHR 0x27 # unescapeHTML (drop 4 cs)
      else c # unescapeHTML cs)"

lemma unescape_escape_char: "unescapeHTML (escape_char c @ s) = c # unescapeHTML s"
  by (auto simp: escape_char_def)

lemma unescape_escape: "unescapeHTML (escapeHTML s) = s"
  by (induction s) (simp_all add: escapeHTML_def unescape_escape_char)

lemma escape_char_set:
  "x \<in> set (escape_char c) \<Longrightarrow> x \<noteq> CHR ''<'' \<and> x \<noteq> CHR ''>'' \<and> x \<noteq> CHR 0x22 \<and> x \<noteq> CHR 0x27"
  by (auto simp: escape_char_def split: if_splits)

lemma escapeHTML_set:
  "set (escapeHTML s) \<inter> {CHR ''<'', CHR ''>'', CHR 0x22, CHR 0x27} = {}"
  using escape_char_set by (auto simp: escapeHTML_def)

lemma hex_value_digit: "d < 16 \<Longrightarrow> hex_value (hex_digit d) = Some d"
  by (auto simp: hex_value_def hex_digit_def Let_def)

lemma percent_value_byte: "b < 256 \<Longrightarrow> percent_value (percent_byte b @ rest) = Some (b, rest)"
  by (simp add: percent_byte_def hex_value_digit)

lemma decode_percent:
  "b < 128 \<Longrightarrow>
     decodeURIComponent (percent_byte b @ rest) = map_option ((#) (char_of b)) (decodeURIComponent rest)"
  using percent_value_byte [of b rest]
  by (subst decodeURIComponent.simps) (simp add: percent_byte_def)

lemma decode_percent2:
  assumes "128 \<le> n" and "n < 256"
  shows "decodeURIComponent (percent_byte (192 + n div 64) @ percent_byte (128 + n mod 64) @ rest) =
     map_option ((#) (char_of n)) (decodeURIComponent rest)"
proof -
  have d: "2 \<le> n div 64" "n div 64 \<le> 3" using assms by auto
  then have "percent_value (percent_byte (192 + n div 64) @ percent_byte (128 + n mod 64) @ rest) =
      Some (192 + n div 64, percent_byte (128 + n mod 64) @ rest)"
    by (intro percent_value_byte) simp
  moreover have "percent_value (percent_byte (128 + n mod 64) @ rest) = Some (128 + n mod 64, rest)"
    by (intro percent_value_byte) (simp add: less_imp_le_nat)
  moreover have "hd (percent_byte (192 + n div 64)) = CHR ''%''" by (simp add: percent_byte_def)
  moreover have "n div 64 * 64 + n mod 64 = n" by simp
  ultimately show ?thesis
    using d by (subst decodeURIComponent.simps) (simp add: percent_byte_def)
qed

lemma decode_plain:
  "c \<noteq> CHR ''%'' \<Longrightarrow>
     decodeURIComponent (c # rest) = map_option ((#) c) (decodeURIComponent rest)"
  by (subst decodeURIComponent.simps) simp

lemma decode_encode_char:
  "decodeURIComponent (encode_uri_char c @ rest) = map_option ((#) c) (decodeURIComponent rest)"
proof (cases "uri_unreserved c")
  case True
  then have "c \<noteq> CHR ''%''" by (auto simp: uri_unreserved_def)
  with True show ?thesis by (simp add: encode_uri_char_def decode_plain)
next
  case False
  have "(of_char c :: nat) < 256" by (rule nat_of_char_less_256)
  with False show ?thesis
    using decode_percent [of "of_char c" rest] decode_percent2 [of "of_char c" rest]
    by (simp add: encode_uri_char_def Let_def)
qed

text \<open>What \<open>encoded_search\<close> does to one character.\<close>

definition search_char :: "char \<Rightarrow> string" where
  "search_char c = (if c = CHR 0x27 then ''%27'' else encode_uri_char c)"

lemma percent_27: "percent_byte 39 = ''%27''" "char_of (39 :: nat) = CHR 0x27"
  by code_simp+

lemma decode_search_char:
  "decodeURIComponent (search_char c @ rest) = map_option ((#) c) (decodeURIComponent rest)"
  using decode_percent [of 39 rest] decode_encode_char [of c rest]
  by (auto simp: search_char_def percent_27)

text \<open>Characters that can stand in a query value inside a quoted attribute.\<close>

definition link_safe :: "char \<Rightarrow> bool" where
  "link_safe c \<longleftrightarrow> c = CHR ''%'' \<or> (uri_unreserved c \<and> c \<noteq> CHR 0x27)"

lemma hex_digit_safe: "d < 16 \<Longrightarrow> link_safe (hex_digit d) \<and> hex_digit d \<noteq> CHR 0x27"
proof -
  assume "d < 16"
  then have "if d < 10 then of_char (hex_digit d) = 48 + d else of_char (hex_digit d) = 55 + d"
    by (simp add: hex_digit_def)
  with \<open>d < 16\<close> have "48 \<le> (of_char (hex_digit d) :: nat)" "of_char (hex_digit d) \<le> (57 :: nat)
      \<or> 65 \<le> (of_char (hex_digit d) :: nat) \<and> of_char (hex_digit d) \<le> (70 :: nat)"
    by (auto split: if_splits)
  then show ?thesis by (auto simp: link_safe_def uri_unreserved_def Let_def)
qed

lemma percent_byte_safe: "b < 256 \<Longrightarrow> x \<in> set (percent_byte b) \<Longrightarrow> link_safe x \<and> x \<noteq> CHR 0x27"
proof -
  assume "b < 256" and x: "x \<in> set (percent_byte b)"
  then have "b div 16 < 16" by simp
  with x hex_digit_safe [of "b div 16"] hex_digit_safe [of "b mod 16"] show ?thesis
    by (auto simp: percent_byte_def link_safe_def)
qed

lemma search_char_safe: "x \<in> set (search_char c) \<Longrightarrow> link_safe x"
proof -
  assume x: "x \<in> set (search_char c)"
  have "(of_char c :: nat) < 256" by (rule nat_of_char_less_256)
  then have "of_char c div 64 < (4 :: nat)"
    by (intro less_mult_imp_div_less) simp
  then have "192 + of_char c div 64 < (256 :: nat)" "128 + of_char c mod 64 < (256 :: nat)"
    using mod_less_divisor [of 64 "of_char c :: nat"] by linarith+
  then have enc: "uri_unreserved c \<or> link_safe x" if "x \<in> set (encode_uri_char c)"
    using that percent_byte_safe [of "of_char c" x] percent_byte_safe [of "192 + of_char c div 64" x]
      percent_byte_safe [of "128 + of_char c mod 64" x]
    by (auto simp: encode_uri_char_def Let_def split: if_splits)
  show ?thesis
  proof (cases "c = CHR 0x27")
    case True
    with x show ?thesis by (auto simp: search_char_def link_safe_def uri_unreserved_def)
  next
    case False
    with x enc show ?thesis
      by (cases "uri_unreserved c") (auto simp: search_char_def link_safe_def encode_uri_char_def)
  qed
qed

lemma replace_all_none: "c \<notin> set s \<Longrightarrow> replace_all c r s = s"
  by (induction s) (auto simp: replace_all_def)

lemma encoded_search_eq:
  "encoded_search terms = concat (map search_char (join_with '' '' terms))"
proof -
  have "replace_all (CHR 0x27) ''%27'' (encode_uri_char c) = search_char c" for c
  proof (cases "c = CHR 0x27")
    case True
    then show ?thesis by (simp add: search_char_def encode_uri_char_def uri_unreserved_def replace_all_def)
  next
    case False
    then have "CHR 0x27 \<notin> set (encode_uri_char c)"
      using search_char_safe [of "CHR 0x27" c] by (auto simp: search_char_def link_safe_def)
    then have "replace_all (CHR 0x27) ''%27'' (encode_uri_char c) = encode_uri_char c"
      by (rule replace_all_none)
    with False show ?thesis by (simp add: search_char_def)
  qed
  then have "replace_all (CHR 0x27) ''%27'' (encodeURIComponent s) = concat (map search_char s)" for s
    by (induction s) (simp_all add: encodeURIComponent_def replace_all_def)
  then show ?thesis by (simp add: encoded_search_def)
qed

lemma decode_encoded_search:
  "decodeURIComponent (encoded_search terms) = Some (join_with '' '' terms)"
proof -
  have "decodeURIComponent (concat (map search_char s)) = Some s" for s
    by (induction s) (simp_all add: decode_search_char decodeURIComponent.simps [of "[]"])
  then show ?thesis by (simp add: encoded_search_eq)
qed

lemma encoded_search_safe: "c \<in> set (encoded_search terms) \<Longrightarrow> link_safe c"
  by (auto simp: encoded_search_eq dest: search_char_safe)

section \<open>Lemmas: query parameters\<close>

definition add_part :: "string \<Rightarrow> js_object \<Rightarrow> js_object" where
  "add_part part ret =
     (if part = [] then ret
      else (case split_on (CHR ''='') part of
              k # v # _ \<Rightarrow> obj_set k (Some v) ret
            | [k] \<Rightarrow> obj_set k None ret
            | [] \<Rightarrow> ret))"

lemma parse_params_query:
  "parse_params (CHR ''?'' # query) = fold add_part (split_on (CHR ''&'') query) []"
  unfolding parse_params_def add_part_def by simp

lemma parse_params_cases:
  "\<exists>query. parse_params search = fold add_part (split_on (CHR ''&'') query) []"
  unfolding parse_params_def Let_def by (fold add_part_def) blast

text \<open>Objects whose rendering can be parsed again.\<close>

definition params_ok :: "js_object \<Rightarrow> bool" where
  "params_ok ps \<longleftrightarrow> distinct (map fst ps) \<and>
     (\<forall>(k, v) \<in> set ps. k \<noteq> ''__proto__'' \<and> CHR ''&'' \<notin> set k \<and> CHR ''='' \<notin> set k \<and>
        CHR ''&'' \<notin> set (js_show v) \<and> CHR ''='' \<notin> set (js_show v))"

lemma obj_set_set: "set (obj_set k v ps) \<subseteq> insert (k, v) (set ps)"
  by (induction ps) (auto split: if_splits)

lemma obj_set_keys: "fst ` set (obj_set k v ps) \<subseteq> insert k (fst ` set ps)"
  using image_mono [OF obj_set_set, of fst k v ps] by auto

lemma obj_set_distinct: "distinct (map fst ps) \<Longrightarrow> distinct (map fst (obj_set k v ps))"
proof (induction ps)
  case (Cons p ps)
  obtain k' v' where p: "p = (k', v')" by (cases p)
  have "fst ` set (obj_set k v ps) \<subseteq> insert k (fst ` set ps)"
    by (rule obj_set_keys)
  with Cons p show ?case by auto
qed simp

lemma obj_set_proto:
  "\<forall>p\<in>set ps. fst p \<noteq> ''__proto__'' \<Longrightarrow> \<forall>p\<in>set (obj_set k v ps). fst p \<noteq> ''__proto__''"
  proof (induction ps)
  case (Cons p ps)
  then show ?case by (cases p) (simp split: if_splits)
qed simp

lemma obj_set_new: "k \<notin> fst ` set ps \<Longrightarrow> k \<noteq> ''__proto__'' \<Longrightarrow> obj_set k v ps = ps @ [(k, v)]"
  by (induction ps) auto

lemma params_ok_obj_set:
  assumes "params_ok ps" and "CHR ''&'' \<notin> set k" "CHR ''='' \<notin> set k"
    and "CHR ''&'' \<notin> set (js_show v)" "CHR ''='' \<notin> set (js_show v)"
  shows "params_ok (obj_set k v ps)"
proof -
  have "\<forall>p\<in>set (obj_set k v ps). fst p \<noteq> ''__proto__''"
    by (rule obj_set_proto) (use assms(1) in \<open>auto simp: params_ok_def\<close>)
  then show ?thesis
    using assms obj_set_set [of k v ps] obj_set_distinct [of ps k v]
    by (fastforce simp: params_ok_def)
qed

lemma set_join_with: "x \<in> set xs \<Longrightarrow> set x \<subseteq> set (join_with sep xs)"
  by (induction sep xs rule: join_with.induct) auto

lemma params_ok_add_part:
  assumes "params_ok ps" and "CHR ''&'' \<notin> set part"
  shows "params_ok (add_part part ps)"
proof -
  have parts: "CHR ''='' \<notin> set x \<and> CHR ''&'' \<notin> set x"
    if "x \<in> set (split_on (CHR ''='') part)" for x
  proof -
    have "set x \<subseteq> set (join_with [CHR ''=''] (split_on (CHR ''='') part))"
      using that by (rule set_join_with)
    then show ?thesis
      using split_on_sep_free [OF that] assms(2) by (auto simp: join_split_on)
  qed
  then show ?thesis
    using assms(1)
    by (auto simp: add_part_def js_show_def split: list.splits intro!: params_ok_obj_set)
qed

lemma params_ok_parse: "params_ok (parse_params search)"
proof -
  obtain query where q: "parse_params search = fold add_part (split_on (CHR ''&'') query) []"
    using parse_params_cases by blast
  have "params_ok (fold add_part parts ps)"
    if "params_ok ps" and "\<And>x. x \<in> set parts \<Longrightarrow> CHR ''&'' \<notin> set x" for parts ps
    using that by (induction parts arbitrary: ps) (auto intro: params_ok_add_part)
  from this [of "[]" "split_on (CHR ''&'') query"] q show ?thesis
    by (auto simp: params_ok_def dest: split_on_sep_free)
qed

lemma render_params_join:
  "ps \<noteq> [] \<Longrightarrow> render_params j ps = j # join_with ''&'' (map (\<lambda>(k, v). k @ ''='' @ js_show v) ps)"
proof (induction j ps rule: render_params.induct)
  case (2 j k v ps)
  then show ?case by (cases ps) auto
qed simp

lemma parse_render_params:
  assumes "params_ok ps"
  shows "parse_params (render_params (CHR ''?'') ps) = map (\<lambda>(k, v). (k, Some (js_show v))) ps"
proof (cases "ps = []")
  case True
  then show ?thesis by (simp add: parse_params_def)
next
  case False
  let ?parts = "map (\<lambda>(k, v). k @ ''='' @ js_show v) ps"
  have "split_on (CHR ''&'') (join_with ''&'' ?parts) = ?parts"
    using assms False by (intro split_join_with) (auto simp: params_ok_def)
  then have parse: "parse_params (render_params (CHR ''?'') ps) = fold add_part ?parts []"
    using False by (simp add: render_params_join parse_params_query)
  have "fold add_part (map (\<lambda>(k, v). k @ ''='' @ js_show v) qs) acc =
      acc @ map (\<lambda>(k, v). (k, Some (js_show v))) qs"
    if "params_ok qs" and "fst ` set acc \<inter> fst ` set qs = {}" for acc qs
    using that
  proof (induction qs arbitrary: acc)
    case (Cons p qs)
    obtain k v where p: "p = (k, v)" by (cases p)
    have "add_part (k @ ''='' @ js_show v) acc = acc @ [(k, Some (js_show v))]"
      using Cons.prems p
      by (auto simp: add_part_def params_ok_def split_on_append_sep split_on_no_sep obj_set_new)
    moreover have "params_ok qs" and "fst ` set (acc @ [(k, Some (js_show v))]) \<inter> fst ` set qs = {}"
      using Cons.prems p by (auto simp: params_ok_def)
    ultimately show ?case using Cons.IH p by simp
  qed simp
  from this [of ps "[]"] assms parse show ?thesis by simp
qed

lemma set_for_in: "set (for_in ps) = set ps"
  by (auto simp: for_in_def)

lemma distinct_for_in: "distinct (map fst ps) \<Longrightarrow> distinct (map fst (for_in ps))"
  by (auto simp: distinct_map for_in_def intro: inj_on_subset)

lemma params_ok_for_in: "params_ok ps \<Longrightarrow> params_ok (for_in ps)"
  by (auto simp: params_ok_def set_for_in distinct_for_in)

lemma map_of_for_in: "distinct (map fst ps) \<Longrightarrow> map_of (for_in ps) = map_of ps"
  by (metis distinct_for_in map_of_inject_set set_for_in)

lemma laid_out_member:
  "laid_out text lo ws \<Longrightarrow> w \<in> set ws \<Longrightarrow>
     substring text (ww_index w) (ww_index w + length (ww_word w)) = ww_word w"
  by (induction ws arbitrary: lo) auto

lemma window_choice:
  assumes "weigh_body stemmer searchterms body = (weighted, found)" and "weighted \<noteq> []"
    and "0 < teaser_word_count"
    and "n = min (length weighted) teaser_word_count"
    and "values = map (int \<circ> ww_value) weighted"
  shows "window_weights values n = map (window_sum values n) [0..<length weighted - n + 1] \<and>
     (let i = max_sum_window_index weighted n found in
      i + n \<le> length weighted \<and>
      (\<not> found \<longrightarrow> i = 0) \<and>
      (found \<longrightarrow>
         (\<forall>j. j + n \<le> length weighted \<longrightarrow> window_sum values n j \<le> window_sum values n i) \<and>
         (\<forall>j. i < j \<and> j + n \<le> length weighted \<longrightarrow> window_sum values n j < window_sum values n i)))"
proof -
  let ?m = "length weighted - n + 1"
  have n: "n \<le> length values" "0 < n" using assms by auto
  then have ww: "window_weights values n = map (window_sum values n) [0..<?m]"
    using assms(5) by (simp add: window_weights_sums)
  have "2 \<le> x" if "x \<in> set values" for x
    using that weigh_sentences_values [OF assms(1) [unfolded weigh_body_def]] assms(5) by auto
  then have "\<forall>x\<in>set (take n values). 2 \<le> x" by (blast dest: in_set_takeD)
  moreover obtain x xs where x: "take n values = x # xs" using n by (cases "take n values") auto
  ultimately have "2 \<le> x" and "\<And>y. y \<in> set xs \<Longrightarrow> 2 \<le> y" by simp_all
  then have "2 \<le> x" and "0 \<le> sum_list xs"
    by (simp_all add: sum_list_nonneg order_trans [of 0 2])
  then have "0 < window_sum values n 0"
    using x by (simp add: window_sum_def)
  moreover define m where "m = ?m"
  moreover define W where "W = (\<lambda>m. map (window_sum values n) [0..<m])"
  ultimately have W: "0 < m" "length (W m) = m" "W m ! 0 > 0" and ww': "window_weights values n = W m"
    and nth: "\<And>j. j < m \<Longrightarrow> W m ! j = window_sum values n j"
    using ww by (simp_all add: W_def del: upt_Suc)
  define r where "r = scan_max (W m) m 0 0"
  have r: "r < m" "\<forall>j<m. W m ! j \<le> W m ! r" "\<forall>j. r < j \<and> j < m \<longrightarrow> W m ! j < W m ! r"
    using scan_max_found [OF W(1,3), of 0] by (simp_all add: Let_def r_def)
  have "max_sum_window_index weighted n found = (if found then r else 0)"
    using ww' W(2) assms(5) by (simp add: max_sum_window_index_def Let_def r_def)
  moreover have "j < m \<longleftrightarrow> j + n \<le> length weighted" for j
    using n assms(5) by (auto simp: m_def)
  moreover have "0 + n \<le> length weighted" using n assms(5) by simp
  ultimately show ?thesis
    using ww r nth by (simp add: Let_def)
qed

lemmas window_fits = window_choice [OF _ _ _ _ refl, THEN conjunct2, unfolded Let_def, THEN conjunct1]

section \<open>Properties\<close>

text \<open>
  C27. The window that \<open>makeTeaser\<close> shows. The running sums equal the sums of the windows; when a
  search term occurs, the chosen window has the largest weight of all windows of that many words,
  and is the last one that has it; otherwise it is the first window. It always fits into the text.
\<close>

theorem teaser_window_optimal:
  assumes "weigh_body stemmer searchterms body = (weighted, found)" and "weighted \<noteq> []"
    and "0 < teaser_word_count"
    and "n = min (length weighted) teaser_word_count"
    and "values = map (int \<circ> ww_value) weighted"
  shows "window_weights values n = map (window_sum values n) [0..<length weighted - n + 1] \<and>
     (let i = max_sum_window_index weighted n found in
      i + n \<le> length weighted \<and>
      (\<not> found \<longrightarrow> i = 0) \<and>
      (found \<longrightarrow>
         (\<forall>j. j + n \<le> length weighted \<longrightarrow> window_sum values n j \<le> window_sum values n i) \<and>
         (\<forall>j. i < j \<and> j + n \<le> length weighted \<longrightarrow> window_sum values n j < window_sum values n i)))"
  using window_choice [OF assms] .

theorem teaser_window_optimal_witness:
  "let weighted = fst (weigh_body id [''b''] ''a b c'');
       values = map (int \<circ> ww_value) weighted;
       i = max_sum_window_index weighted 1 True
   in i = 1 \<and> (\<forall>j. j + 1 \<le> length weighted \<longrightarrow> window_sum values 1 j \<le> window_sum values 1 i)"
proof -
  have w: "weigh_body id [''b''] ''a b c'' =
      ([\<lparr>ww_word = ''a'', ww_value = 8, ww_index = 0\<rparr>, \<lparr>ww_word = ''b'', ww_value = 40, ww_index = 2\<rparr>,
        \<lparr>ww_word = ''c'', ww_value = 2, ww_index = 4\<rparr>], True)"
    by code_simp
  have i: "max_sum_window_index (fst (weigh_body id [''b''] ''a b c'')) 1 True = 1"
    by code_simp
  from teaser_window_optimal [OF w _ _ refl refl, of 1] i show ?thesis
    by (simp add: w Let_def)
qed



text \<open>
  \<open>escapeHTML\<close> is safe and loses nothing: its output has no angle bracket and no quote, so it
  can stand in an element or in a quoted attribute, and reading its character references gives the
  original string back.
\<close>

theorem escapeHTML_round_trip:
  "unescapeHTML (escapeHTML s) = s \<and>
   set (escapeHTML s) \<inter> {CHR ''<'', CHR ''>'', CHR 0x22, CHR 0x27} = {}"
  by (simp only: unescape_escape escapeHTML_set simp_thms)

text \<open>
  The query parameters survive the URL rewriting of a search. For every query in which each
  parameter has a value, rendering what \<open>parseURL\<close> read and reading it again gives the same value
  for every parameter, whatever order the object is enumerated in. A parameter without a value
  does not survive: it comes back with the value \<open>undefined\<close>.
\<close>

theorem url_params_round_trip:
  "(None \<notin> snd ` set (parse_params search) \<longrightarrow>
      map_of (parse_params (render_params (CHR ''?'') (for_in (parse_params search)))) =
      map_of (parse_params search)) \<and>
   (\<forall>k. map_of (parse_params search) k = Some None \<longrightarrow>
      map_of (parse_params (render_params (CHR ''?'') (for_in (parse_params search)))) k =
      Some (Some ''undefined''))"
proof -
  let ?ps = "parse_params search"
  have ok: "params_ok ?ps" by (rule params_ok_parse)
  then have d: "map_of (for_in ?ps) = map_of ?ps"
    by (intro map_of_for_in) (simp add: params_ok_def)
  have "map_of (parse_params (render_params (CHR ''?'') (for_in ?ps))) k =
      map_option (\<lambda>v. Some (js_show v)) (map_of ?ps k)" for k
    using parse_render_params [OF params_ok_for_in [OF ok]] d
    by (simp add: map_of_map)
  moreover have "map_of ?ps k = Some None \<Longrightarrow> None \<in> snd ` set ?ps" for k
    by (force dest: map_of_SomeD)
  moreover have "map_option (\<lambda>v. Some (js_show v)) (map_of ?ps k) = map_of ?ps k"
    if "None \<notin> snd ` set ?ps" for k
    using that calculation(2) [of k]
    by (cases "map_of ?ps k") (auto simp: js_show_def split: option.splits)
  ultimately show ?thesis
    by (simp add: fun_eq_iff js_show_def)
qed

theorem url_params_round_trip_witness:
  "map_of (parse_params (render_params (CHR ''?'') (for_in (parse_params ''?b=1&a=2'')))) =
     map_of (parse_params ''?b=1&a=2'') \<and>
   map_of (parse_params (render_params (CHR ''?'') (for_in (parse_params ''?draft'')))) ''draft'' =
     Some (Some ''undefined'')"
proof -
  have "None \<notin> snd ` set (parse_params ''?b=1&a=2'')" and "map_of (parse_params ''?draft'') ''draft'' = Some None"
    by (simp_all add: parse_params_def)
  with url_params_round_trip [of "''?b=1&a=2''"] url_params_round_trip [of "''?draft''"] show ?thesis
    by blast
qed

text \<open>
  The link of a search result carries the search to the target page. For any search term, the
  encoded words contain only unreserved characters and percent signs (so they neither end the
  attribute nor the query value), the target page reads the parameter \<open>highlight\<close> from that
  query, and decoding and splitting it there gives back exactly the words of the term.
\<close>

theorem highlight_link_round_trip:
  "(\<forall>c\<in>set (encoded_search (split_on (CHR '' '') searchterm)). link_safe c) \<and>
   (\<exists>v. map_of (parse_params (''?highlight='' @ encoded_search (split_on (CHR '' '') searchterm)))
          ''highlight'' = Some (Some v) \<and>
        map_option (split_on (CHR '' '')) (decodeURIComponent v) =
          Some (split_on (CHR '' '') searchterm))"
proof -
  let ?e = "encoded_search (split_on (CHR '' '') searchterm)"
  have safe: "\<forall>c\<in>set ?e. link_safe c" by (blast dest: encoded_search_safe)
  moreover have "\<not> link_safe (CHR ''&'')" "\<not> link_safe (CHR ''='')"
    by (simp_all add: link_safe_def uri_unreserved_def)
  ultimately have "CHR ''&'' \<notin> set ?e" "CHR ''='' \<notin> set ?e" by blast+
  then have "params_ok [(''highlight'', Some ?e)]" by (simp add: params_ok_def js_show_def)
  from parse_render_params [OF this]
  have "parse_params (''?highlight='' @ ?e) = [(''highlight'', Some ?e)]"
    by (simp add: js_show_def)
  then have "map_of (parse_params (''?highlight='' @ ?e)) ''highlight'' = Some (Some ?e)" by simp
  moreover have "map_option (split_on (CHR '' '')) (decodeURIComponent ?e) =
      Some (split_on (CHR '' '') searchterm)"
    by (simp add: decode_encoded_search join_split_on)
  ultimately show ?thesis using safe by blast
qed

theorem highlight_link_round_trip_witness:
  "\<exists>v. map_of (parse_params (''?highlight='' @ encoded_search (split_on (CHR '' '') ''a&b c''))) ''highlight'' =
       Some (Some v) \<and>
     map_option (split_on (CHR '' '')) (decodeURIComponent v) = Some [''a&b'', ''c'']"
proof -
  have "split_on (CHR '' '') ''a&b c'' = [''a&b'', ''c'']" by simp
  with highlight_link_round_trip [of "''a&b c''"] show ?thesis by metis
qed

end
