(* ===== verification/Searcher.thy ===== *)
theory Searcher
  imports SearchText
begin

text \<open>
  The search box of the documentation, the event handlers of \<open>src/docs/searcher-c2a407aa.js\<close>: the
  variables of the module and the parts of the page they change are one record, and each handler
  is a function on it. An exception that leaves a handler is returned beside the page as it then
  is. The browser's URL parser, the search of the elasticlunr index, and whether selecting the text
  of an input also focuses it are parameters. The lemmas give the effect of a search and of the
  arrow keys, the invariant of the page, and two sequences of events with a visible defect.
\<close>

section \<open>State\<close>

record li =
  li_html :: string
  li_focus :: bool \<comment> \<open>class \<open>focus\<close>\<close>

record page =
  p_current_searchterm :: string
  p_index_loaded :: bool \<comment> \<open>\<open>searchindex\<close> is not null\<close>
  p_teaser_count :: nat
  p_hidden :: bool \<comment> \<open>\<open>search_wrap\<close> has class \<open>hidden\<close>\<close>
  p_expanded :: bool \<comment> \<open>attribute \<open>aria-expanded\<close> of the icon\<close>
  p_results_hidden :: bool
  p_searching :: bool \<comment> \<open>\<open>searchbar_outer\<close> has class \<open>searching\<close>\<close>
  p_value :: string \<comment> \<open>\<open>searchbar.value\<close>\<close>
  p_active :: bool \<comment> \<open>\<open>searchbar\<close> has class \<open>active\<close>\<close>
  p_focus :: bool \<comment> \<open>\<open>document.activeElement\<close> is the search bar\<close>
  p_script :: bool \<comment> \<open>the script element of the index exists\<close>
  p_results :: "li list"
  p_header :: string
  p_location :: string
  p_history :: "string list"
  p_marks :: "string list" \<comment> \<open>words marked in the content\<close>
  p_assigned :: "string option" \<comment> \<open>the result whose link was assigned to \<open>window.location\<close>\<close>

record search_env = search_config +
  env_anchor_of :: "string \<Rightarrow> anchor"
  env_search :: "string \<Rightarrow> search_result list"
  env_select_focuses :: bool

datatype js_exn = TypeError | URIError

type_synonym handled = "page \<times> js_exn option"

text \<open>The rest of a handler runs unless an exception was thrown.\<close>

definition andthen :: "handled \<Rightarrow> (page \<Rightarrow> handled) \<Rightarrow> handled" where
  "andthen r f = (case r of (p, None) \<Rightarrow> f p | (p, Some e) \<Rightarrow> (p, Some e))"

section \<open>Operations\<close>

definition hasFocus :: "page \<Rightarrow> bool" where
  "hasFocus p = p_focus p"

definition removeChildren :: "page \<Rightarrow> page" where
  "removeChildren p = p\<lparr>p_results := []\<rparr>"

definition loadSearchScript :: "page \<Rightarrow> page" where
  "loadSearchScript p = (if p_script p then p else p\<lparr>p_searching := True, p_script := True\<rparr>)"

definition showSearch :: "bool \<Rightarrow> page \<Rightarrow> page" where
  "showSearch yes p =
     (if yes then (loadSearchScript p)\<lparr>p_hidden := False, p_expanded := True\<rparr>
      else p\<lparr>p_hidden := True, p_expanded := False,
             p_results := map (\<lambda>r. r\<lparr>li_focus := False\<rparr>) (p_results p)\<rparr>)"

definition showResults :: "bool \<Rightarrow> page \<Rightarrow> page" where
  "showResults yes p = p\<lparr>p_results_hidden := \<not> yes\<rparr>"

definition unfocusSearchbar :: "page \<Rightarrow> page" where
  "unfocusSearchbar p = p\<lparr>p_focus := False\<rparr>"

definition select_searchbar :: "search_env \<Rightarrow> page \<Rightarrow> page" where
  "select_searchbar env p = p\<lparr>p_focus := p_focus p \<or> env_select_focuses env\<rparr>"

definition unmark :: "page \<Rightarrow> page" where
  "unmark p = p\<lparr>p_marks := []\<rparr>"

text \<open>The loop of \<open>doSearch\<close> that formats and appends the results.\<close>

fun add_results :: "search_env \<Rightarrow> string list \<Rightarrow> search_result list \<Rightarrow> page \<Rightarrow> handled" where
  "add_results env searchterms [] p = (p, None)"
| "add_results env searchterms (r # rs) p =
     (case formatSearchResult (search_config.truncate env) (p_teaser_count p) r searchterms of
        (None, n) \<Rightarrow> (p\<lparr>p_teaser_count := n\<rparr>, Some TypeError)
      | (Some html, n) \<Rightarrow>
          add_results env searchterms rs
            (p\<lparr>p_teaser_count := n,
               p_results := p_results p @ [\<lparr>li_html = html, li_focus = False\<rparr>]\<rparr>))"

definition doSearch :: "search_env \<Rightarrow> string \<Rightarrow> page \<Rightarrow> handled" where
  "doSearch env searchterm p =
     (if p_current_searchterm p = searchterm then (p, None)
      else if \<not> p_index_loaded p then (p\<lparr>p_searching := True\<rparr>, None)
      else
        (let results = env_search env searchterm;
             resultcount = min (length results) (cfg_limit_results env);
             p1 = p\<lparr>p_searching := True, p_current_searchterm := searchterm,
                    p_header := formatSearchMetric resultcount searchterm\<rparr>
         in andthen
              (add_results env (split_on (CHR '' '') searchterm) (take resultcount results)
                 (removeChildren p1))
              (\<lambda>p2. ((showResults True p2)\<lparr>p_searching := False\<rparr>, None))))"

datatype history_action = Push | Replace | PushIfNewSearchElseReplace

definition setSearchUrlParameters :: "search_env \<Rightarrow> string \<Rightarrow> history_action \<Rightarrow> page \<Rightarrow> page" where
  "setSearchUrlParameters env searchterm action p =
     (let url = parseURL (env_anchor_of env) (p_location p);
          first_search = (\<not> hasOwnProperty (u_params url) ''search'');
          url' =
            (if searchterm \<noteq> [] \<or> action = PushIfNewSearchElseReplace then
               url\<lparr>u_params := obj_delete ''highlight''
                      (obj_set ''search'' (Some searchterm) (u_params url)), u_hash := []\<rparr>
             else
               url\<lparr>u_params := obj_delete ''search'' (obj_delete ''highlight'' (u_params url))\<rparr>)
      in if action = Push \<or> action = PushIfNewSearchElseReplace \<and> first_search then
           p\<lparr>p_history := p_history p @ [p_location p], p_location := renderURL url'\<rparr>
         else p\<lparr>p_location := renderURL url'\<rparr>)"

definition searchbarKeyUpHandler :: "search_env \<Rightarrow> page \<Rightarrow> handled" where
  "searchbarKeyUpHandler env p =
     (let searchterm = js_trim (p_value p) in
      andthen
        (if searchterm \<noteq> [] then doSearch env searchterm (p\<lparr>p_active := True\<rparr>)
         else (removeChildren (showResults False (p\<lparr>p_active := False\<rparr>)), None))
        (\<lambda>p1. (unmark (setSearchUrlParameters env searchterm PushIfNewSearchElseReplace p1), None)))"

definition searchIconClickHandler :: "search_env \<Rightarrow> page \<Rightarrow> page" where
  "searchIconClickHandler env p =
     (if p_hidden p then select_searchbar env (showSearch True p) else showSearch False p)"

text \<open>The end of loading the index: \<open>init\<close>.\<close>

definition init :: "search_env \<Rightarrow> page \<Rightarrow> handled" where
  "init env p =
     (let p1 = p\<lparr>p_index_loaded := True, p_searching := False, p_focus := True\<rparr>;
          searchterm = js_trim (p_value p1)
      in if searchterm \<noteq> [] then doSearch env searchterm (p1\<lparr>p_active := True\<rparr>) else (p1, None))"

definition plus_to_space :: "string \<Rightarrow> string" where
  "plus_to_space s = replace_all (CHR ''+'') ''%20'' s"

definition doSearchOrMarkFromUrl :: "search_env \<Rightarrow> page \<Rightarrow> handled" where
  "doSearchOrMarkFromUrl env p =
     (let params = u_params (parseURL (env_anchor_of env) (p_location p)) in
      andthen
        (case map_of params ''search'' of
           Some v \<Rightarrow>
             if v \<noteq> Some [] then
               (let p1 = showSearch True p in
                case decodeURIComponent (plus_to_space (js_show v)) of
                  None \<Rightarrow> (p1, Some URIError)
                | Some val \<Rightarrow> searchbarKeyUpHandler env (p1\<lparr>p_value := val\<rparr>))
             else (showSearch False p, None)
         | None \<Rightarrow> (showSearch False p, None))
        (\<lambda>p2.
          case map_of params ''highlight'' of
            None \<Rightarrow> (p2, None)
          | Some v \<Rightarrow>
              (case decodeURIComponent (js_show v) of
                 None \<Rightarrow> (p2, Some URIError)
               | Some val \<Rightarrow>
                   (p2\<lparr>p_marks := p_marks p2 @ split_on (CHR '' '') val\<rparr>, None))))"

section \<open>Keys\<close>

record key_event =
  e_key :: string
  e_modifier :: bool \<comment> \<open>one of alt, ctrl, meta and shift\<close>
  e_target_type :: string
  e_target_nodeName :: string

definition key_ignored :: "key_event \<Rightarrow> page \<Rightarrow> bool" where
  "key_ignored e p \<longleftrightarrow>
     e_modifier e \<or> e_target_type e = ''textarea'' \<or> e_target_type e = ''text'' \<or>
     \<not> hasFocus p \<and> toLowerCase (e_target_nodeName e) \<in> {''input'', ''select'', ''textarea''}"

fun find_focus :: "li list \<Rightarrow> nat option" where
  "find_focus [] = None"
| "find_focus (r # rs) = (if li_focus r then Some 0 else map_option Suc (find_focus rs))"

definition set_focus :: "nat \<Rightarrow> bool \<Rightarrow> li list \<Rightarrow> li list" where
  "set_focus i b rs = rs[i := (rs ! i)\<lparr>li_focus := b\<rparr>]"

definition escape_key :: "search_env \<Rightarrow> page \<Rightarrow> page" where
  "escape_key env p =
     (let p1 = setSearchUrlParameters env []
                 (if js_trim (p_value p) \<noteq> [] then Push else Replace) (p\<lparr>p_active := False\<rparr>);
          p2 = (if hasFocus p1 then unfocusSearchbar p1 else p1)
      in unmark (showSearch False p2))"

definition focused_key :: "search_env \<Rightarrow> string \<Rightarrow> page \<Rightarrow> page" where
  "focused_key env key p =
     (case p_results p of
        [] \<Rightarrow> p
      | first # _ \<Rightarrow>
          (let p1 = (unfocusSearchbar p)\<lparr>p_results := set_focus 0 True (p_results p)\<rparr>
           in if key = ''Enter'' then p1\<lparr>p_assigned := Some (li_html first)\<rparr> else p1))"

definition result_key :: "search_env \<Rightarrow> string \<Rightarrow> page \<Rightarrow> page" where
  "result_key env key p =
     (let rs = p_results p in
      case find_focus rs of
        None \<Rightarrow> p
      | Some i \<Rightarrow>
          if key = ''ArrowDown'' then
            (if i + 1 < length rs
             then p\<lparr>p_results := set_focus (i + 1) True (set_focus i False rs)\<rparr> else p)
          else if key = ''ArrowUp'' then
            (if 0 < i then p\<lparr>p_results := set_focus (i - 1) True (set_focus i False rs)\<rparr>
             else select_searchbar env (p\<lparr>p_results := set_focus i False rs\<rparr>))
          else p\<lparr>p_assigned := Some (li_html (rs ! i))\<rparr>)"

definition globalKeyHandler :: "search_env \<Rightarrow> key_event \<Rightarrow> page \<Rightarrow> page" where
  "globalKeyHandler env e p =
     (if key_ignored e p then p
      else if e_key e = ''Escape'' then escape_key env p
      else if \<not> hasFocus p \<and> (e_key e = ''s'' \<or> e_key e = ''/'') then
        select_searchbar env (showSearch True p)
      else if hasFocus p \<and> (e_key e = ''ArrowDown'' \<or> e_key e = ''Enter'') then
        focused_key env (e_key e) p
      else if \<not> hasFocus p \<and>
              (e_key e = ''ArrowDown'' \<or> e_key e = ''ArrowUp'' \<or> e_key e = ''Enter'') then
        result_key env (e_key e) p
      else p)"

section \<open>Events\<close>

text \<open>
  What the page reacts to: a key released in the search bar after its value changed, a key pressed,
  a click on the icon, the browser's history buttons, the loaded index, faded marks.
\<close>

datatype event =
    KeyUp string
  | KeyDown key_event
  | IconClick
  | PopState string
  | IndexLoaded
  | MarksFaded

definition handle :: "search_env \<Rightarrow> event \<Rightarrow> page \<Rightarrow> handled" where
  "handle env ev p =
     (case ev of
        KeyUp v \<Rightarrow> searchbarKeyUpHandler env (p\<lparr>p_value := v\<rparr>)
      | KeyDown e \<Rightarrow> (globalKeyHandler env e p, None)
      | IconClick \<Rightarrow> (searchIconClickHandler env p, None)
      | PopState url \<Rightarrow> doSearchOrMarkFromUrl env (p\<lparr>p_location := url\<rparr>)
      | IndexLoaded \<Rightarrow> if p_script p \<and> \<not> p_index_loaded p then init env p else (p, None)
      | MarksFaded \<Rightarrow> (unmark p, None))"

text \<open>An exception ends its handler only; the page goes on with the next event.\<close>

fun run_events :: "search_env \<Rightarrow> event list \<Rightarrow> page \<Rightarrow> page" where
  "run_events env [] p = p"
| "run_events env (ev # evs) p = run_events env evs (fst (handle env ev p))"

definition blank_page :: "string \<Rightarrow> page" where
  "blank_page url =
     \<lparr>p_current_searchterm = [], p_index_loaded = False, p_teaser_count = 0, p_hidden = True,
      p_expanded = False, p_results_hidden = True, p_searching = False, p_value = [],
      p_active = False, p_focus = False, p_script = False, p_results = [], p_header = [],
      p_location = url, p_history = [], p_marks = [], p_assigned = None\<rparr>"

text \<open>\<open>initSearchInteractions\<close>: the handlers are set up, then the URL is looked at.\<close>

definition load_page :: "search_env \<Rightarrow> string \<Rightarrow> page" where
  "load_page env url = fst (doSearchOrMarkFromUrl env (blank_page url))"

section \<open>Lemmas\<close>

definition page_ok :: "search_env \<Rightarrow> page \<Rightarrow> bool" where
  "page_ok env p \<longleftrightarrow>
     p_expanded p = (\<not> p_hidden p) \<and>
     (p_index_loaded p \<longrightarrow> p_script p) \<and>
     (p_current_searchterm p \<noteq> [] \<longrightarrow> p_index_loaded p) \<and>
     (p_results p \<noteq> [] \<longrightarrow> p_current_searchterm p \<noteq> []) \<and>
     length (p_results p) \<le> cfg_limit_results env"

lemma formatSearchResult_count:
  "snd (formatSearchResult cfg n r terms) = Suc n"
  by (simp add: formatSearchResult_def Let_def)

text \<open>What the loop over the results leaves alone, and how many results it can add.\<close>

lemma add_results_frame:
  assumes "add_results env terms rs p = (p', exn)"
  shows "\<exists>n new. p' = p\<lparr>p_teaser_count := n, p_results := p_results p @ new\<rparr> \<and> length new \<le> length rs"
  using assms
proof (induction rs arbitrary: p)
  case Nil
  then have "p' = p\<lparr>p_teaser_count := p_teaser_count p, p_results := p_results p @ []\<rparr>" by simp
  then show ?case by (metis list.size(3) order_refl)
next
  case (Cons r rs)
  obtain h n where f: "formatSearchResult (search_config.truncate env) (p_teaser_count p) r terms = (h, n)"
    by fastforce
  show ?case
  proof (cases h)
    case None
    with f Cons.prems have "p' = p\<lparr>p_teaser_count := n, p_results := p_results p @ []\<rparr>" by auto
    then show ?thesis by (metis le0 list.size(3))
  next
    case (Some html)
    let ?p = "p\<lparr>p_teaser_count := n, p_results := p_results p @ [\<lparr>li_html = html, li_focus = False\<rparr>]\<rparr>"
    have "add_results env terms rs ?p = (p', exn)" using f Some Cons.prems by simp
    from Cons.IH [OF this] obtain m new where
      "p' = ?p\<lparr>p_teaser_count := m, p_results := p_results ?p @ new\<rparr>" and len: "length new \<le> length rs"
      by blast
    then have "p' = p\<lparr>p_teaser_count := m,
        p_results := p_results p @ (\<lparr>li_html = html, li_focus = False\<rparr> # new)\<rparr>" by simp
    with len show ?thesis by (metis length_Cons Suc_le_mono)
  qed
qed

fun formatted :: "search_env \<Rightarrow> string list \<Rightarrow> nat \<Rightarrow> search_result list \<Rightarrow> string list" where
  "formatted env terms n [] = []"
| "formatted env terms n (r # rs) =
     the (fst (formatSearchResult (search_config.truncate env) n r terms))
     # formatted env terms (Suc n) rs"

lemma add_results_formatted:
  assumes "\<forall>r\<in>set rs. res_ref r < length (cfg_doc_urls env)"
  shows "add_results env terms rs p =
     (p\<lparr>p_teaser_count := p_teaser_count p + length rs,
        p_results := p_results p @
          map (\<lambda>h. \<lparr>li_html = h, li_focus = False\<rparr>) (formatted env terms (p_teaser_count p) rs)\<rparr>, None)"
  using assms
proof (induction rs arbitrary: p)
  case (Cons r rs)
  have "res_ref r < length (cfg_doc_urls (search_config.truncate env))"
    using Cons.prems by (simp add: search_config.truncate_def)
  then obtain html where f: "formatSearchResult (search_config.truncate env) (p_teaser_count p) r terms =
      (Some html, Suc (p_teaser_count p))"
    by (simp add: formatSearchResult_def Let_def)
  with Cons show ?case by simp
qed simp

lemma doSearch_ok:
  assumes "page_ok env p" and "searchterm \<noteq> []"
  shows "page_ok env (fst (doSearch env searchterm p))"
proof (cases "p_current_searchterm p = searchterm \<or> \<not> p_index_loaded p")
  case True
  with assms show ?thesis by (auto simp: doSearch_def page_ok_def)
next
  case False
  let ?n = "min (length (env_search env searchterm)) (cfg_limit_results env)"
  let ?p = "removeChildren (p\<lparr>p_searching := True, p_current_searchterm := searchterm,
      p_header := formatSearchMetric ?n searchterm\<rparr>)"
  obtain p' exn where r: "add_results env (split_on (CHR '' '') searchterm)
      (take ?n (env_search env searchterm)) ?p = (p', exn)"
    by fastforce
  from add_results_frame [OF this] obtain m new where
    p': "p' = ?p\<lparr>p_teaser_count := m, p_results := new\<rparr>" and "length new \<le> ?n"
    by (auto simp: removeChildren_def)
  then have "page_ok env p'"
    using assms False by (auto simp: page_ok_def removeChildren_def)
  then have "page_ok env ((showResults True p')\<lparr>p_searching := False\<rparr>)"
    by (simp add: page_ok_def showResults_def)
  with \<open>page_ok env p'\<close> False r show ?thesis
    by (cases exn) (simp_all add: doSearch_def andthen_def)
qed

lemma page_ok_setSearchUrlParameters:
  "page_ok env (setSearchUrlParameters env term act p) = page_ok env p"
  by (simp add: setSearchUrlParameters_def page_ok_def Let_def)

lemma page_ok_upd [simp]:
  "page_ok env (p\<lparr>p_active := b\<rparr>) = page_ok env p"
  "page_ok env (p\<lparr>p_value := v\<rparr>) = page_ok env p"
  "page_ok env (p\<lparr>p_location := u\<rparr>) = page_ok env p"
  "page_ok env (p\<lparr>p_marks := ws\<rparr>) = page_ok env p"
  "page_ok env (p\<lparr>p_assigned := a\<rparr>) = page_ok env p"
  "page_ok env (unmark p) = page_ok env p"
  "page_ok env (unfocusSearchbar p) = page_ok env p"
  "page_ok env (select_searchbar env' p) = page_ok env p"
  "page_ok env (showResults yes p) = page_ok env p"
  by (simp_all add: page_ok_def unmark_def unfocusSearchbar_def select_searchbar_def showResults_def)

lemma page_ok_showSearch: "page_ok env p \<Longrightarrow> page_ok env (showSearch yes p)"
  by (auto simp: page_ok_def showSearch_def loadSearchScript_def)

lemma page_ok_removeChildren: "page_ok env p \<Longrightarrow> page_ok env (removeChildren p)"
  by (simp add: page_ok_def removeChildren_def)

lemma page_ok_results:
  "page_ok env p \<Longrightarrow> length rs = length (p_results p) \<Longrightarrow> page_ok env (p\<lparr>p_results := rs\<rparr>)"
  by (auto simp: page_ok_def)

lemma length_set_focus [simp]: "length (set_focus i b rs) = length rs"
  by (simp add: set_focus_def)

lemma andthen_ok:
  "page_ok env (fst r) \<Longrightarrow> (\<And>p. page_ok env p \<Longrightarrow> page_ok env (fst (f p))) \<Longrightarrow>
     page_ok env (fst (andthen r f))"
  by (auto simp: andthen_def split: prod.splits option.splits)

lemma page_ok_keyup: "page_ok env p \<Longrightarrow> page_ok env (fst (searchbarKeyUpHandler env p))"
  unfolding searchbarKeyUpHandler_def Let_def
  by (rule andthen_ok)
    (auto intro: doSearch_ok page_ok_removeChildren simp: page_ok_setSearchUrlParameters)

lemma page_ok_from_url: "page_ok env p \<Longrightarrow> page_ok env (fst (doSearchOrMarkFromUrl env p))"
  unfolding doSearchOrMarkFromUrl_def Let_def
  by (rule andthen_ok)
    (auto intro!: page_ok_showSearch page_ok_keyup split: option.splits)

lemma page_ok_init:
  "page_ok env p \<Longrightarrow> p_script p \<Longrightarrow> page_ok env (fst (init env p))"
proof -
  assume "page_ok env p" and "p_script p"
  then have "page_ok env (p\<lparr>p_index_loaded := True, p_searching := False, p_focus := True\<rparr>)"
    by (simp add: page_ok_def)
  then show ?thesis by (simp add: init_def Let_def doSearch_ok)
qed

lemma page_ok_escape: "page_ok env p \<Longrightarrow> page_ok env (escape_key env p)"
  by (simp add: escape_key_def Let_def page_ok_showSearch page_ok_setSearchUrlParameters)

lemma page_ok_focused_key: "page_ok env p \<Longrightarrow> page_ok env (focused_key env key p)"
  by (auto simp: focused_key_def Let_def unfocusSearchbar_def page_ok_def split: list.splits)

lemma page_ok_result_key: "page_ok env p \<Longrightarrow> page_ok env (result_key env key p)"
  by (auto simp: result_key_def Let_def split: option.splits intro: page_ok_results)

lemma page_ok_key: "page_ok env p \<Longrightarrow> page_ok env (globalKeyHandler env e p)"
  by (simp add: globalKeyHandler_def page_ok_escape page_ok_focused_key page_ok_result_key
      page_ok_showSearch)

text \<open>The arrow keys on a list in which one result has the focus.\<close>

definition only_focus :: "nat \<Rightarrow> li list \<Rightarrow> bool" where
  "only_focus i rs \<longleftrightarrow> i < length rs \<and> (\<forall>j<length rs. li_focus (rs ! j) \<longleftrightarrow> j = i)"

lemma find_focus_only: "only_focus i rs \<Longrightarrow> find_focus rs = Some i"
proof (induction rs arbitrary: i)
  case (Cons r rs)
  show ?case
  proof (cases i)
    case 0
    with Cons.prems show ?thesis by (auto simp: only_focus_def)
  next
    case (Suc k)
    with Cons.prems have "\<not> li_focus r" by (auto simp: only_focus_def dest!: spec [of _ 0])
    moreover have "only_focus k rs"
      unfolding only_focus_def
    proof (intro conjI allI impI)
      show "k < length rs" using Cons.prems Suc by (simp add: only_focus_def)
      fix j assume "j < length rs"
      then have "li_focus ((r # rs) ! Suc j) \<longleftrightarrow> Suc j = i"
        using Cons.prems unfolding only_focus_def by (metis Suc_less_eq length_Cons)
      then show "li_focus (rs ! j) \<longleftrightarrow> j = k" using Suc by simp
    qed
    ultimately show ?thesis using Cons.IH Suc by simp
  qed
qed (simp add: only_focus_def)

lemma only_focus_move:
  "only_focus i rs \<Longrightarrow> k < length rs \<Longrightarrow> k \<noteq> i \<Longrightarrow> only_focus k (set_focus k True (set_focus i False rs))"
  by (auto simp: only_focus_def set_focus_def nth_list_update)

lemma find_focus_None: "find_focus rs = None \<longleftrightarrow> (\<forall>r\<in>set rs. \<not> li_focus r)"
  by (induction rs) auto

lemma no_focus_left:
  assumes "only_focus i rs"
  shows "find_focus (set_focus i False rs) = None"
proof -
  have "\<not> li_focus (set_focus i False rs ! j)" if "j < length rs" for j
    using assms that by (cases "j = i") (simp_all add: only_focus_def set_focus_def nth_list_update)
  then show ?thesis by (auto simp: find_focus_None in_set_conv_nth)
qed

lemma page_ok_handle: "page_ok env p \<Longrightarrow> page_ok env (fst (handle env ev p))"
  by (cases ev)
    (auto simp: handle_def searchIconClickHandler_def
      intro!: page_ok_keyup page_ok_from_url page_ok_key page_ok_init page_ok_showSearch)

lemma page_ok_run: "page_ok env p \<Longrightarrow> page_ok env (run_events env evs p)"
  by (induction evs arbitrary: p) (auto intro: page_ok_handle)

section \<open>Properties\<close>

text \<open>
  C29. The page stays consistent through every sequence of events, exceptions in handlers included:
  the icon's \<open>aria-expanded\<close> says whether the search box is shown, a search term is only recorded
  once the index is loaded, results are only listed for a recorded term, and there are never more
  of them than the configured limit.
\<close>

theorem search_page_invariant:
  "page_ok env (run_events env evs (load_page env url))"
  unfolding load_page_def
  by (intro page_ok_run page_ok_from_url) (simp add: blank_page_def page_ok_def)

text \<open>
  A search shows its results. With the index loaded, a term other than the current one and
  references that are all in the table of URLs, \<open>doSearch\<close> throws nothing and leaves exactly the
  first results of the index, as many as the limit allows, formatted in their order with
  consecutive teaser numbers, visible under a header with their number, and not searching any more.
\<close>

theorem doSearch_shows_results:
  assumes "p_index_loaded p" and "p_current_searchterm p \<noteq> searchterm"
    and "\<forall>r\<in>set (env_search env searchterm). res_ref r < length (cfg_doc_urls env)"
    and "shown = take (cfg_limit_results env) (env_search env searchterm)"
    and "doSearch env searchterm p = (p', exn)"
  shows "exn = None \<and> p_current_searchterm p' = searchterm \<and>
     map li_html (p_results p') =
       formatted env (split_on (CHR '' '') searchterm) (p_teaser_count p) shown \<and>
     p_header p' = formatSearchMetric (length shown) searchterm \<and>
     \<not> p_results_hidden p' \<and> \<not> p_searching p'"
proof -
  let ?n = "min (length (env_search env searchterm)) (cfg_limit_results env)"
  have shown: "shown = take ?n (env_search env searchterm)" "length shown = ?n"
    using assms(4) by (auto simp: min_def)
  have "\<forall>r\<in>set shown. res_ref r < length (cfg_doc_urls env)"
    using assms(3,4) by (auto dest: in_set_takeD)
  from add_results_formatted [OF this] assms(1,2,5) shown show ?thesis
    by (auto simp: doSearch_def andthen_def Let_def showResults_def removeChildren_def comp_def)
qed

text \<open>An index with one document, for the concrete pages below.\<close>

definition demo_search_env :: search_env where
  "demo_search_env =
     \<lparr>cfg_stemmer = id, cfg_doc_urls = [''intro.html#ssh-obi''], cfg_path_to_root = [],
      cfg_teaser_word_count = 30, cfg_limit_results = 30,
      env_anchor_of = (\<lambda>_. \<lparr>a_protocol = ''https:'', a_hostname = ''h'', a_port = [],
         a_pathname = ''/'', a_search = [], a_hash = []\<rparr>),
      env_search = (\<lambda>t. if t = ''obi''
         then [\<lparr>res_ref = 0, res_body = ''obi'', res_breadcrumbs = ''Intro''\<rparr>,
               \<lparr>res_ref = 0, res_body = ''an obi'', res_breadcrumbs = ''Use''\<rparr>] else []),
      env_select_focuses = True\<rparr>"

theorem doSearch_shows_results_witness:
  "\<exists>p'. doSearch demo_search_env ''obi'' ((blank_page [])\<lparr>p_index_loaded := True\<rparr>) = (p', None) \<and>
     length (p_results p') = 2"
proof -
  let ?p = "(blank_page [])\<lparr>p_index_loaded := True\<rparr>"
  obtain p' exn where d: "doSearch demo_search_env ''obi'' ?p = (p', exn)" by fastforce
  have "exn = None" and "map li_html (p_results p') =
      formatted demo_search_env (split_on (CHR '' '') ''obi'') 0
        (take 30 (env_search demo_search_env ''obi''))"
    using doSearch_shows_results [OF _ _ _ refl d]
    by (simp_all add: blank_page_def demo_search_env_def)
  then have "length (p_results p') = 2"
    by (auto simp: demo_search_env_def dest!: arg_cong [of _ _ length])
  with d \<open>exn = None\<close> show ?thesis by blast
qed

text \<open>
  The arrow keys walk through the results. While exactly one result has the focus and the
  search bar has not: Down moves the focus to the next result and stays on the last one; Up moves it
  to the previous one, and from the first one takes it off and selects the search bar; Enter
  follows the link of the focused result. Nothing else on the page changes.
\<close>

theorem arrow_keys_move_focus:
  assumes "only_focus i (p_results p)" and "\<not> p_focus p" and "\<not> key_ignored e p"
  shows "(e_key e = ''ArrowDown'' \<longrightarrow>
        (\<exists>rs. globalKeyHandler env e p = p\<lparr>p_results := rs\<rparr> \<and>
           only_focus (if i + 1 < length (p_results p) then i + 1 else i) rs \<and>
           map li_html rs = map li_html (p_results p))) \<and>
     (e_key e = ''ArrowUp'' \<longrightarrow>
        (\<exists>rs. map li_html rs = map li_html (p_results p) \<and>
           (if 0 < i then globalKeyHandler env e p = p\<lparr>p_results := rs\<rparr> \<and> only_focus (i - 1) rs
            else globalKeyHandler env e p =
                   p\<lparr>p_results := rs, p_focus := env_select_focuses env\<rparr> \<and>
                 find_focus rs = None))) \<and>
     (e_key e = ''Enter'' \<longrightarrow>
        globalKeyHandler env e p = p\<lparr>p_assigned := Some (li_html (p_results p ! i))\<rparr>)"
proof (intro conjI impI)
  note focus = find_focus_only [OF assms(1)]
  have i: "i < length (p_results p)" using assms(1) by (simp add: only_focus_def)
  have html: "map li_html (set_focus k b rs) = map li_html rs" for k b rs
    by (cases "k < length rs")
      (auto simp: set_focus_def nth_list_update list_update_beyond intro: nth_equalityI)
  {
    assume "e_key e = ''ArrowDown''"
    then have "globalKeyHandler env e p = result_key env ''ArrowDown'' p"
      using assms(2,3) by (simp add: globalKeyHandler_def hasFocus_def)
    then show "\<exists>rs. globalKeyHandler env e p = p\<lparr>p_results := rs\<rparr> \<and>
        only_focus (if i + 1 < length (p_results p) then i + 1 else i) rs \<and>
        map li_html rs = map li_html (p_results p)"
      using focus assms(1) only_focus_move [OF assms(1), of "i + 1"] html
      by (intro exI [of _ "if i + 1 < length (p_results p)
            then set_focus (i + 1) True (set_focus i False (p_results p)) else p_results p"])
        (simp add: result_key_def)
  next
    assume "e_key e = ''ArrowUp''"
    then have "globalKeyHandler env e p = result_key env ''ArrowUp'' p"
      using assms(2,3) by (simp add: globalKeyHandler_def hasFocus_def)
    then show "\<exists>rs. map li_html rs = map li_html (p_results p) \<and>
           (if 0 < i then globalKeyHandler env e p = p\<lparr>p_results := rs\<rparr> \<and> only_focus (i - 1) rs
            else globalKeyHandler env e p =
                   p\<lparr>p_results := rs, p_focus := env_select_focuses env\<rparr> \<and>
                 find_focus rs = None)"
      using focus assms(2) only_focus_move [OF assms(1), of "i - 1"] html i no_focus_left [OF assms(1)]
      by (intro exI [of _ "if 0 < i
            then set_focus (i - 1) True (set_focus i False (p_results p))
            else set_focus i False (p_results p)"])
        (auto simp: result_key_def select_searchbar_def)
  next
    assume "e_key e = ''Enter''"
    then show "globalKeyHandler env e p = p\<lparr>p_assigned := Some (li_html (p_results p ! i))\<rparr>"
      using assms(2,3) focus by (simp add: globalKeyHandler_def hasFocus_def result_key_def)
  }
qed

theorem arrow_keys_move_focus_witness:
  "\<exists>rs. globalKeyHandler demo_search_env
       \<lparr>e_key = ''ArrowDown'', e_modifier = False, e_target_type = [], e_target_nodeName = ''BODY''\<rparr>
       ((blank_page [])\<lparr>p_results := [\<lparr>li_html = ''x'', li_focus = True\<rparr>, \<lparr>li_html = ''y'', li_focus = False\<rparr>]\<rparr>)
     = (blank_page [])\<lparr>p_results := rs\<rparr> \<and> only_focus 1 rs"
proof -
  let ?p = "(blank_page [])\<lparr>p_results := [\<lparr>li_html = ''x'', li_focus = True\<rparr>, \<lparr>li_html = ''y'', li_focus = False\<rparr>]\<rparr>"
  let ?e = "\<lparr>e_key = ''ArrowDown'', e_modifier = False, e_target_type = [], e_target_nodeName = ''BODY''\<rparr>"
  have "only_focus 0 (p_results ?p)" by (simp add: only_focus_def less_Suc_eq)
  moreover have "\<not> p_focus ?p" by (simp add: blank_page_def)
  moreover have "toLowerCase ''BODY'' = ''body''" by code_simp
  then have "\<not> key_ignored ?e ?p" by (simp add: key_ignored_def)
  ultimately show ?thesis
    using arrow_keys_move_focus [of 0 ?p ?e demo_search_env] by (auto simp: blank_page_def)
qed


end
