(* ===== verification/Dom.thy ===== *)
theory Dom
  imports Obi_Prelude
begin

text \<open>
  What the scripts of the documentation pages use of the browser: exceptions that leave a handler,
  class lists of elements, and the run of a page as its events. A handler returns the state it
  leaves and the exception it ended with, if any; an exception ends only the handler that threw
  it, so the run of a page goes on with the state as it then is.
\<close>

datatype js_error =
    JsTypeError
  | JsReferenceError
  | JsSyntaxError
  | JsInvalidCharacter
  | JsSecurityError

type_synonym 's outcome = "'s \<times> js_error option"

definition js_then :: "'s outcome \<Rightarrow> ('s \<Rightarrow> 's outcome) \<Rightarrow> 's outcome" where
  "js_then r f = (case r of (s, None) \<Rightarrow> f s | (s, Some e) \<Rightarrow> (s, Some e))"

definition js_ok :: "'s \<Rightarrow> 's outcome" where
  "js_ok s = (s, None)"

definition js_throw :: "js_error \<Rightarrow> 's \<Rightarrow> 's outcome" where
  "js_throw e s = (s, Some e)"

lemma js_then_simps [simp]:
  "js_then (js_ok s) f = f s"
  "js_then (js_throw e s) f = js_throw e s"
  "js_then (s, None) f = f s"
  "js_then (s, Some e) f = (s, Some e)"
  by (simp_all add: js_then_def js_ok_def js_throw_def)

lemma js_outcome_simps [simp]:
  "fst (js_ok s) = s" "snd (js_ok s) = None"
  "fst (js_throw e s) = s" "snd (js_throw e s) = Some e"
  by (simp_all add: js_ok_def js_throw_def)

text \<open>A predicate kept by both parts of a handler is kept by the handler.\<close>

lemma js_then_keeps:
  "P (fst r) \<Longrightarrow> (\<And>s. P s \<Longrightarrow> P (fst (f s))) \<Longrightarrow> P (fst (js_then r f))"
  by (cases r) (auto simp: js_then_def split: option.splits)

definition run_events :: "('e \<Rightarrow> 's \<Rightarrow> 's outcome) \<Rightarrow> 'e list \<Rightarrow> 's \<Rightarrow> 's" where
  "run_events h es s = fold (\<lambda>e t. fst (h e t)) es s"

lemma run_events_simps [simp]:
  "run_events h [] s = s"
  "run_events h (e # es) s = run_events h es (fst (h e s))"
  "run_events h (es @ fs) s = run_events h fs (run_events h es s)"
  by (simp_all add: run_events_def)

lemma run_events_invariant:
  assumes "P s" and "\<And>e t. P t \<Longrightarrow> P (fst (h e t))"
  shows "P (run_events h es s)"
  using assms(1) by (induction es arbitrary: s) (simp_all add: assms(2))

text \<open>The contract of a script: an invariant that every handler keeps, with or without an exception,
  holds through the run of a page.\<close>

locale page_script =
  fixes handler :: "'e \<Rightarrow> 's \<Rightarrow> 's outcome"
    and inv :: "'s \<Rightarrow> bool"
  assumes handler_keeps: "inv s \<Longrightarrow> inv (fst (handler e s))"
begin

lemma run_keeps: "inv s \<Longrightarrow> inv (run_events handler es s)"
  by (rule run_events_invariant) (simp_all add: handler_keeps)

lemma run_from_keeps:
  "inv (run_events handler es s) \<Longrightarrow> inv (run_events handler (es @ fs) s)"
  by (simp add: run_keeps)

end

section \<open>Class lists\<close>

text \<open>
  A \<open>DOMTokenList\<close> is an ordered set of tokens; its methods refuse the empty token and one with a
  white-space character.
\<close>

type_synonym classes = "string list"

definition dom_space :: "char \<Rightarrow> bool" where
  "dom_space c \<longleftrightarrow> (let n = (of_char c :: nat) in n = 9 \<or> n = 10 \<or> n = 12 \<or> n = 13 \<or> n = 32)"

definition token_error :: "string \<Rightarrow> js_error option" where
  "token_error t =
     (if t = [] then Some JsSyntaxError
      else if list_ex dom_space t then Some JsInvalidCharacter else None)"

definition class_add :: "string \<Rightarrow> classes \<Rightarrow> classes" where
  "class_add c cs = (if c \<in> set cs then cs else cs @ [c])"

definition class_remove :: "string \<Rightarrow> classes \<Rightarrow> classes" where
  "class_remove c cs = filter (\<lambda>x. x \<noteq> c) cs"

lemma set_class_add [simp]: "set (class_add c cs) = insert c (set cs)"
  by (auto simp: class_add_def)

lemma set_class_remove [simp]: "set (class_remove c cs) = set cs - {c}"
  by (auto simp: class_remove_def)

lemma distinct_class_add [simp]: "distinct (class_add c cs) = distinct cs"
  by (auto simp: class_add_def)

lemma distinct_class_remove [simp]: "distinct cs \<Longrightarrow> distinct (class_remove c cs)"
  by (simp add: class_remove_def)

end
