(* ===== verification/SearchMarks.thy ===== *)
theory SearchMarks
  imports Dom
begin

text \<open>
  The marked words of a page that was reached from a search result, the end of \<open>doSearchOrMarkFromUrl\<close> in
  \<open>src/docs/searcher-c2a407aa.js\<close>: a click on a mark fades all of them out and removes them after a while. The \<open>mark\<close>
  elements have numbers; which elements there are after \<open>marker.mark\<close>, a function of a library, is a parameter. The lemmas show
  that a click on any mark takes all marks away.
\<close>

record marks_page =
  mk_elements :: "nat list" \<comment> \<open>the \<open>mark\<close> elements of the document\<close>
  mk_hides :: "nat list list" \<comment> \<open>the \<open>markers\<close> of each \<open>hide\<close> that was set up\<close>
  mk_faded :: "nat set" \<comment> \<open>elements with class \<open>fade-out\<close>\<close>
  mk_timers :: nat \<comment> \<open>timeouts that are still to come\<close>

definition no_marks :: marks_page where
  "no_marks = \<lparr>mk_elements = [], mk_hides = [], mk_faded = {}, mk_timers = 0\<rparr>"

text \<open>After marking, every element there is gets a listener of its own.\<close>

definition mark_words :: "(string list \<Rightarrow> nat list \<Rightarrow> nat list) \<Rightarrow> string list \<Rightarrow> marks_page \<Rightarrow> marks_page" where
  "mark_words mark words p =
     (let markers = mark words (mk_elements p) in p\<lparr>mk_elements := markers, mk_hides := mk_hides p @ [markers]\<rparr>)"

text \<open>\<open>hide\<close>: each of its markers fades and starts a timeout, whether it is still in the document or not.\<close>

definition hide_marks :: "nat list \<Rightarrow> marks_page \<Rightarrow> marks_page" where
  "hide_marks markers p = p\<lparr>mk_faded := mk_faded p \<union> set markers, mk_timers := mk_timers p + length markers\<rparr>"

text \<open>A click on an element runs every \<open>hide\<close> that was added to it.\<close>

definition click_mark :: "nat \<Rightarrow> marks_page \<Rightarrow> marks_page" where
  "click_mark i p = (if i \<in> set (mk_elements p) then fold hide_marks (filter (\<lambda>markers. i \<in> set markers) (mk_hides p)) p else p)"

text \<open>A timeout: \<open>unmark\<close> takes every mark out of the document.\<close>

definition mark_timeout :: "marks_page \<Rightarrow> marks_page" where
  "mark_timeout p = (if mk_timers p = 0 then p else p\<lparr>mk_elements := [], mk_timers := mk_timers p - 1\<rparr>)"

datatype mark_event = MarkWords "string list" | ClickMark nat | MarkTimeout

primrec mark_handle :: "(string list \<Rightarrow> nat list \<Rightarrow> nat list) \<Rightarrow> mark_event \<Rightarrow> marks_page \<Rightarrow> marks_page outcome" where
  "mark_handle mark (MarkWords words) p = js_ok (mark_words mark words p)"
| "mark_handle mark (ClickMark i) p = js_ok (click_mark i p)"
| "mark_handle mark MarkTimeout p = js_ok (mark_timeout p)"

section \<open>Lemmas\<close>

text \<open>The elements that are there were all given the last listener.\<close>

definition marks_inv :: "marks_page \<Rightarrow> bool" where
  "marks_inv p \<longleftrightarrow> mk_elements p = [] \<or> mk_elements p \<in> set (mk_hides p)"

lemma hide_marks_fold:
  "mk_elements (fold hide_marks hs p) = mk_elements p" "mk_hides (fold hide_marks hs p) = mk_hides p"
  "mk_faded (fold hide_marks hs p) = mk_faded p \<union> \<Union> (set ` set hs)"
  "mk_timers (fold hide_marks hs p) = mk_timers p + sum_list (map length hs)"
  by (induction hs arbitrary: p) (auto simp: hide_marks_def)

lemma marks_inv_handle: "marks_inv p \<Longrightarrow> marks_inv (fst (mark_handle mark e p))"
  by (cases e) (auto simp: marks_inv_def mark_words_def click_mark_def mark_timeout_def hide_marks_fold Let_def)

interpretation mark_script: page_script "mark_handle mark" marks_inv for mark
  by unfold_locales (rule marks_inv_handle)

text \<open>
  One click is enough: at any time of a page, a click on any of its marks fades every mark there is, and the first timeout
  then removes them all.
\<close>

theorem click_removes_marks:
  assumes "p = run_events (mark_handle mark) es no_marks" and "i \<in> set (mk_elements p)"
  shows "set (mk_elements p) \<subseteq> mk_faded (click_mark i p) \<and> mk_elements (mark_timeout (click_mark i p)) = []"
proof -
  have "marks_inv p" unfolding assms(1) by (rule mark_script.run_keeps) (simp add: marks_inv_def no_marks_def)
  then have last: "mk_elements p \<in> set (filter (\<lambda>markers. i \<in> set markers) (mk_hides p))"
    using assms(2) by (auto simp: marks_inv_def)
  then have "length (mk_elements p) \<le> sum_list (map length (filter (\<lambda>markers. i \<in> set markers) (mk_hides p)))"
    by (intro member_le_sum_list) auto
  moreover have "0 < length (mk_elements p)" using assms(2) by (cases "mk_elements p") auto
  ultimately show ?thesis using last assms(2) by (auto simp: click_mark_def hide_marks_fold mark_timeout_def)
qed

end
