(* ===== verification/Toc.thy ===== *)
theory Toc
  imports Complex_Main Obi_Prelude
begin

text \<open>
  The sidebar script of the documentation, \<open>src/docs/toc-08fdb426.js\<close>: the outline of a page's
  headers that is built into the sidebar, the moving threshold line that decides which header is
  current while scrolling, and the marking of the current header and of the active page. The DOM
  nodes the script creates live in an explicit store, a list indexed by creation order, with parent
  and child links; pixel values are rational numbers (rounding of the floating point arithmetic is
  not modelled). The lemmas show that every header's item is nested in the item of the closest
  earlier header of a higher rank, that the threshold stays on the screen, and that at most one
  header is current.
\<close>

section \<open>Headers and the node store\<close>

datatype tag = H2 | H3 | H4 | H5 | H6

primrec level_of :: "tag \<Rightarrow> nat" where
  "level_of H2 = 2"
| "level_of H3 = 3"
| "level_of H4 = 4"
| "level_of H5 = 5"
| "level_of H6 = 6"

record header =
  h_tag :: tag
  h_id :: string
  h_first_child :: "string option" \<comment> \<open>tag name of the first child element\<close>

definition page_headers :: "header list \<Rightarrow> header list" where
  "page_headers hs = filter (\<lambda>h. h_id h \<noteq> [] \<and> h_first_child h = Some ''A'') hs"

datatype node_kind =
    Ol
  | Li nat \<comment> \<open>the item of the header with this index\<close>

record node =
  n_kind :: node_kind
  n_parent :: "nat option"
  n_children :: "nat list"
  n_href :: string
  n_expanded :: bool
  n_toggle :: bool \<comment> \<open>the item has a fold toggle\<close>

type_synonym dom = "node list"

text \<open>\<open>createElement\<close>: a node without parent and children; its name is its place in the store.\<close>

definition create_ol :: "dom \<Rightarrow> nat \<times> dom" where
  "create_ol d =
     (length d, d @ [\<lparr>n_kind = Ol, n_parent = None, n_children = [], n_href = [],
                      n_expanded = False, n_toggle = False\<rparr>])"

definition create_li :: "nat \<Rightarrow> header \<Rightarrow> bool \<Rightarrow> dom \<Rightarrow> nat \<times> dom" where
  "create_li i h toggle d =
     (length d, d @ [\<lparr>n_kind = Li i, n_parent = None, n_children = [], n_href = ''#'' @ h_id h,
                      n_expanded = True, n_toggle = toggle\<rparr>])"

definition appendChild :: "nat \<Rightarrow> nat \<Rightarrow> dom \<Rightarrow> dom" where
  "appendChild parent child d =
     (let d1 = d[parent := (d ! parent)\<lparr>n_children := n_children (d ! parent) @ [child]\<rparr>]
      in d1[child := (d1 ! child)\<lparr>n_parent := Some parent\<rparr>])"

definition lastChild :: "nat \<Rightarrow> dom \<Rightarrow> nat option" where
  "lastChild i d = (if n_children (d ! i) = [] then None else Some (last (n_children (d ! i))))"

section \<open>The outline\<close>

text \<open>The state of the loop: the store, the stack (its top first) and \<open>headerToggles\<close>.\<close>

record outline =
  o_dom :: dom
  o_stack :: "(nat \<times> nat) list" \<comment> \<open>level and list node\<close>
  o_toggles :: "nat list"

text \<open>The initial lists, one for each level from 2 up to that of the first header.\<close>

fun initial_lists :: "nat \<Rightarrow> nat \<Rightarrow> outline \<Rightarrow> outline" where
  "initial_lists i 0 st = st"
| "initial_lists i (Suc n) st =
     (let (ol, d) = create_ol (o_dom st);
          d' = (case o_stack st of [] \<Rightarrow> d | (_, outer) # _ \<Rightarrow> appendChild outer ol d)
      in initial_lists (i + 1) n (st\<lparr>o_dom := d', o_stack := (i + 1, ol) # o_stack st\<rparr>))"

definition foldLevel :: nat where
  "foldLevel = 3"

text \<open>\<open>for (nextLevel = currentLevel + 1; nextLevel <= level; nextLevel++)\<close>, \<open>n\<close> turns.\<close>

fun nest_lists :: "nat \<Rightarrow> nat \<Rightarrow> outline \<Rightarrow> outline" where
  "nest_lists nextLevel 0 st = st"
| "nest_lists nextLevel (Suc n) st =
     (let (ol, d) = create_ol (o_dom st);
          last_ol = snd (hd (o_stack st));
          d' = (case lastChild last_ol d of
                  Some child \<Rightarrow> appendChild child ol d
                | None \<Rightarrow> appendChild last_ol ol d)
      in nest_lists (nextLevel + 1) n (st\<lparr>o_dom := d', o_stack := (nextLevel, ol) # o_stack st\<rparr>))"

fun pop_above :: "nat \<Rightarrow> (nat \<times> nat) list \<Rightarrow> (nat \<times> nat) list" where
  "pop_above level (topmost # below # rest) =
     (if fst topmost > level then pop_above level (below # rest) else topmost # below # rest)"
| "pop_above level stack = stack"

definition adjust_stack :: "nat \<Rightarrow> outline \<Rightarrow> outline" where
  "adjust_stack level st =
     (let currentLevel = fst (hd (o_stack st)) in
      if level > currentLevel then nest_lists (currentLevel + 1) (level - currentLevel) st
      else if level < currentLevel then st\<lparr>o_stack := pop_above level (o_stack st)\<rparr>
      else st)"

definition needs_toggle :: "header list \<Rightarrow> nat \<Rightarrow> bool" where
  "needs_toggle hs i \<longleftrightarrow>
     i + 1 < length hs \<and> level_of (h_tag (hs ! (i + 1))) > level_of (h_tag (hs ! i)) \<and>
     level_of (h_tag (hs ! i)) \<ge> foldLevel"

definition add_header :: "header list \<Rightarrow> nat \<Rightarrow> outline \<Rightarrow> outline" where
  "add_header hs i st =
     (let h = hs ! i;
          st1 = adjust_stack (level_of (h_tag h)) st;
          (li, d) = create_li i h (needs_toggle hs i) (o_dom st1)
      in st1\<lparr>o_dom := appendChild (snd (hd (o_stack st1))) li d,
             o_toggles := o_toggles st1 @ (if needs_toggle hs i then [li] else [])\<rparr>)"

definition empty_outline :: outline where
  "empty_outline = \<lparr>o_dom = [], o_stack = [], o_toggles = []\<rparr>"

text \<open>The loop over the headers up to index \<open>n\<close>; \<open>None\<close> is the early return without headers.\<close>

definition start_outline :: "header list \<Rightarrow> outline" where
  "start_outline hs = initial_lists 1 (level_of (h_tag (hs ! 0)) - 1) empty_outline"

fun add_headers :: "header list \<Rightarrow> nat \<Rightarrow> outline" where
  "add_headers hs 0 = start_outline hs"
| "add_headers hs (Suc n) = add_header hs n (add_headers hs n)"

definition build_outline :: "header list \<Rightarrow> outline option" where
  "build_outline hs = (if hs = [] then None else Some (add_headers hs (length hs)))"

section \<open>The threshold\<close>

definition defaultDownThreshold :: rat where
  "defaultDownThreshold = 150"

definition defaultUpThreshold :: rat where
  "defaultUpThreshold = 300"

record scroll_state =
  lastKnownScrollPosition :: rat
  threshold :: rat
  disableScroll :: bool

record viewport =
  scrollTop :: rat
  windowHeight :: rat
  documentHeight :: rat

definition adjusted_bottom_add :: "viewport \<Rightarrow> rat" where
  "adjusted_bottom_add v =
     (let pixelsBelow = max 0 (documentHeight v - (scrollTop v + windowHeight v));
          bottomAdd = max 0 (windowHeight v - pixelsBelow - defaultDownThreshold)
      in if documentHeight v < windowHeight v * 2 then
           (let maxPixelsBelow = documentHeight v - windowHeight v;
                t = 1 - pixelsBelow / max 1 maxPixelsBelow;
                clamp = max 0 (min 1 t)
            in bottomAdd * clamp)
         else bottomAdd)"

definition updateThreshold :: "viewport \<Rightarrow> scroll_state \<Rightarrow> scroll_state" where
  "updateThreshold v s =
     (let pixelsAbove = max 0 (defaultDownThreshold - scrollTop v);
          adjustedBottomAdd = adjusted_bottom_add v;
          t1 =
            (if \<not> scrollTop v < lastKnownScrollPosition s then
               (let amountScrolledDown = scrollTop v - lastKnownScrollPosition s;
                    adjustedDefault = defaultDownThreshold + adjustedBottomAdd
                in max adjustedDefault (threshold s - amountScrolledDown))
             else
               (let amountScrolledUp = lastKnownScrollPosition s - scrollTop v;
                    adjustedDefault = defaultUpThreshold - pixelsAbove
                      + max 0 (adjustedBottomAdd - defaultDownThreshold)
                in min adjustedDefault (threshold s + amountScrolledUp)));
          t2 = (if documentHeight v \<le> windowHeight v then 0 else t1)
      in s\<lparr>threshold := t2, lastKnownScrollPosition := scrollTop v\<rparr>)"

section \<open>The current header\<close>

text \<open>
  The loop over the headers with a \<open>break\<close>: the last header of the leading ones whose top edge is
  at or above the line. \<open>tops\<close> are the positions of the headers on the screen.
\<close>

fun last_above :: "rat \<Rightarrow> rat list \<Rightarrow> nat \<Rightarrow> nat option \<Rightarrow> nat option" where
  "last_above line [] i best = best"
| "last_above line (t # ts) i best = (if t \<le> line then last_above line ts (i + 1) (Some i) else best)"

definition find_current :: "rat \<Rightarrow> rat \<Rightarrow> rat list \<Rightarrow> nat option" where
  "find_current line window tops =
     (case last_above line tops 0 None of
        Some i \<Rightarrow> Some i
      | None \<Rightarrow> if tops ! 0 \<ge> window then None else Some 0)"

text \<open>
  The links in the sidebar as \<open>updateCurrentHeader\<close> sees them: target and class \<open>current-header\<close>.
  \<open>getElementsByClassName\<close> is live: taking the class from an element removes it from the collection
  that the loop walks over by index, so the following element is skipped.
\<close>

record summary_link =
  s_href :: string
  s_current :: bool

fun clear_live :: "bool \<Rightarrow> summary_link list \<Rightarrow> summary_link list" where
  "clear_live skip [] = []"
| "clear_live skip (l # ls) =
     (if \<not> s_current l then l # clear_live skip ls
      else if skip then l # clear_live False ls
      else l\<lparr>s_current := False\<rparr> # clear_live True ls)"

fun find_href :: "string \<Rightarrow> summary_link list \<Rightarrow> nat option" where
  "find_href href [] = None"
| "find_href href (l # ls) = (if s_href l = href then Some 0 else map_option Suc (find_href href ls))"

definition updateCurrentHeader ::
  "header list \<Rightarrow> rat list \<Rightarrow> rat \<Rightarrow> rat \<Rightarrow> summary_link list \<Rightarrow> summary_link list" where
  "updateCurrentHeader hs tops window line links =
     (if hs = [] then links
      else
        (let cleared = clear_live False links in
         case find_current line window tops of
           None \<Rightarrow> cleared
         | Some i \<Rightarrow>
             (case find_href (''#'' @ h_id (hs ! i)) cleared of
                None \<Rightarrow> cleared
              | Some k \<Rightarrow> cleared[k := (cleared ! k)\<lparr>s_current := True\<rparr>])))"

text \<open>\<open>headerThresholdClick\<close>: scrolling is ignored for 100 ms and the line moves below the target.\<close>

record toc_page =
  t_headers :: "header list"
  t_scroll :: scroll_state
  t_links :: "summary_link list"

datatype toc_event =
    Scroll viewport "rat list" \<comment> \<open>a scroll event, with the header positions then\<close>
  | HeaderClick \<comment> \<open>a click on a header link in the sidebar\<close>
  | ClickFrame "rat option" rat "rat list" \<comment> \<open>its second animation frame: bottom of the target\<close>
  | ClickTimeout \<comment> \<open>100 ms after the click\<close>

definition reloadCurrentHeader :: "viewport \<Rightarrow> rat list \<Rightarrow> toc_page \<Rightarrow> toc_page" where
  "reloadCurrentHeader v tops p =
     (if disableScroll (t_scroll p) then p
      else
        (let s = updateThreshold v (t_scroll p)
         in p\<lparr>t_scroll := s,
              t_links := updateCurrentHeader (t_headers p) tops (windowHeight v) (threshold s) (t_links p)\<rparr>))"

definition toc_step :: "toc_event \<Rightarrow> toc_page \<Rightarrow> toc_page" where
  "toc_step ev p =
     (case ev of
        Scroll v tops \<Rightarrow> reloadCurrentHeader v tops p
      | HeaderClick \<Rightarrow> p\<lparr>t_scroll := (t_scroll p)\<lparr>disableScroll := True\<rparr>\<rparr>
      | ClickTimeout \<Rightarrow> p\<lparr>t_scroll := (t_scroll p)\<lparr>disableScroll := False\<rparr>\<rparr>
      | ClickFrame target window tops \<Rightarrow>
          (case target of
             None \<Rightarrow> p
           | Some bottom \<Rightarrow>
               p\<lparr>t_scroll := (t_scroll p)\<lparr>threshold := bottom\<rparr>,
                 t_links := updateCurrentHeader (t_headers p) tops window bottom (t_links p)\<rparr>))"

section \<open>Lemmas: the outline\<close>

text \<open>The header whose item encloses a node most closely.\<close>

function enclosing :: "dom \<Rightarrow> nat \<Rightarrow> nat option" where
  "enclosing d i =
     (case n_parent (d ! i) of
        Some p \<Rightarrow>
          if p < i then (case n_kind (d ! p) of Li h \<Rightarrow> Some h | Ol \<Rightarrow> enclosing d p) else None
      | None \<Rightarrow> None)"
  by pat_completeness auto
termination
  by (relation "measure snd") auto

declare enclosing.simps [simp del]

text \<open>The specification: the closest earlier header of a higher rank.\<close>

fun last_lower :: "header list \<Rightarrow> nat \<Rightarrow> nat \<Rightarrow> nat option" where
  "last_lower hs 0 level = None"
| "last_lower hs (Suc n) level =
     (if level_of (h_tag (hs ! n)) < level then Some n else last_lower hs n level)"

definition same_links :: "dom \<Rightarrow> dom \<Rightarrow> bool" where
  "same_links d d' \<longleftrightarrow> length d \<le> length d' \<and>
     (\<forall>j<length d. n_kind (d' ! j) = n_kind (d ! j) \<and> n_parent (d' ! j) = n_parent (d ! j) \<and>
        n_href (d' ! j) = n_href (d ! j))"

lemma enclosing_same:
  assumes "same_links d d'"
  shows "i < length d \<Longrightarrow> enclosing d' i = enclosing d i"
proof (induction i rule: less_induct)
  case (less i)
  show ?case
  proof (cases "n_parent (d ! i)")
    case None
    then show ?thesis
      using assms less.prems by (simp add: enclosing.simps [of _ i] same_links_def)
  next
    case (Some p)
    then show ?thesis
      using assms less by (auto simp: enclosing.simps [of _ i] same_links_def split: node_kind.splits)
  qed
qed

text \<open>A new node appended to an old one.\<close>

definition insert_node :: "nat \<Rightarrow> node \<Rightarrow> dom \<Rightarrow> dom" where
  "insert_node p nd d = appendChild p (length d) (d @ [nd])"

lemma insert_node_facts:
  assumes "p < length d"
  shows "length (insert_node p nd d) = Suc (length d)"
    and "same_links d (insert_node p nd d)"
    and "n_kind (insert_node p nd d ! length d) = n_kind nd"
    and "n_href (insert_node p nd d ! length d) = n_href nd"
    and "n_parent (insert_node p nd d ! length d) = Some p"
    and "n_children (insert_node p nd d ! length d) = n_children nd"
    and "n_children (insert_node p nd d ! p) = n_children (d ! p) @ [length d]"
  using assms
  by (auto simp: insert_node_def appendChild_def Let_def same_links_def nth_list_update nth_append)

lemma enclosing_new:
  assumes "p < length d"
  shows "enclosing (insert_node p nd d) (length d) =
     (case n_kind (d ! p) of Li h \<Rightarrow> Some h | Ol \<Rightarrow> enclosing d p)"
  using insert_node_facts [OF assms, of nd] enclosing_same [OF _ assms, of "insert_node p nd d"] assms
  by (auto simp: enclosing.simps [of _ "length d"] same_links_def split: node_kind.splits)

text \<open>
  The invariant of the loop after \<open>i\<close> headers: the stack has the levels from 2 upwards without gaps,
  each of its lists is enclosed by the last header of a higher rank, and so is every item.
\<close>

definition lists_ok :: "header list \<Rightarrow> nat \<Rightarrow> outline \<Rightarrow> bool" where
  "lists_ok hs i st \<longleftrightarrow>
     o_stack st \<noteq> [] \<and> map fst (o_stack st) = rev [2..<length (o_stack st) + 2] \<and>
     (\<forall>(l, ol) \<in> set (o_stack st). ol < length (o_dom st) \<and> n_kind (o_dom st ! ol) = Ol \<and>
        enclosing (o_dom st) ol = last_lower hs i l)"

definition items_ok :: "header list \<Rightarrow> nat \<Rightarrow> dom \<Rightarrow> bool" where
  "items_ok hs i d \<longleftrightarrow>
     (\<forall>j<i. \<exists>k<length d. n_kind (d ! k) = Li j) \<and>
     (\<forall>k<length d. \<forall>k'<length d. \<forall>j. n_kind (d ! k) = Li j \<longrightarrow> n_kind (d ! k') = Li j \<longrightarrow> k = k') \<and>
     (\<forall>k<length d. \<forall>j. n_kind (d ! k) = Li j \<longrightarrow>
        j < i \<and> enclosing d k = last_lower hs j (level_of (h_tag (hs ! j))) \<and>
        n_href (d ! k) = ''#'' @ h_id (hs ! j))"

definition top_ok :: "header list \<Rightarrow> nat \<Rightarrow> outline \<Rightarrow> bool" where
  "top_ok hs i st \<longleftrightarrow>
     (if i = 0 then fst (hd (o_stack st)) = level_of (h_tag (hs ! 0))
      else fst (hd (o_stack st)) = level_of (h_tag (hs ! (i - 1))) \<and>
        (\<exists>c. lastChild (snd (hd (o_stack st))) (o_dom st) = Some c \<and> c < length (o_dom st) \<and>
           n_kind (o_dom st ! c) = Li (i - 1)))"

lemma level_of_range: "2 \<le> level_of t \<and> level_of t \<le> 6"
  by (cases t) auto

lemma stack_top_level:
  "map fst stack = rev [2..<length stack + 2] \<Longrightarrow> stack \<noteq> [] \<Longrightarrow>
     fst (hd stack) = length stack + 1 \<and> (\<forall>(l, ol) \<in> set stack. 2 \<le> l \<and> l \<le> length stack + 1)"
proof -
  assume lv: "map fst stack = rev [2..<length stack + 2]" and ne: "stack \<noteq> []"
  have "hd (map fst stack) = length stack + 1"
    unfolding lv using ne by (cases stack) (simp_all add: hd_rev)
  moreover have "2 \<le> l \<and> l \<le> length stack + 1" if "(l, ol) \<in> set stack" for l ol
  proof -
    have "l \<in> set (map fst stack)" using that by force
    then show ?thesis unfolding lv by (simp del: upt_Suc)
  qed
  ultimately show ?thesis using ne by (auto simp: hd_map)
qed

lemma lists_ok_member:
  "lists_ok hs i st \<Longrightarrow> x \<in> set (o_stack st) \<Longrightarrow>
     snd x < length (o_dom st) \<and> n_kind (o_dom st ! snd x) = Ol \<and>
     enclosing (o_dom st) (snd x) = last_lower hs i (fst x)"
  by (auto simp: lists_ok_def case_prod_unfold simp del: upt_Suc)

lemma lists_ok_hd: "lists_ok hs i st \<Longrightarrow> hd (o_stack st) \<in> set (o_stack st)"
  by (simp add: lists_ok_def)

lemmas lists_ok_top = lists_ok_member [OF _ lists_ok_hd]

lemma lists_ok_push:
  assumes "lists_ok hs i st" and "p < length (o_dom st)"
    and "enclosing (insert_node p nd (o_dom st)) (length (o_dom st)) =
      last_lower hs i (length (o_stack st) + 2)"
    and "n_kind nd = Ol"
  shows "lists_ok hs i (st\<lparr>o_dom := insert_node p nd (o_dom st),
     o_stack := (length (o_stack st) + 2, length (o_dom st)) # o_stack st\<rparr>)"
proof -
  note facts = insert_node_facts [OF assms(2), of nd]
  have "map fst (o_stack st) = rev [2..<length (o_stack st) + 2]"
    using assms(1) by (simp add: lists_ok_def)
  moreover have "enclosing (insert_node p nd (o_dom st)) ol = enclosing (o_dom st) ol"
    if "ol < length (o_dom st)" for ol
    using enclosing_same [OF facts(2) that] .
  ultimately show ?thesis
    using assms facts by (auto simp: lists_ok_def same_links_def)
qed

text \<open>Items keep their place when a node is added, and a new item gets its own.\<close>

lemma items_ok_insert:
  assumes "items_ok hs i d" and "p < length d"
    and "n_kind nd = Ol \<and> i' = i \<or>
      n_kind nd = Li i \<and> i' = Suc i \<and> n_href nd = ''#'' @ h_id (hs ! i) \<and>
      enclosing (insert_node p nd d) (length d) = last_lower hs i (level_of (h_tag (hs ! i)))"
  shows "items_ok hs i' (insert_node p nd d)"
proof -
  let ?d = "insert_node p nd d"
  note facts = insert_node_facts [OF assms(2), of nd]
  have old: "n_kind (?d ! k) = n_kind (d ! k)" "n_href (?d ! k) = n_href (d ! k)"
    "enclosing ?d k = enclosing d k" if "k < length d" for k
    using facts(2) enclosing_same [OF facts(2) that] that by (simp_all add: same_links_def)
  have new: "k = length d" if "k < length ?d" "\<not> k < length d" for k
    using that facts(1) by simp
  have "\<exists>k<length ?d. n_kind (?d ! k) = Li j" if "j < i'" for j
  proof (cases "j < i")
    case True
    then obtain k where "k < length d" "n_kind (d ! k) = Li j"
      using assms(1) by (auto simp: items_ok_def)
    with old facts(1) show ?thesis by (metis less_SucI)
  next
    case False
    with that assms(3) have "n_kind (?d ! length d) = Li j" using facts(3) by auto
    with facts(1) show ?thesis by auto
  qed
  moreover have "k = k'" if "k < length ?d" "k' < length ?d" "n_kind (?d ! k) = Li j"
    "n_kind (?d ! k') = Li j" for k k' j
  proof -
    have fresh: "n_kind (d ! m) \<noteq> n_kind nd" if "m < length d" "n_kind nd = Li j" for m
    proof
      assume "n_kind (d ! m) = n_kind nd"
      with that assms(3) have "n_kind (d ! m) = Li i" by auto
      with \<open>m < length d\<close> assms(1) have "i < i" unfolding items_ok_def by blast
      then show False by simp
    qed
    show ?thesis
    proof (cases "k < length d"; cases "k' < length d")
      assume "k < length d" "k' < length d"
      with that old(1) assms(1) show ?thesis unfolding items_ok_def by metis
    next
      assume k: "k < length d" "\<not> k' < length d"
      with new that(2) have "k' = length d" by blast
      with fresh [of k] k that(3,4) old(1) facts(3) show ?thesis by simp
    next
      assume k: "\<not> k < length d" "k' < length d"
      with new that(1) have "k = length d" by blast
      with fresh [of k'] k that(3,4) old(1) facts(3) show ?thesis by simp
    next
      assume "\<not> k < length d" "\<not> k' < length d"
      with new that(1,2) show ?thesis by blast
    qed
  qed
  moreover have "j < i' \<and> enclosing ?d k = last_lower hs j (level_of (h_tag (hs ! j))) \<and>
      n_href (?d ! k) = ''#'' @ h_id (hs ! j)" if "k < length ?d" "n_kind (?d ! k) = Li j" for k j
  proof (cases "k < length d")
    case True
    with that(2) old have "n_kind (d ! k) = Li j" by simp
    with True assms(1) have "j < i \<and> enclosing d k = last_lower hs j (level_of (h_tag (hs ! j))) \<and>
        n_href (d ! k) = ''#'' @ h_id (hs ! j)"
      unfolding items_ok_def by simp
    moreover have "i \<le> i'" using assms(3) by auto
    ultimately show ?thesis using old [OF True] by simp
  next
    case False
    with new that have "k = length d" by blast
    with that assms(3) facts(3,4) show ?thesis by auto
  qed
  ultimately show ?thesis unfolding items_ok_def by blast
qed

lemma nest_lists_ok:
  assumes "lists_ok hs i st" and "items_ok hs i (o_dom st)" and "0 < i"
    and "level_of (h_tag (hs ! (i - 1))) < length (o_stack st) + 2"
    and "(\<exists>c. lastChild (snd (hd (o_stack st))) (o_dom st) = Some c \<and> c < length (o_dom st) \<and>
            n_kind (o_dom st ! c) = Li (i - 1)) \<or>
         lastChild (snd (hd (o_stack st))) (o_dom st) = None \<and>
         enclosing (o_dom st) (snd (hd (o_stack st))) = Some (i - 1)"
    and "st' = nest_lists (length (o_stack st) + 2) n st"
  shows "lists_ok hs i st' \<and> items_ok hs i (o_dom st') \<and>
     length (o_stack st') = length (o_stack st) + n"
  using assms
proof (induction n arbitrary: st)
  case 0
  then show ?case by simp
next
  case (Suc n)
  define d where "d = o_dom st"
  define ol where "ol = snd (hd (o_stack st))"
  define nd where "nd = \<lparr>n_kind = Ol, n_parent = None, n_children = [], n_href = [],
      n_expanded = False, n_toggle = False\<rparr>"
  define p where "p = (case lastChild ol d of Some c \<Rightarrow> c | None \<Rightarrow> ol)"
  define st1 where "st1 = st\<lparr>o_dom := insert_node p nd d,
      o_stack := (length (o_stack st) + 2, length d) # o_stack st\<rparr>"
  have ol: "ol < length d" "n_kind (d ! ol) = Ol"
    using lists_ok_top [OF Suc.prems(1) Suc.prems(1)] by (simp_all add: ol_def d_def)
  then have p: "p < length d" and encl: "enclosing (insert_node p nd d) (length d) = Some (i - 1)"
    using Suc.prems(5) enclosing_new [of _ d nd] by (auto simp: p_def d_def ol_def)
  have low: "last_lower hs i l = Some (i - 1)" if "level_of (h_tag (hs ! (i - 1))) < l" for l
    using that Suc.prems(3) by (cases i) auto
  have "lastChild ol (d @ [nd]) = lastChild ol d"
    using ol by (simp add: lastChild_def nth_append)
  then have step: "nest_lists (length (o_stack st) + 2) (Suc n) st =
      nest_lists (length (o_stack st1) + 2) n st1"
    by (auto simp: create_ol_def st1_def insert_node_def p_def ol_def d_def nd_def Let_def
        split: option.splits)
  have "lists_ok hs i st1"
    using lists_ok_push [OF Suc.prems(1), of p nd] p encl low [OF Suc.prems(4)]
    by (simp add: st1_def d_def nd_def)
  moreover have "items_ok hs i (o_dom st1)"
    using items_ok_insert [OF _ p, of hs i nd i] Suc.prems(2) by (simp add: st1_def d_def nd_def)
  moreover have "lastChild (snd (hd (o_stack st1))) (o_dom st1) = None \<and>
      enclosing (o_dom st1) (snd (hd (o_stack st1))) = Some (i - 1)"
    using encl insert_node_facts(6) [OF p, of nd] by (simp add: st1_def lastChild_def nd_def)
  ultimately show ?case
    using Suc.IH [of st1] Suc.prems(3,4,6) step by (simp add: st1_def)
qed

lemma rev_upt_Suc: "2 \<le> n \<Longrightarrow> rev [2..<Suc n] = n # rev [2..<n]"
  by simp

lemma pop_above_ok:
  assumes "map fst stack = rev [2..<length stack + 2]" and "2 \<le> level"
    and "level \<le> length stack + 1"
  shows "map fst (pop_above level stack) = rev [2..<length (pop_above level stack) + 2] \<and>
     length (pop_above level stack) = level - 1 \<and> set (pop_above level stack) \<subseteq> set stack"
  using assms
proof (induction level stack rule: pop_above.induct)
  case (1 level topmost below rest)
  let ?stack = "below # rest"
  have "map fst (topmost # ?stack) = rev [2..<Suc (length ?stack + 2)]"
    using 1(2) by simp
  then have "fst topmost # map fst ?stack = (length ?stack + 2) # rev [2..<length ?stack + 2]"
    by (simp only: rev_upt_Suc list.map)
  then have hd: "fst topmost = length ?stack + 2" and tl: "map fst ?stack = rev [2..<length ?stack + 2]"
    by (simp_all del: upt_Suc list.map list.size)
  show ?case
  proof (cases "fst topmost > level")
    case True
    with 1(1) [OF True tl 1(3)] hd show ?thesis by (auto simp del: upt_Suc)
  next
    case False
    with hd 1(4) have "level = length ?stack + 2" by simp
    with False 1(2) show ?thesis by (simp del: upt_Suc)
  qed
qed auto

lemma lists_ok_top_level:
  "lists_ok hs i st \<Longrightarrow> fst (hd (o_stack st)) = length (o_stack st) + 1"
  using stack_top_level by (auto simp: lists_ok_def simp del: upt_Suc)

definition outline_inv :: "header list \<Rightarrow> nat \<Rightarrow> outline \<Rightarrow> bool" where
  "outline_inv hs i st \<longleftrightarrow> lists_ok hs i st \<and> items_ok hs i (o_dom st) \<and> top_ok hs i st"

lemma adjust_stack_ok:
  assumes "outline_inv hs i st" and "level = level_of (h_tag (hs ! i))"
    and "st' = adjust_stack level st"
  shows "lists_ok hs i st' \<and> items_ok hs i (o_dom st') \<and> length (o_stack st') + 1 = level"
proof -
  let ?n = "length (o_stack st)"
  have ok: "lists_ok hs i st" "items_ok hs i (o_dom st)" "top_ok hs i st"
    using assms(1) by (auto simp: outline_inv_def)
  have cur: "fst (hd (o_stack st)) = ?n + 1" using lists_ok_top_level [OF ok(1)] .
  have l2: "2 \<le> level" using level_of_range assms(2) by simp
  consider "level > ?n + 1" | "level < ?n + 1" | "level = ?n + 1" by linarith
  then show ?thesis
  proof cases
    case 1
    have "i \<noteq> 0" using 1 ok(3) cur assms(2) by (cases "i = 0") (auto simp: top_ok_def)
    moreover from this have "level_of (h_tag (hs ! (i - 1))) < ?n + 2"
      using ok(3) cur by (simp add: top_ok_def)
    ultimately show ?thesis
      using nest_lists_ok [OF ok(1,2), of st' "level - (?n + 1)"] 1 ok(3) cur assms(3)
      by (auto simp: adjust_stack_def top_ok_def Let_def)
  next
    case 2
    have lv: "map fst (o_stack st) = rev [2..<?n + 2]" using ok(1) by (simp add: lists_ok_def)
    from pop_above_ok [OF lv l2] 2
    have pop: "map fst (pop_above level (o_stack st)) = rev [2..<length (pop_above level (o_stack st)) + 2]"
      "length (pop_above level (o_stack st)) = level - 1"
      "set (pop_above level (o_stack st)) \<subseteq> set (o_stack st)"
      by simp_all
    have st': "st' = st\<lparr>o_stack := pop_above level (o_stack st)\<rparr>"
      using 2 cur assms(3) by (simp add: adjust_stack_def)
    have "lists_ok hs i st'"
      using ok(1) pop l2 unfolding lists_ok_def st' by (auto simp del: upt_Suc)
    with pop(2) l2 ok(2) show ?thesis by (simp add: st')
  next
    case 3
    then have "st' = st" using cur assms(3) by (simp add: adjust_stack_def)
    with 3 ok show ?thesis by simp
  qed
qed

lemma last_lower_not: "l \<le> level_of (h_tag (hs ! i)) \<Longrightarrow> last_lower hs (Suc i) l = last_lower hs i l"
  by simp

lemma add_header_ok:
  assumes "outline_inv hs i st"
  shows "outline_inv hs (Suc i) (add_header hs i st)"
proof -
  define level where "level = level_of (h_tag (hs ! i))"
  define st1 where "st1 = adjust_stack level st"
  define ol where "ol = snd (hd (o_stack st1))"
  define nd where "nd = \<lparr>n_kind = Li i, n_parent = None, n_children = [], n_href = ''#'' @ h_id (hs ! i),
      n_expanded = True, n_toggle = needs_toggle hs i\<rparr>"
  define d where "d = o_dom st1"
  have ok: "lists_ok hs i st1" "items_ok hs i d" and len: "length (o_stack st1) + 1 = level"
    using adjust_stack_ok [OF assms level_def st1_def] by (auto simp: d_def)
  have ol: "ol < length d" "n_kind (d ! ol) = Ol" "enclosing d ol = last_lower hs i level"
    using lists_ok_top [OF ok(1) ok(1)] lists_ok_top_level [OF ok(1)] len
    by (simp_all add: ol_def d_def)
  note facts = insert_node_facts [OF ol(1), of nd]
  have new: "enclosing (insert_node ol nd d) (length d) = last_lower hs i level"
    using enclosing_new [OF ol(1), of nd] ol by simp
  have res: "add_header hs i st = st1\<lparr>o_dom := insert_node ol nd d,
      o_toggles := o_toggles st1 @ (if needs_toggle hs i then [length d] else [])\<rparr>"
    by (simp add: add_header_def create_li_def Let_def st1_def level_def nd_def d_def ol_def
        insert_node_def)
  have "items_ok hs (Suc i) (insert_node ol nd d)"
    using items_ok_insert [OF ok(2) ol(1), of nd "Suc i"] new by (simp add: nd_def level_def)
  moreover have "lists_ok hs (Suc i) (add_header hs i st)"
    unfolding lists_ok_def
  proof (intro conjI ballI)
    show "o_stack (add_header hs i st) \<noteq> []"
      and "map fst (o_stack (add_header hs i st)) = rev [2..<length (o_stack (add_header hs i st)) + 2]"
      using ok(1) by (simp_all add: res lists_ok_def del: upt_Suc)
    fix x assume "x \<in> set (o_stack (add_header hs i st))"
    then have x: "x \<in> set (o_stack st1)" by (simp add: res)
    have "fst x \<le> level"
      using ok(1) x stack_top_level [of "o_stack st1"] len
      by (auto simp: lists_ok_def case_prod_unfold simp del: upt_Suc)
    then have "last_lower hs (Suc i) (fst x) = last_lower hs i (fst x)"
      by (simp add: level_def)
    with lists_ok_member [OF ok(1) x] enclosing_same [OF facts(2)] facts(1,2)
    show "case x of (l, ol) \<Rightarrow> ol < length (o_dom (add_header hs i st)) \<and>
        n_kind (o_dom (add_header hs i st) ! ol) = Ol \<and>
        enclosing (o_dom (add_header hs i st)) ol = last_lower hs (Suc i) l"
      by (auto simp: res d_def same_links_def case_prod_unfold)
  qed
  moreover have "top_ok hs (Suc i) (add_header hs i st)"
    using lists_ok_top_level [OF ok(1)] len facts
    by (simp add: top_ok_def res ol_def [symmetric] lastChild_def level_def nd_def)
  ultimately show ?thesis by (simp add: outline_inv_def res)
qed

lemma initial_lists_ok:
  assumes "lists_ok hs 0 st" and "items_ok hs 0 (o_dom st)"
    and "st' = initial_lists (length (o_stack st) + 1) n st"
  shows "lists_ok hs 0 st' \<and> items_ok hs 0 (o_dom st') \<and> length (o_stack st') = length (o_stack st) + n"
  using assms
proof (induction n arbitrary: st)
  case (Suc n)
  define d where "d = o_dom st"
  define ol where "ol = snd (hd (o_stack st))"
  define nd where "nd = \<lparr>n_kind = Ol, n_parent = None, n_children = [], n_href = [],
      n_expanded = False, n_toggle = False\<rparr>"
  define st1 where "st1 = st\<lparr>o_dom := insert_node ol nd d,
      o_stack := (length (o_stack st) + 2, length d) # o_stack st\<rparr>"
  have ol: "ol < length d" "n_kind (d ! ol) = Ol" "enclosing d ol = None"
    using lists_ok_top [OF Suc.prems(1) Suc.prems(1)] by (simp_all add: ol_def d_def)
  have step: "initial_lists (length (o_stack st) + 1) (Suc n) st =
      initial_lists (length (o_stack st1) + 1) n st1"
    using Suc.prems(1)
    by (cases "o_stack st")
      (auto simp: create_ol_def st1_def insert_node_def ol_def d_def nd_def Let_def lists_ok_def)
  have "lists_ok hs 0 st1"
    using lists_ok_push [OF Suc.prems(1), of ol nd] ol enclosing_new [OF ol(1), of nd]
    by (simp add: st1_def d_def nd_def)
  moreover have "items_ok hs 0 (o_dom st1)"
    using items_ok_insert [OF _ ol(1), of hs 0 nd 0] Suc.prems(2) by (simp add: st1_def d_def nd_def)
  ultimately show ?case
    using Suc.IH [of st1] Suc.prems(3) step by (simp add: st1_def)
qed simp

lemma start_outline_ok:
  assumes "hs \<noteq> []"
  shows "outline_inv hs 0 (start_outline hs)"
proof -
  obtain m where m: "level_of (h_tag (hs ! 0)) = Suc (Suc m)"
    using level_of_range [of "h_tag (hs ! 0)"] by (metis Suc_le_D numeral_2_eq_2 Suc_le_mono)
  define nd where "nd = \<lparr>n_kind = Ol, n_parent = None, n_children = [], n_href = [],
      n_expanded = False, n_toggle = False\<rparr>"
  define st where "st = \<lparr>o_dom = [nd], o_stack = [(2, 0)], o_toggles = []\<rparr>"
  have "start_outline hs = initial_lists (length (o_stack st) + 1) m st"
    by (simp add: start_outline_def m create_ol_def empty_outline_def st_def nd_def Let_def
        numeral_2_eq_2)
  moreover have "lists_ok hs 0 st" "items_ok hs 0 (o_dom st)"
    by (simp_all add: lists_ok_def items_ok_def st_def nd_def enclosing.simps)
  ultimately have ok: "lists_ok hs 0 (start_outline hs) \<and> items_ok hs 0 (o_dom (start_outline hs)) \<and>
      length (o_stack (start_outline hs)) = Suc m"
    using initial_lists_ok [of hs st "start_outline hs" m] by (simp add: st_def)
  then show ?thesis
    using lists_ok_top_level [of hs 0 "start_outline hs"] m by (simp add: outline_inv_def top_ok_def)
qed

lemma add_headers_ok: "hs \<noteq> [] \<Longrightarrow> outline_inv hs n (add_headers hs n)"
  by (induction n) (simp_all add: start_outline_ok add_header_ok)

text \<open>What \<open>last_lower\<close> means.\<close>

lemma last_lower_iff:
  "last_lower hs n l = Some j \<longleftrightarrow>
     j < n \<and> level_of (h_tag (hs ! j)) < l \<and> (\<forall>k. j < k \<and> k < n \<longrightarrow> l \<le> level_of (h_tag (hs ! k)))"
proof (induction n)
  case (Suc n)
  show ?case
  proof (cases "level_of (h_tag (hs ! n)) < l")
    case True
    then show ?thesis by (auto simp: less_Suc_eq)
  next
    case False
    with Suc show ?thesis by (auto simp: less_Suc_eq)
  qed
qed simp

lemma last_lower_None:
  "last_lower hs n l = None \<longleftrightarrow> (\<forall>k<n. l \<le> level_of (h_tag (hs ! k)))"
  by (induction n) (auto simp: less_Suc_eq)

section \<open>Lemmas: the threshold\<close>

lemma adjusted_bottom_add_bounds:
  assumes "0 \<le> scrollTop v" and "150 \<le> windowHeight v"
  shows "0 \<le> adjusted_bottom_add v \<and> adjusted_bottom_add v \<le> windowHeight v - 150"
proof -
  define below where "below = max 0 (documentHeight v - (scrollTop v + windowHeight v))"
  define add where "add = max 0 (windowHeight v - below - 150)"
  define clamp where
    "clamp = max 0 (min 1 (1 - below / max 1 (documentHeight v - windowHeight v)))"
  have "0 \<le> add" "add \<le> windowHeight v - 150" using assms(2) by (auto simp: add_def below_def)
  moreover have "0 \<le> clamp" "clamp \<le> 1" by (auto simp: clamp_def)
  ultimately have "0 \<le> add * clamp" "add * clamp \<le> windowHeight v - 150"
    by (auto intro: mult_left_le order_trans)
  with \<open>0 \<le> add\<close> \<open>add \<le> windowHeight v - 150\<close> show ?thesis
    by (auto simp: adjusted_bottom_add_def Let_def defaultDownThreshold_def add_def below_def clamp_def)
qed

text \<open>The threshold line stays on the screen.\<close>

definition line_ok :: "rat \<Rightarrow> scroll_state \<Rightarrow> bool" where
  "line_ok window s \<longleftrightarrow> 0 \<le> threshold s \<and> threshold s \<le> max 300 window"

lemma updateThreshold_ok:
  assumes "line_ok (windowHeight v) s" and "0 \<le> scrollTop v" and "150 \<le> windowHeight v"
  shows "line_ok (windowHeight v) (updateThreshold v s)"
proof -
  define w add above b amount where "w = windowHeight v" and "add = adjusted_bottom_add v"
    and "above = max 0 (150 - scrollTop v)" and "b = 300 - above + max 0 (add - 150)"
    and "amount = scrollTop v - lastKnownScrollPosition s"
  have "0 \<le> add" "add \<le> w - 150"
    using adjusted_bottom_add_bounds [OF assms(2,3)] by (simp_all add: w_def add_def)
  moreover have "0 \<le> above" "above \<le> 150" using assms(2) by (auto simp: above_def)
  ultimately have b: "150 \<le> b" "b \<le> max 300 w" and a: "150 + add \<le> w"
    by (auto simp: b_def max_def)
  have th: "0 \<le> threshold s" "threshold s \<le> max 300 w"
    using assms(1) by (simp_all add: line_ok_def w_def)
  have "threshold (updateThreshold v s) = 0 \<or>
      0 \<le> amount \<and> threshold (updateThreshold v s) = max (150 + add) (threshold s - amount) \<or>
      amount < 0 \<and> threshold (updateThreshold v s) = min b (threshold s - amount)"
    by (auto simp: updateThreshold_def Let_def defaultDownThreshold_def defaultUpThreshold_def
        add_def above_def b_def amount_def)
  then show ?thesis
    using th a b \<open>0 \<le> add\<close> unfolding line_ok_def w_def [symmetric] by auto
qed

lemma last_above_spec:
  "last_above line ts i best =
     (case takeWhile (\<lambda>t. t \<le> line) ts of [] \<Rightarrow> best | _ \<Rightarrow>
        Some (i + length (takeWhile (\<lambda>t. t \<le> line) ts) - 1))"
  by (induction ts arbitrary: i best) (auto split: list.splits)

section \<open>Lemmas: the marked link\<close>

definition marked :: "summary_link list \<Rightarrow> nat" where
  "marked ls = length (filter s_current ls)"

lemma clear_live_none: "marked ls = 0 \<Longrightarrow> clear_live skip ls = ls"
  by (induction ls) (auto simp: marked_def)

lemma clear_live_one: "marked ls \<le> 1 \<Longrightarrow> marked (clear_live False ls) = 0"
proof (induction ls)
  case (Cons l ls)
  show ?case
  proof (cases "s_current l")
    case True
    with Cons.prems have "marked ls = 0" by (simp add: marked_def)
    with True clear_live_none [of ls True] show ?thesis by (simp add: marked_def)
  next
    case False
    with Cons show ?thesis by (simp add: marked_def)
  qed
qed (simp add: marked_def)

lemma marked_set: "marked ls = 0 \<Longrightarrow> marked (ls[k := l]) \<le> 1"
proof (induction ls arbitrary: k)
  case (Cons x xs)
  then show ?case by (cases k) (auto simp: marked_def split: if_splits)
qed (simp add: marked_def)

lemma updateCurrentHeader_marked:
  "marked ls \<le> 1 \<Longrightarrow> marked (updateCurrentHeader hs tops window line ls) \<le> 1"
  using clear_live_one [of ls] marked_set [of "clear_live False ls"]
  by (auto simp: updateCurrentHeader_def Let_def split: option.splits)

section \<open>Properties\<close>

text \<open>
  C28. The outline in the sidebar nests as the headers do. For any list of headers with any sequence
  of levels, skipped levels included, every header gets exactly one item, linked to the header, and
  the item that encloses it most closely is that of the closest earlier header of a higher rank; an
  item with no such header is at the top.
\<close>

theorem outline_nests_by_rank:
  assumes "build_outline hs = Some st" and "i < length hs"
  shows "(\<exists>!k. k < length (o_dom st) \<and> n_kind (o_dom st ! k) = Li i) \<and>
     (\<forall>k<length (o_dom st). n_kind (o_dom st ! k) = Li i \<longrightarrow>
        n_href (o_dom st ! k) = ''#'' @ h_id (hs ! i) \<and>
        (case enclosing (o_dom st) k of
           Some j \<Rightarrow>
             j < i \<and> level_of (h_tag (hs ! j)) < level_of (h_tag (hs ! i)) \<and>
             (\<forall>m. j < m \<and> m < i \<longrightarrow> level_of (h_tag (hs ! i)) \<le> level_of (h_tag (hs ! m)))
         | None \<Rightarrow> \<forall>m<i. level_of (h_tag (hs ! i)) \<le> level_of (h_tag (hs ! m))))"
proof -
  have "hs \<noteq> []" and st: "st = add_headers hs (length hs)"
    using assms by (auto simp: build_outline_def split: if_splits)
  then have "items_ok hs (length hs) (o_dom st)"
    using add_headers_ok [of hs "length hs"] by (simp add: outline_inv_def)
  note ok = this [unfolded items_ok_def]
  obtain k where "k < length (o_dom st)" "n_kind (o_dom st ! k) = Li i"
    using ok assms(2) by blast
  then have "\<exists>!k. k < length (o_dom st) \<and> n_kind (o_dom st ! k) = Li i"
    using ok by blast
  moreover have "enclosing (o_dom st) k = last_lower hs i (level_of (h_tag (hs ! i))) \<and>
      n_href (o_dom st ! k) = ''#'' @ h_id (hs ! i)"
    if "k < length (o_dom st)" "n_kind (o_dom st ! k) = Li i" for k
    using ok that by blast
  ultimately show ?thesis
    by (auto simp: last_lower_iff last_lower_None split: option.splits)
qed

definition demo_headers :: "header list" where
  "demo_headers = map (\<lambda>(t, i). \<lparr>h_tag = t, h_id = i, h_first_child = Some ''A''\<rparr>)
     [(H2, ''a''), (H4, ''b''), (H3, ''c''), (H2, ''d'')]"

theorem outline_nests_by_rank_witness:
  "\<exists>st. build_outline demo_headers = Some st \<and>
     (\<exists>!k. k < length (o_dom st) \<and> n_kind (o_dom st ! k) = Li 2)"
proof -
  obtain st where st: "build_outline demo_headers = Some st"
    by (simp add: build_outline_def demo_headers_def)
  have "2 < length demo_headers" by (simp add: demo_headers_def)
  from outline_nests_by_rank [OF st this] st show ?thesis by blast
qed

text \<open>
  The threshold line stays on the screen: through any sequence of scroll events on a page whose
  window is at least 150 pixels high, the line is never above the top edge and never below the
  bottom edge (or 300 pixels, in a smaller window).
\<close>

theorem threshold_stays_on_screen:
  assumes "\<forall>v\<in>set vs. windowHeight v = window \<and> 0 \<le> scrollTop v" and "150 \<le> window"
    and "line_ok window s"
  shows "line_ok window (fold updateThreshold vs s)"
  using assms
proof (induction vs arbitrary: s)
  case (Cons v vs)
  then show ?case using updateThreshold_ok [of v s] by simp
qed simp

theorem threshold_stays_on_screen_witness:
  "line_ok 800 (fold updateThreshold
     [\<lparr>scrollTop = 400, windowHeight = 800, documentHeight = 3000\<rparr>,
      \<lparr>scrollTop = 100, windowHeight = 800, documentHeight = 3000\<rparr>]
     \<lparr>lastKnownScrollPosition = 0, threshold = 150, disableScroll = False\<rparr>)"
  by (rule threshold_stays_on_screen) (simp_all add: line_ok_def)

text \<open>
  C33. Which header is current. With the headers in document order, so that their positions
  increase, the current header is the last one at or above the line; and after scrolling down to
  the end of a page at least two windows high, with every header above the bottom edge, it is the
  last header of the page, however far below the normal line that header is.
\<close>

theorem current_header_correct:
  assumes "sorted tops" and "tops \<noteq> []" and "v = \<lparr>scrollTop = pos, windowHeight = window, documentHeight = doc\<rparr>"
  shows "(tops ! 0 \<le> line \<longrightarrow>
        (\<exists>i<length tops. find_current line window tops = Some i \<and> tops ! i \<le> line \<and>
           (\<forall>j. i < j \<and> j < length tops \<longrightarrow> line < tops ! j))) \<and>
     (150 \<le> window \<and> 2 * window \<le> doc \<and> doc \<le> pos + window \<and> lastKnownScrollPosition s \<le> pos \<and>
        (\<forall>t\<in>set tops. t \<le> window) \<longrightarrow>
        find_current (threshold (updateThreshold v s)) window tops = Some (length tops - 1))"
proof (intro conjI impI)
  assume first: "tops ! 0 \<le> line"
  let ?n = "length (takeWhile (\<lambda>t. t \<le> line) tops)"
  have n: "0 < ?n" using first assms(2) by (cases tops) auto
  then have cur: "find_current line window tops = Some (?n - 1)"
    by (auto simp: find_current_def last_above_spec split: list.splits)
  have le: "?n \<le> length tops" by (rule length_takeWhile_le)
  have "tops ! (?n - 1) \<le> line"
    using n nth_length_takeWhile takeWhile_nth [of "?n - 1" "\<lambda>t. t \<le> line" tops]
      nth_mem [of "?n - 1" "takeWhile (\<lambda>t. t \<le> line) tops"]
    by (auto dest: set_takeWhileD)
  moreover have "line < tops ! j" if "?n - 1 < j" "j < length tops" for j
  proof -
    have "?n < length tops" using that n by simp
    then have "\<not> tops ! ?n \<le> line" by (rule nth_length_takeWhile)
    moreover have "tops ! ?n \<le> tops ! j" using assms(1) that n by (intro sorted_nth_mono) auto
    ultimately show ?thesis by simp
  qed
  moreover have "?n - 1 < length tops" using n le by linarith
  ultimately show "\<exists>i<length tops. find_current line window tops = Some i \<and> tops ! i \<le> line \<and>
      (\<forall>j. i < j \<and> j < length tops \<longrightarrow> line < tops ! j)"
    using cur by blast
next
  assume a: "150 \<le> window \<and> 2 * window \<le> doc \<and> doc \<le> pos + window \<and>
      lastKnownScrollPosition s \<le> pos \<and> (\<forall>t\<in>set tops. t \<le> window)"
  then have "adjusted_bottom_add v = window - 150"
    by (auto simp: adjusted_bottom_add_def assms(3) Let_def defaultDownThreshold_def max_def)
  then have "window \<le> threshold (updateThreshold v s)"
    using a by (auto simp: updateThreshold_def assms(3) Let_def defaultDownThreshold_def)
  then have "takeWhile (\<lambda>t. t \<le> threshold (updateThreshold v s)) tops = tops"
    using a by (auto simp: takeWhile_eq_all_conv)
  then show "find_current (threshold (updateThreshold v s)) window tops = Some (length tops - 1)"
    using assms(2) by (cases tops) (simp_all add: find_current_def last_above_spec)
qed

theorem current_header_correct_witness:
  "find_current (threshold (updateThreshold
       \<lparr>scrollTop = 1200, windowHeight = 800, documentHeight = 2000\<rparr>
       \<lparr>lastKnownScrollPosition = 1000, threshold = 150, disableScroll = False\<rparr>)) 800
     [- 100, 500, 700] = Some 2"
  using current_header_correct [of "[- 100, 500, 700]" _ 1200 800 2000 0
      "\<lparr>lastKnownScrollPosition = 1000, threshold = 150, disableScroll = False\<rparr>"]
  by simp

text \<open>
  At most one header is marked as current, through any sequence of scroll events, clicks on
  header links, their animation frames and timeouts; although the loop that resets the classes walks
  over a live collection and skips every second marked element, it therefore resets all of them.
\<close>

theorem at_most_one_current_header:
  assumes "marked (t_links p) \<le> 1"
  shows "marked (t_links (fold toc_step evs p)) \<le> 1 \<and>
     marked (clear_live False (t_links (fold toc_step evs p))) = 0"
proof -
  have "marked (t_links (toc_step ev q)) \<le> 1" if "marked (t_links q) \<le> 1" for ev q
    using that updateCurrentHeader_marked
    by (auto simp: toc_step_def reloadCurrentHeader_def Let_def
        split: toc_event.splits option.splits)
  then have "marked (t_links (fold toc_step evs p)) \<le> 1"
    using assms by (induction evs arbitrary: p) auto
  then show ?thesis using clear_live_one by blast
qed

theorem at_most_one_current_header_witness:
  "marked (t_links (fold toc_step [HeaderClick, ClickFrame (Some 90) 800 [20, 400]]
     \<lparr>t_headers = take 2 demo_headers,
      t_scroll = \<lparr>lastKnownScrollPosition = 0, threshold = 150, disableScroll = False\<rparr>,
      t_links = [\<lparr>s_href = ''#a'', s_current = True\<rparr>, \<lparr>s_href = ''#b'', s_current = False\<rparr>]\<rparr>)) \<le> 1"
  by (rule at_most_one_current_header [THEN conjunct1]) (simp add: marked_def)

end
