(* ===== verification/BookTheme.thy ===== *)
theory BookTheme
  imports Dom
begin

text \<open>
  The theme menu of the documentation pages, \<open>themes\<close> of \<open>src/docs/book-a0b12cfe.js\<close>, after the inline
  script of the page that sets the first theme (\<open>src/docs/index.html\<close>). The state holds what the
  scripts read and change of the browser: the stored theme and whether storage can be read and
  written, the colour preference, the classes of the root element, the three highlighting style
  sheets, the themes of the editors, the menu and the focus. What a selector other than a plain name
  finds and the computed background colour are parameters.
\<close>

section \<open>State\<close>

text \<open>Where an event happens or the focus is; a theme button is named by its id.\<close>

datatype place =
    AtToggle \<comment> \<open>the button that opens the menu, or inside it\<close>
  | AtButton string \<comment> \<open>a theme button itself\<close>
  | InButton string \<comment> \<open>an element whose parent is a theme button\<close>
  | AtPopup \<comment> \<open>elsewhere in the menu\<close>
  | Elsewhere

record theme_conf =
  tc_buttons :: "string list" \<comment> \<open>ids of the theme buttons, one in each item of the menu\<close>
  tc_light :: "string option" \<comment> \<open>\<open>default_light_theme\<close>, when the page defines it\<close>
  tc_dark :: "string option" \<comment> \<open>\<open>default_dark_theme\<close>, when the page defines it\<close>
  tc_select :: "string \<Rightarrow> (string option, js_error) result"
    \<comment> \<open>the button found by \<open>'button#mdbook-theme-' + name\<close> when name is not a plain name\<close>
  tc_background :: "classes \<Rightarrow> string" \<comment> \<open>computed background colour of the page\<close>

record theme_state =
  th_saved :: "string option" \<comment> \<open>\<open>mdbook-theme\<close> in the local storage\<close>
  th_readable :: bool
  th_writable :: bool
  th_prefers_dark :: bool
  th_default :: string \<comment> \<open>\<open>default_theme\<close>\<close>
  th_previous :: string \<comment> \<open>\<open>previousTheme\<close>\<close>
  th_html :: classes
  th_ayu_off :: bool
  th_tomorrow_off :: bool
  th_highlight_off :: bool
  th_editors :: "string list option" \<comment> \<open>themes of \<open>window.editors\<close>, when the editor is loaded\<close>
  th_timers :: nat \<comment> \<open>pending time-outs that update the colour\<close>
  th_color :: string
  th_selected :: "string set" \<comment> \<open>buttons with class \<open>theme-selected\<close>\<close>
  th_block :: bool \<comment> \<open>the menu has display style \<open>block\<close>\<close>
  th_expanded :: bool \<comment> \<open>\<open>aria-expanded\<close> of the toggle\<close>
  th_focus :: place

definition theme_prefix :: string where
  "theme_prefix = ''mdbook-theme-''"

definition themeIds :: "theme_conf \<Rightarrow> string list" where
  "themeIds conf = tc_buttons conf"

text \<open>A string of letters, digits, hyphens, underscores and characters above ASCII stands for itself in
  a selector after \<open>button#mdbook-theme-\<close>.\<close>

definition name_char :: "char \<Rightarrow> bool" where
  "name_char c \<longleftrightarrow>
     (let n = (of_char c :: nat) in
      48 \<le> n \<and> n \<le> 57 \<or> 65 \<le> n \<and> n \<le> 90 \<or> 97 \<le> n \<and> n \<le> 122 \<or> n = 45 \<or> n = 95 \<or> 128 \<le> n)"

definition query_button :: "theme_conf \<Rightarrow> string \<Rightarrow> (string option, js_error) result" where
  "query_button conf name =
     (if list_all name_char name then
        Ok (if theme_prefix @ name \<in> set (tc_buttons conf) then Some (theme_prefix @ name) else None)
      else tc_select conf name)"

section \<open>Operations\<close>

definition get_saved_theme :: "theme_state \<Rightarrow> string option" where
  "get_saved_theme s = (if th_readable s then th_saved s else None)"

definition delete_saved_theme :: "theme_state \<Rightarrow> theme_state outcome" where
  "delete_saved_theme s =
     (if th_readable s then js_ok (s\<lparr>th_saved := None\<rparr>) else js_throw JsSecurityError s)"

definition default_for :: "theme_conf \<Rightarrow> theme_state \<Rightarrow> (string, js_error) result" where
  "default_for conf s =
     (case tc_dark conf of
        None \<Rightarrow> Ok (th_default s)
      | Some dark \<Rightarrow>
          if th_prefers_dark s then Ok dark
          else (case tc_light conf of None \<Rightarrow> Err JsReferenceError | Some light \<Rightarrow> Ok light))"

definition get_theme :: "theme_conf \<Rightarrow> theme_state \<Rightarrow> (string, js_error) result" where
  "get_theme conf s =
     (case get_saved_theme s of
        None \<Rightarrow> default_for conf s
      | Some theme \<Rightarrow>
          if theme_prefix @ theme \<notin> set (themeIds conf) then default_for conf s else Ok theme)"

definition showThemes :: "theme_conf \<Rightarrow> theme_state \<Rightarrow> theme_state outcome" where
  "showThemes conf s =
     (let s = s\<lparr>th_block := True, th_expanded := True\<rparr> in
      (case get_theme conf s of
         Err e \<Rightarrow> js_throw e s
       | Ok theme \<Rightarrow>
           (case query_button conf theme of
              Err e \<Rightarrow> js_throw e s
            | Ok None \<Rightarrow> js_throw JsTypeError s
            | Ok (Some b) \<Rightarrow> js_ok (s\<lparr>th_focus := AtButton b\<rparr>))))"

definition hideThemes :: "theme_state \<Rightarrow> theme_state" where
  "hideThemes s = s\<lparr>th_block := False, th_expanded := False, th_focus := AtToggle\<rparr>"

definition updateThemeSelected :: "theme_conf \<Rightarrow> theme_state \<Rightarrow> theme_state outcome" where
  "updateThemeSelected conf s =
     (let s = s\<lparr>th_selected := {}\<rparr>;
          selected = (case get_saved_theme s of None \<Rightarrow> ''default_theme'' | Some t \<Rightarrow> t)
      in (case query_button conf selected of
            Err e \<Rightarrow> js_throw e s
          | Ok (Some b) \<Rightarrow> js_ok (s\<lparr>th_selected := {b}\<rparr>)
          | Ok None \<Rightarrow>
              (case get_theme conf s of
                 Err e \<Rightarrow> js_throw e s
               | Ok theme \<Rightarrow>
                   (case query_button conf theme of
                      Err e \<Rightarrow> js_throw e s
                    | Ok None \<Rightarrow> js_throw JsTypeError s
                    | Ok (Some b) \<Rightarrow> js_ok (s\<lparr>th_selected := {b}\<rparr>)))))"

definition ace_theme :: "string \<Rightarrow> string" where
  "ace_theme theme =
     (if theme \<in> {''coal'', ''navy''} then ''ace/theme/tomorrow_night''
      else if theme = ''ayu'' then ''ace/theme/tomorrow_night''
      else ''ace/theme/dawn'')"

definition set_stylesheets :: "string \<Rightarrow> theme_state \<Rightarrow> theme_state" where
  "set_stylesheets theme s =
     (if theme \<in> {''coal'', ''navy''} then
        s\<lparr>th_ayu_off := True, th_tomorrow_off := False, th_highlight_off := True\<rparr>
      else if theme = ''ayu'' then
        s\<lparr>th_ayu_off := False, th_tomorrow_off := True, th_highlight_off := True\<rparr>
      else s\<lparr>th_ayu_off := True, th_tomorrow_off := True, th_highlight_off := False\<rparr>)"

definition store_theme :: "string \<Rightarrow> theme_state \<Rightarrow> theme_state" where
  "store_theme theme s =
     (if th_readable s \<and> th_writable s then s\<lparr>th_saved := Some theme\<rparr> else s)"

definition swap_html_class :: "string \<Rightarrow> theme_state \<Rightarrow> theme_state outcome" where
  "swap_html_class theme s =
     (case token_error (th_previous s) of
        Some e \<Rightarrow> js_throw e s
      | None \<Rightarrow>
          (let s = s\<lparr>th_html := class_remove (th_previous s) (th_html s)\<rparr> in
           (case token_error theme of
              Some e \<Rightarrow> js_throw e s
            | None \<Rightarrow> js_ok (s\<lparr>th_html := class_add theme (th_html s), th_previous := theme\<rparr>))))"

definition set_theme :: "theme_conf \<Rightarrow> string \<Rightarrow> bool \<Rightarrow> theme_state \<Rightarrow> theme_state outcome" where
  "set_theme conf theme store s =
     (let s = set_stylesheets theme s;
          s = s\<lparr>th_timers := th_timers s + 1\<rparr>;
          s = s\<lparr>th_editors := map_option (map (\<lambda>_. ace_theme theme)) (th_editors s)\<rparr>;
          s = (if store then store_theme theme s else s)
      in js_then (swap_html_class theme s) (updateThemeSelected conf))"

definition set_current_theme :: "theme_conf \<Rightarrow> theme_state \<Rightarrow> theme_state outcome" where
  "set_current_theme conf s =
     (case get_theme conf s of Err e \<Rightarrow> js_throw e s | Ok theme \<Rightarrow> set_theme conf theme False s)"

text \<open>The time-out of \<open>set_theme\<close>.\<close>

definition color_timer :: "theme_conf \<Rightarrow> theme_state \<Rightarrow> theme_state" where
  "color_timer conf s =
     (if th_timers s = 0 then s
      else s\<lparr>th_timers := th_timers s - 1, th_color := tc_background conf (th_html s)\<rparr>)"

definition toggle_click :: "theme_conf \<Rightarrow> theme_state \<Rightarrow> theme_state outcome" where
  "toggle_click conf s = (if th_block s then js_ok (hideThemes s) else showThemes conf s)"

text \<open>\<open>className === 'theme'\<close>: the class list of a button is \<open>theme\<close>, followed by \<open>theme-selected\<close> if it
  is selected.\<close>

definition className_theme :: "string \<Rightarrow> theme_state \<Rightarrow> bool" where
  "className_theme b s \<longleftrightarrow> b \<notin> th_selected s"

definition clicked_button :: "place \<Rightarrow> theme_state \<Rightarrow> string option" where
  "clicked_button target s =
     (case target of
        AtButton b \<Rightarrow> if className_theme b s then Some b else None
      | InButton b \<Rightarrow> if className_theme b s then Some b else None
      | _ \<Rightarrow> None)"

definition choose_theme :: "theme_conf \<Rightarrow> string \<Rightarrow> theme_state \<Rightarrow> theme_state outcome" where
  "choose_theme conf theme s =
     (if theme = ''default_theme'' then js_then (delete_saved_theme s) (set_current_theme conf)
      else set_theme conf theme True s)"

definition popup_click :: "theme_conf \<Rightarrow> place \<Rightarrow> theme_state \<Rightarrow> theme_state outcome" where
  "popup_click conf target s =
     (case clicked_button target s of
        None \<Rightarrow> js_ok s
      | Some b \<Rightarrow>
          choose_theme conf (case strip_prefix theme_prefix b of None \<Rightarrow> b | Some t \<Rightarrow> t) s)"

definition in_popup :: "place \<Rightarrow> bool" where
  "in_popup p \<longleftrightarrow> (case p of AtButton _ \<Rightarrow> True | InButton _ \<Rightarrow> True | AtPopup \<Rightarrow> True | _ \<Rightarrow> False)"

definition popup_focusout :: "place option \<Rightarrow> theme_state \<Rightarrow> theme_state" where
  "popup_focusout related s =
     (case related of
        None \<Rightarrow> s
      | Some p \<Rightarrow> if p \<noteq> AtToggle \<and> \<not> in_popup p then hideThemes s else s)"

definition theme_document_click :: "place \<Rightarrow> theme_state \<Rightarrow> theme_state" where
  "theme_document_click target s =
     (if th_block s \<and> target \<noteq> AtToggle \<and> \<not> in_popup target then hideThemes s else s)"

fun index_of :: "'a \<Rightarrow> 'a list \<Rightarrow> nat option" where
  "index_of x [] = None"
| "index_of x (y # ys) = (if x = y then Some 0 else map_option Suc (index_of x ys))"

text \<open>Keys act on the focused element; \<open>modified\<close>: alt, ctrl, meta or shift is held.\<close>

definition theme_keydown :: "theme_conf \<Rightarrow> bool \<Rightarrow> string \<Rightarrow> theme_state \<Rightarrow> theme_state outcome" where
  "theme_keydown conf modified key s =
     (if modified then js_ok s
      else if \<not> in_popup (th_focus s) then js_ok s
      else if key = ''Escape'' then js_ok (hideThemes s)
      else if key = ''ArrowUp'' then
        (case th_focus s of
           AtButton b \<Rightarrow>
             (case index_of b (tc_buttons conf) of
                Some (Suc i) \<Rightarrow> js_ok (s\<lparr>th_focus := AtButton (tc_buttons conf ! i)\<rparr>)
              | _ \<Rightarrow> js_ok s)
         | _ \<Rightarrow> js_ok s)
      else if key = ''ArrowDown'' then
        (case th_focus s of
           AtButton b \<Rightarrow>
             (case index_of b (tc_buttons conf) of
                Some i \<Rightarrow>
                  if Suc i < length (tc_buttons conf)
                  then js_ok (s\<lparr>th_focus := AtButton (tc_buttons conf ! Suc i)\<rparr>)
                  else js_ok s
              | None \<Rightarrow> js_ok s)
         | _ \<Rightarrow> js_ok s)
      else if key = ''Home'' then
        (case tc_buttons conf of
           [] \<Rightarrow> js_throw JsTypeError s
         | b # _ \<Rightarrow> js_ok (s\<lparr>th_focus := AtButton b\<rparr>))
      else if key = ''End'' then
        (if tc_buttons conf = [] then js_throw JsTypeError s
         else js_ok (s\<lparr>th_focus := AtButton (last (tc_buttons conf))\<rparr>))
      else js_ok s)"

text \<open>
  The events. A click reaches the listener of the toggle or of the menu and then the one of the
  document. Other tabs change the stored theme and the browser its permissions without an event
  that the script listens to. Events name elements of the page: one that names no theme button
  does not occur.
\<close>

datatype theme_event =
    ThemeClick place
  | ThemeFocusOut "place option"
  | ThemeKey bool string
  | PrefersDark bool
  | ColorTimer
  | OtherTab "string option"
  | StorageAccess bool bool
  | UserFocus place

definition place_ok :: "theme_conf \<Rightarrow> place \<Rightarrow> bool" where
  "place_ok conf p \<longleftrightarrow>
     (case p of
        AtButton b \<Rightarrow> b \<in> set (tc_buttons conf)
      | InButton b \<Rightarrow> b \<in> set (tc_buttons conf)
      | _ \<Rightarrow> True)"

definition theme_click :: "theme_conf \<Rightarrow> place \<Rightarrow> theme_state \<Rightarrow> theme_state outcome" where
  "theme_click conf p s =
     (let (s', e) =
            (if p = AtToggle then toggle_click conf s
             else if in_popup p then popup_click conf p s
             else js_ok s)
      in (theme_document_click p s', e))"

definition theme_handle :: "theme_conf \<Rightarrow> theme_event \<Rightarrow> theme_state \<Rightarrow> theme_state outcome" where
  "theme_handle conf ev s =
     (case ev of
        ThemeClick p \<Rightarrow> if place_ok conf p then theme_click conf p s else js_ok s
      | ThemeFocusOut r \<Rightarrow> js_ok (popup_focusout r s)
      | ThemeKey modified key \<Rightarrow> theme_keydown conf modified key s
      | PrefersDark b \<Rightarrow> set_current_theme conf (s\<lparr>th_prefers_dark := b\<rparr>)
      | ColorTimer \<Rightarrow> js_ok (color_timer conf s)
      | OtherTab v \<Rightarrow> js_ok (s\<lparr>th_saved := v\<rparr>)
      | StorageAccess r w \<Rightarrow> js_ok (s\<lparr>th_readable := r, th_writable := w\<rparr>)
      | UserFocus p \<Rightarrow> if place_ok conf p then js_ok (s\<lparr>th_focus := p\<rparr>) else js_ok s)"

text \<open>The page: the root element has classes \<open>light\<close> and \<open>sidebar-visible\<close>, then the inline script
  runs, then \<open>themes\<close>.\<close>

definition inline_theme :: "theme_conf \<Rightarrow> theme_state \<Rightarrow> theme_state outcome" where
  "inline_theme conf s =
     (case (tc_light conf, tc_dark conf) of
        (Some light, Some dark) \<Rightarrow>
          (let default_theme = (if th_prefers_dark s then dark else light);
               s = s\<lparr>th_default := default_theme\<rparr>;
               theme = (case get_saved_theme s of None \<Rightarrow> default_theme | Some t \<Rightarrow> t);
               s = s\<lparr>th_html := class_remove ''light'' (th_html s)\<rparr>
           in (case token_error theme of
                 Some e \<Rightarrow> js_throw e s
               | None \<Rightarrow> js_ok (s\<lparr>th_html := class_add ''js'' (class_add theme (th_html s))\<rparr>)))
      | _ \<Rightarrow> js_throw JsReferenceError s)"

definition themes :: "theme_conf \<Rightarrow> theme_state \<Rightarrow> theme_state outcome" where
  "themes conf s = set_current_theme conf (s\<lparr>th_previous := th_default s\<rparr>)"

definition page_start :: "string option \<Rightarrow> bool \<Rightarrow> bool \<Rightarrow> bool \<Rightarrow> nat option \<Rightarrow> theme_state" where
  "page_start saved readable writable dark editors =
     \<lparr>th_saved = saved, th_readable = readable, th_writable = writable, th_prefers_dark = dark,
      th_default = [], th_previous = [], th_html = [''light'', ''sidebar-visible''],
      th_ayu_off = False, th_tomorrow_off = False, th_highlight_off = False,
      th_editors = map_option (\<lambda>n. replicate n []) editors, th_timers = 0, th_color = ''#ffffff'',
      th_selected = {}, th_block = False, th_expanded = False, th_focus = Elsewhere\<rparr>"

definition load_theme_page :: "theme_conf \<Rightarrow> theme_state \<Rightarrow> theme_state" where
  "load_theme_page conf s = fst (themes conf (fst (inline_theme conf s)))"

section \<open>Invariant\<close>

definition is_theme :: "theme_conf \<Rightarrow> string \<Rightarrow> bool" where
  "is_theme conf t \<longleftrightarrow> theme_prefix @ t \<in> set (tc_buttons conf)"

text \<open>A page whose buttons are named as mdBook names them, with both default themes in the menu.\<close>

definition button_ok :: "string \<Rightarrow> bool" where
  "button_ok b \<longleftrightarrow>
     (case strip_prefix theme_prefix b of
        None \<Rightarrow> False
      | Some t \<Rightarrow> t \<noteq> [] \<and> list_all name_char t \<and> t \<noteq> ''js'' \<and> t \<noteq> ''sidebar-visible'')"

definition theme_conf_ok :: "theme_conf \<Rightarrow> bool" where
  "theme_conf_ok conf \<longleftrightarrow>
     list_all button_ok (tc_buttons conf) \<and>
     (case (tc_light conf, tc_dark conf) of
        (Some light, Some dark) \<Rightarrow> is_theme conf light \<and> is_theme conf dark
      | _ \<Rightarrow> False)"

definition sheets_off :: "string \<Rightarrow> bool list" where
  "sheets_off theme =
     (if theme \<in> {''coal'', ''navy''} then [True, False, True]
      else if theme = ''ayu'' then [False, True, True] else [True, True, False])"

definition theme_inv :: "theme_conf \<Rightarrow> theme_state \<Rightarrow> bool" where
  "theme_inv conf s \<longleftrightarrow>
     is_theme conf (th_previous s) \<and>
     {t \<in> set (th_html s). is_theme conf t} = {th_previous s} \<and>
     [th_ayu_off s, th_tomorrow_off s, th_highlight_off s] = sheets_off (th_previous s) \<and>
     (\<forall>es \<in> set_option (th_editors s). set es \<subseteq> {ace_theme (th_previous s)}) \<and>
     (th_expanded s \<longleftrightarrow> th_block s) \<and>
     (\<exists>b. th_selected s \<subseteq> {b}) \<and>
     place_ok conf (th_focus s) \<and>
     (th_timers s = 0 \<longrightarrow> th_color s = tc_background conf (th_html s))"

lemma strip_theme_prefix [simp]: "strip_prefix theme_prefix (theme_prefix @ t) = Some t"
  by (simp add: strip_prefix_Some_iff)

lemma name_char_not_space: "name_char c \<Longrightarrow> \<not> dom_space c"
  by (auto simp: name_char_def dom_space_def Let_def)

lemma button_ok_of:
  "theme_conf_ok conf \<Longrightarrow> b \<in> set (tc_buttons conf) \<Longrightarrow> button_ok b"
  by (simp add: theme_conf_ok_def list_all_iff)

lemma button_is_theme:
  assumes "theme_conf_ok conf" "b \<in> set (tc_buttons conf)"
  obtains t where "b = theme_prefix @ t" "is_theme conf t"
  using button_ok_of [OF assms] assms(2)
  by (auto simp: button_ok_def is_theme_def strip_prefix_Some_iff split: option.splits)

lemma is_theme_name:
  assumes "theme_conf_ok conf" "is_theme conf t"
  shows "t \<noteq> []" "list_all name_char t" "t \<noteq> ''js''" "t \<noteq> ''sidebar-visible''"
  using button_ok_of [OF assms(1), of "theme_prefix @ t"] assms(2)
  by (simp_all add: is_theme_def button_ok_def)

lemma is_theme_token: "theme_conf_ok conf \<Longrightarrow> is_theme conf t \<Longrightarrow> token_error t = None"
  using is_theme_name [of conf t] name_char_not_space
  by (auto simp: token_error_def list_all_iff list_ex_iff)

lemma query_theme:
  "theme_conf_ok conf \<Longrightarrow> is_theme conf t \<Longrightarrow> query_button conf t = Ok (Some (theme_prefix @ t))"
  using is_theme_name(2) [of conf t] by (simp add: query_button_def is_theme_def)

lemma default_for_ok:
  "theme_conf_ok conf \<Longrightarrow> \<exists>t. default_for conf s = Ok t \<and> is_theme conf t"
  by (auto simp: theme_conf_ok_def default_for_def split: option.splits if_splits)

lemma get_theme_ok:
  "theme_conf_ok conf \<Longrightarrow> \<exists>t. get_theme conf s = Ok t \<and> is_theme conf t"
  using default_for_ok [of conf s]
  by (cases "get_saved_theme s") (auto simp: get_theme_def themeIds_def is_theme_def)

lemma updateThemeSelected_fields:
  "\<exists>x. fst (updateThemeSelected conf s) = s\<lparr>th_selected := x\<rparr> \<and> (\<exists>b. x \<subseteq> {b})"
  by (auto simp: updateThemeSelected_def Let_def split: result.splits option.splits)

lemma swap_html_class_eq:
  assumes "theme_conf_ok conf" "is_theme conf theme" "is_theme conf (th_previous s)"
  shows "swap_html_class theme s =
           js_ok (s\<lparr>th_html := class_add theme (class_remove (th_previous s) (th_html s)),
                    th_previous := theme\<rparr>)"
  using is_theme_token [OF assms(1,2)] is_theme_token [OF assms(1,3)]
  by (simp add: swap_html_class_def Let_def)

lemma set_stylesheets_sheets:
  "[th_ayu_off (set_stylesheets t s), th_tomorrow_off (set_stylesheets t s),
    th_highlight_off (set_stylesheets t s)] = sheets_off t"
  by (simp add: set_stylesheets_def sheets_off_def)

lemma set_stylesheets_more:
  "set_stylesheets t s =
     s\<lparr>th_ayu_off := sheets_off t ! 0, th_tomorrow_off := sheets_off t ! 1,
       th_highlight_off := sheets_off t ! 2\<rparr>"
  by (simp add: set_stylesheets_def sheets_off_def)

lemma sheets_off_nth: "[sheets_off t ! 0, sheets_off t ! 1, sheets_off t ! 2] = sheets_off t"
  by (simp add: sheets_off_def)

text \<open>What \<open>set_theme\<close> does with a theme of the menu, up to the selection.\<close>

definition themed :: "string \<Rightarrow> bool \<Rightarrow> theme_state \<Rightarrow> theme_state" where
  "themed theme store s =
     s\<lparr>th_ayu_off := sheets_off theme ! 0, th_tomorrow_off := sheets_off theme ! 1,
       th_highlight_off := sheets_off theme ! 2, th_timers := th_timers s + 1,
       th_editors := map_option (map (\<lambda>_. ace_theme theme)) (th_editors s),
       th_saved := (if store \<and> th_readable s \<and> th_writable s then Some theme else th_saved s),
       th_html := class_add theme (class_remove (th_previous s) (th_html s)),
       th_previous := theme\<rparr>"

lemma set_theme_eq:
  assumes "theme_conf_ok conf" "is_theme conf theme" "is_theme conf (th_previous s)"
  shows "set_theme conf theme store s = updateThemeSelected conf (themed theme store s)"
  using swap_html_class_eq [OF assms(1,2)] assms(3)
  by (simp add: set_theme_def set_stylesheets_more store_theme_def Let_def themed_def)

lemma set_theme_state:
  assumes "theme_conf_ok conf" "is_theme conf theme" "is_theme conf (th_previous s)"
  obtains x b where "fst (set_theme conf theme store s) = (themed theme store s)\<lparr>th_selected := x\<rparr>"
    and "x \<subseteq> {b}"
  using updateThemeSelected_fields [of conf "themed theme store s"] set_theme_eq [OF assms] by metis

lemma set_theme_inv:
  assumes "theme_conf_ok conf" "is_theme conf theme" "is_theme conf (th_previous s)"
    and "{t \<in> set (th_html s). is_theme conf t} \<subseteq> {th_previous s, theme}"
    and "th_expanded s \<longleftrightarrow> th_block s" and "place_ok conf (th_focus s)"
  shows "theme_inv conf (fst (set_theme conf theme store s))"
proof -
  obtain x b where s': "fst (set_theme conf theme store s) = (themed theme store s)\<lparr>th_selected := x\<rparr>"
      "x \<subseteq> {b}"
    using set_theme_state [OF assms(1-3)] .
  have html: "{t. (t = theme \<or> t \<in> set (th_html s) \<and> t \<noteq> th_previous s) \<and> is_theme conf t} = {theme}"
    using assms(2,4) by auto
  show ?thesis
    using assms(2,5,6) s'(2) html
    unfolding theme_inv_def s'(1) themed_def by (auto simp: sheets_off_nth [simplified])
qed

text \<open>The handlers keep the invariant.\<close>

lemma theme_inv_set_theme:
  "theme_conf_ok conf \<Longrightarrow> theme_inv conf s \<Longrightarrow> is_theme conf theme \<Longrightarrow>
     theme_inv conf (fst (set_theme conf theme store s))"
  by (rule set_theme_inv) (auto simp: theme_inv_def)

lemma theme_inv_set_current:
  "theme_conf_ok conf \<Longrightarrow> theme_inv conf s \<Longrightarrow> theme_inv conf (fst (set_current_theme conf s))"
  using get_theme_ok [of conf s] by (auto simp: set_current_theme_def theme_inv_set_theme)

lemma theme_inv_browser:
  "theme_inv conf s \<Longrightarrow> theme_inv conf (s\<lparr>th_saved := v\<rparr>)"
  "theme_inv conf s \<Longrightarrow> theme_inv conf (s\<lparr>th_readable := r, th_writable := w\<rparr>)"
  "theme_inv conf s \<Longrightarrow> theme_inv conf (s\<lparr>th_prefers_dark := d\<rparr>)"
  "theme_inv conf s \<Longrightarrow> place_ok conf p \<Longrightarrow> theme_inv conf (s\<lparr>th_focus := p\<rparr>)"
  "theme_inv conf s \<Longrightarrow> theme_inv conf (hideThemes s)"
  "theme_inv conf s \<Longrightarrow> theme_inv conf (color_timer conf s)"
  "theme_inv conf s \<Longrightarrow> theme_inv conf (s\<lparr>th_block := b, th_expanded := b\<rparr>)"
  by (auto simp: theme_inv_def hideThemes_def color_timer_def place_ok_def)

lemma theme_inv_show:
  "theme_conf_ok conf \<Longrightarrow> theme_inv conf s \<Longrightarrow> theme_inv conf (fst (showThemes conf s))"
  using get_theme_ok [of conf "s\<lparr>th_block := True, th_expanded := True\<rparr>"]
  by (auto simp: showThemes_def Let_def query_theme theme_inv_browser place_ok_def is_theme_def)

lemma clicked_button_place:
  "place_ok conf p \<Longrightarrow> clicked_button p s = Some b \<Longrightarrow> b \<in> set (tc_buttons conf)"
  by (cases p) (auto simp: place_ok_def clicked_button_def split: if_splits)

lemma popup_click_cases:
  assumes "theme_conf_ok conf" "place_ok conf p"
  shows "popup_click conf p s = js_ok s \<or>
         (\<exists>t. is_theme conf t \<and> popup_click conf p s = choose_theme conf t s)"
proof (cases "clicked_button p s")
  case None
  then show ?thesis by (simp add: popup_click_def)
next
  case (Some b)
  obtain t where "b = theme_prefix @ t" "is_theme conf t"
    using button_is_theme [OF assms(1) clicked_button_place [OF assms(2) Some]] .
  then show ?thesis using Some by (auto simp: popup_click_def)
qed

lemma theme_inv_choose:
  "theme_conf_ok conf \<Longrightarrow> theme_inv conf s \<Longrightarrow> is_theme conf t \<Longrightarrow>
     theme_inv conf (fst (choose_theme conf t s))"
  by (simp add: choose_theme_def delete_saved_theme_def theme_inv_set_theme theme_inv_set_current
      theme_inv_browser)

lemma theme_inv_popup_click:
  "theme_conf_ok conf \<Longrightarrow> theme_inv conf s \<Longrightarrow> place_ok conf p \<Longrightarrow>
     theme_inv conf (fst (popup_click conf p s))"
  using popup_click_cases [of conf p s] theme_inv_choose [of conf s] by auto

lemma theme_inv_document_click:
  "theme_inv conf s \<Longrightarrow> theme_inv conf (theme_document_click p s)"
  by (simp add: theme_document_click_def theme_inv_browser)

lemma index_of_Some: "index_of x xs = Some i \<Longrightarrow> i < length xs \<and> xs ! i = x"
  by (induction x xs arbitrary: i rule: index_of.induct) (auto split: if_splits)

lemma index_of_neighbours:
  assumes "index_of x xs = Some i"
  shows "i = Suc j \<Longrightarrow> xs ! j \<in> set xs" "Suc i < length xs \<Longrightarrow> xs ! Suc i \<in> set xs"
  using index_of_Some [OF assms] by simp_all

lemma theme_inv_focus_button:
  "theme_inv conf s \<Longrightarrow> b \<in> set (tc_buttons conf) \<Longrightarrow> theme_inv conf (s\<lparr>th_focus := AtButton b\<rparr>)"
  by (simp add: theme_inv_browser place_ok_def)

lemma theme_inv_keydown:
  assumes "theme_inv conf s"
  shows "theme_inv conf (fst (theme_keydown conf m k s))"
proof -
  have up: "theme_inv conf (fst
      (case index_of b (tc_buttons conf) of
         Some (Suc i) \<Rightarrow> js_ok (s\<lparr>th_focus := AtButton (tc_buttons conf ! i)\<rparr>) | _ \<Rightarrow> js_ok s))" for b
    using assms index_of_neighbours(1) [of b "tc_buttons conf"]
    by (simp add: theme_inv_focus_button split: option.split nat.split)
  have down: "theme_inv conf (fst
      (case index_of b (tc_buttons conf) of
         Some i \<Rightarrow> if Suc i < length (tc_buttons conf)
                  then js_ok (s\<lparr>th_focus := AtButton (tc_buttons conf ! Suc i)\<rparr>) else js_ok s
       | None \<Rightarrow> js_ok s))" for b
    using assms index_of_neighbours(2) [of b "tc_buttons conf"]
    by (simp add: theme_inv_focus_button split: option.split)
  have home: "theme_inv conf (fst (case tc_buttons conf of
         [] \<Rightarrow> js_throw JsTypeError s | b # _ \<Rightarrow> js_ok (s\<lparr>th_focus := AtButton b\<rparr>)))"
    using assms theme_inv_focus_button [of conf s] by (simp split: list.split)
  have stop: "theme_inv conf (fst (if tc_buttons conf = [] then js_throw JsTypeError s
         else js_ok (s\<lparr>th_focus := AtButton (last (tc_buttons conf))\<rparr>)))"
    using assms theme_inv_focus_button [of conf s] by simp
  show ?thesis
    unfolding theme_keydown_def
    using assms up down home stop theme_inv_browser(5) [OF assms]
    by (cases "th_focus s") (simp_all del: index_of.simps)
qed

lemma theme_inv_handle:
  assumes "theme_conf_ok conf" "theme_inv conf s"
  shows "theme_inv conf (fst (theme_handle conf ev s))"
proof (cases ev)
  case (ThemeClick p)
  then show ?thesis
    using assms
    by (auto simp: theme_handle_def theme_click_def toggle_click_def theme_inv_show
        theme_inv_popup_click theme_inv_browser split_beta Let_def
        intro!: theme_inv_document_click)
next
  case (ThemeFocusOut r)
  then show ?thesis
    using assms by (simp add: theme_handle_def popup_focusout_def theme_inv_browser split: option.split)
next
  case (PrefersDark b)
  then show ?thesis
    using assms by (simp add: theme_handle_def theme_inv_set_current theme_inv_browser)
qed (use assms in \<open>simp_all add: theme_handle_def theme_inv_browser theme_inv_keydown\<close>)

interpretation theme_script: page_script "theme_handle conf" "\<lambda>s. theme_conf_ok conf \<and> theme_inv conf s"
  for conf
  by unfold_locales (simp add: theme_inv_handle)

section \<open>Loading a page\<close>

definition inline_choice :: "theme_conf \<Rightarrow> theme_state \<Rightarrow> string" where
  "inline_choice conf s =
     (case get_saved_theme s of
        Some t \<Rightarrow> t
      | None \<Rightarrow> the (if th_prefers_dark s then tc_dark conf else tc_light conf))"

definition inline_html :: "theme_conf \<Rightarrow> theme_state \<Rightarrow> classes" where
  "inline_html conf s =
     (if token_error (inline_choice conf s) = None
      then class_add ''js'' (class_add (inline_choice conf s) (class_remove ''light'' (th_html s)))
      else class_remove ''light'' (th_html s))"

lemma theme_defaults:
  assumes "theme_conf_ok conf"
  obtains light dark where "tc_light conf = Some light" "tc_dark conf = Some dark"
    "is_theme conf light" "is_theme conf dark"
  using assms by (auto simp: theme_conf_ok_def split: option.splits)

lemma inline_theme_eq:
  assumes "tc_light conf = Some light" "tc_dark conf = Some dark"
  shows "fst (inline_theme conf s) =
           s\<lparr>th_default := (if th_prefers_dark s then dark else light), th_html := inline_html conf s\<rparr>"
proof -
  have "(case get_saved_theme (s\<lparr>th_default := d\<rparr>) of None \<Rightarrow> d | Some t \<Rightarrow> t) = inline_choice conf s"
    if "d = (if th_prefers_dark s then dark else light)" for d
    using assms that by (simp add: inline_choice_def get_saved_theme_def split: option.split)
  then show ?thesis
    using assms
    by (cases "token_error (inline_choice conf s)")
       (simp_all add: inline_theme_def inline_html_def Let_def)
qed

lemma inline_choice_get_theme:
  assumes "theme_conf_ok conf" "is_theme conf (inline_choice conf s)"
  shows "get_theme conf s = Ok (inline_choice conf s)"
proof -
  obtain light dark where "tc_light conf = Some light" "tc_dark conf = Some dark"
    using theme_defaults [OF assms(1)] by blast
  then show ?thesis
    using assms(2) by (cases "get_saved_theme s")
      (simp_all add: get_theme_def inline_choice_def default_for_def themeIds_def is_theme_def)
qed

lemma inline_html_themes:
  assumes "theme_conf_ok conf" "set (th_html s) \<subseteq> {''light'', ''sidebar-visible''}"
    and "get_theme conf s = Ok theme" "t \<in> set (inline_html conf s)" "is_theme conf t"
  shows "t = theme"
proof -
  have "t \<noteq> ''js''" "t \<noteq> ''sidebar-visible''" using is_theme_name [OF assms(1,5)] by blast+
  then have "t = inline_choice conf s"
    using assms(2,4) by (auto simp: inline_html_def split: if_splits)
  then show ?thesis
    using inline_choice_get_theme [OF assms(1), of s] assms(3,5) by simp
qed

text \<open>The state in which \<open>themes\<close> sets the theme.\<close>

definition before_themes :: "theme_conf \<Rightarrow> theme_state \<Rightarrow> theme_state" where
  "before_themes conf s =
     s\<lparr>th_default := the (if th_prefers_dark s then tc_dark conf else tc_light conf),
       th_html := inline_html conf s,
       th_previous := the (if th_prefers_dark s then tc_dark conf else tc_light conf)\<rparr>"

lemma get_theme_same:
  assumes "tc_dark conf \<noteq> None" "th_saved s = th_saved s'" "th_readable s = th_readable s'"
    and "th_prefers_dark s = th_prefers_dark s'"
  shows "get_theme conf s = get_theme conf s'"
proof -
  have "default_for conf s = default_for conf s'"
    using assms by (auto simp: default_for_def)
  then show ?thesis using assms by (simp add: get_theme_def get_saved_theme_def split: option.split)
qed

lemma load_theme_page_eq:
  assumes "theme_conf_ok conf" "get_theme conf s = Ok theme"
  shows "load_theme_page conf s = fst (set_theme conf theme False (before_themes conf s))"
    and "is_theme conf (th_previous (before_themes conf s))" "is_theme conf theme"
proof -
  obtain light dark where d: "tc_light conf = Some light" "tc_dark conf = Some dark"
      "is_theme conf light" "is_theme conf dark"
    using theme_defaults [OF assms(1)] .
  show "is_theme conf (th_previous (before_themes conf s))"
    using d by (simp add: before_themes_def)
  show "is_theme conf theme" using get_theme_ok [OF assms(1), of s] assms(2) by auto
  have b: "(fst (inline_theme conf s))\<lparr>th_previous := th_default (fst (inline_theme conf s))\<rparr> =
      before_themes conf s"
    using inline_theme_eq [OF d(1,2)] d by (simp add: before_themes_def)
  have "get_theme conf (before_themes conf s) = Ok theme"
    using assms(2) d get_theme_same [of conf "before_themes conf s" s] by (simp add: before_themes_def)
  then show "load_theme_page conf s = fst (set_theme conf theme False (before_themes conf s))"
    by (simp add: load_theme_page_def themes_def set_current_theme_def b)
qed

lemma load_theme_page_inv:
  assumes "theme_conf_ok conf" "set (th_html s) \<subseteq> {''light'', ''sidebar-visible''}"
    and "th_expanded s \<longleftrightarrow> th_block s" "place_ok conf (th_focus s)"
  shows "theme_inv conf (load_theme_page conf s)"
proof -
  obtain theme where t: "get_theme conf s = Ok theme" using get_theme_ok [OF assms(1)] by blast
  note l = load_theme_page_eq [OF assms(1) t]
  have "{t \<in> set (th_html (before_themes conf s)). is_theme conf t} \<subseteq> {theme}"
    using inline_html_themes [OF assms(1,2) t] by (auto simp: before_themes_def)
  moreover have "th_expanded (before_themes conf s) = th_block (before_themes conf s)"
      "place_ok conf (th_focus (before_themes conf s))"
    using assms(3,4) by (simp_all add: before_themes_def)
  ultimately show ?thesis
    unfolding l(1) using set_theme_inv [OF assms(1) l(3,2)] by blast
qed

lemma load_page_start_inv:
  "theme_conf_ok conf \<Longrightarrow> theme_inv conf (load_theme_page conf (page_start saved r w dark editors))"
  by (rule load_theme_page_inv) (simp_all add: page_start_def place_ok_def)

lemma set_theme_previous:
  assumes "theme_conf_ok conf" "is_theme conf theme" "is_theme conf (th_previous s)"
  shows "th_previous (fst (set_theme conf theme store s)) = theme"
    and "th_saved (fst (set_theme conf theme store s)) = th_saved (themed theme store s)"
  using set_theme_state [OF assms, of store] by (force simp: themed_def)+

lemma load_theme_page_previous:
  assumes "theme_conf_ok conf" "get_theme conf s = Ok theme"
  shows "th_previous (load_theme_page conf s) = theme"
  using load_theme_page_eq [OF assms] set_theme_previous(1) [OF assms(1)] by simp

lemma one_sheet_enabled: "length (filter Not (sheets_off t)) = 1"
  by (simp add: sheets_off_def)

definition demo_conf :: theme_conf where
  "demo_conf =
     \<lparr>tc_buttons = map ((@) theme_prefix)
        [''default_theme'', ''light'', ''rust'', ''coal'', ''navy'', ''ayu''],
      tc_light = Some ''light'', tc_dark = Some ''navy'',
      tc_select = (\<lambda>_. Err JsSyntaxError), tc_background = (\<lambda>cs. concat cs)\<rparr>"

lemma demo_conf_ok: "theme_conf_ok demo_conf"
  by code_simp

text \<open>
  C34. The theme menu stays consistent through every run of a page: whatever was stored, whichever
  events follow (clicks, keys, focus changes, changes of the colour preference, storage denied or
  changed by another tab), exactly one theme of the menu is a class of the root element and it is
  the current one, exactly one highlighting style sheet is enabled and it is the one of that theme,
  the editors have the matching theme, at most one entry is marked, \<open>aria-expanded\<close> tells whether the menu
  is shown, and once its time-outs have run the colour of the page header is that of the theme.
\<close>

theorem theme_menu_consistent:
  assumes "theme_conf_ok conf"
  shows "let s = run_events (theme_handle conf) es
                   (load_theme_page conf (page_start saved r w dark editors)) in
         is_theme conf (th_previous s) \<and>
         {t \<in> set (th_html s). is_theme conf t} = {th_previous s} \<and>
         [th_ayu_off s, th_tomorrow_off s, th_highlight_off s] = sheets_off (th_previous s) \<and>
         length (filter Not [th_ayu_off s, th_tomorrow_off s, th_highlight_off s]) = 1 \<and>
         (\<forall>themes \<in> set_option (th_editors s). set themes \<subseteq> {ace_theme (th_previous s)}) \<and>
         (\<exists>b. th_selected s \<subseteq> {b}) \<and>
         th_expanded s = th_block s \<and>
         (th_timers s = 0 \<longrightarrow> th_color s = tc_background conf (th_html s))"
proof -
  define s where "s = run_events (theme_handle conf) es
                        (load_theme_page conf (page_start saved r w dark editors))"
  have inv: "theme_inv conf s"
    unfolding s_def
    using theme_script.run_keeps [of conf] load_page_start_inv [OF assms(1)] assms(1) by blast
  then have sheets: "[th_ayu_off s, th_tomorrow_off s, th_highlight_off s] = sheets_off (th_previous s)"
    by (simp add: theme_inv_def)
  have one: "length (filter Not [th_ayu_off s, th_tomorrow_off s, th_highlight_off s]) = 1"
    unfolding sheets by (rule one_sheet_enabled)
  show ?thesis
    unfolding s_def [symmetric] Let_def using inv one unfolding theme_inv_def by blast
qed

lemma theme_menu_consistent_witness:
  "theme_conf_ok demo_conf \<and>
   (let s = run_events (theme_handle demo_conf)
              [ThemeClick AtToggle, ThemeKey False ''ArrowDown'', ThemeClick (AtButton ''mdbook-theme-coal''),
               ColorTimer, ColorTimer]
              (load_theme_page demo_conf (page_start None True True False (Some 1))) in
    th_previous s = ''coal'' \<and> th_editors s = Some [''ace/theme/tomorrow_night''] \<and> th_timers s = 0 \<and>
    {t \<in> set (th_html s). is_theme demo_conf t} = {''coal''} \<and> th_color s = ''sidebar-visiblejscoal'')"
proof -
  let ?s = "run_events (theme_handle demo_conf)
              [ThemeClick AtToggle, ThemeKey False ''ArrowDown'', ThemeClick (AtButton ''mdbook-theme-coal''),
               ColorTimer, ColorTimer]
              (load_theme_page demo_conf (page_start None True True False (Some 1)))"
  have "th_previous ?s = ''coal''" "th_editors ?s = Some [''ace/theme/tomorrow_night'']" "th_timers ?s = 0"
      "th_html ?s = [''sidebar-visible'', ''js'', ''coal'']"
    by code_simp+
  then show ?thesis
    using theme_menu_consistent [OF demo_conf_ok,
        of "[ThemeClick AtToggle, ThemeKey False ''ArrowDown'', ThemeClick (AtButton ''mdbook-theme-coal''),
             ColorTimer, ColorTimer]" None True True False "Some 1"] demo_conf_ok
    by (simp add: Let_def) (simp add: demo_conf_def)
qed

text \<open>The effect of clicking a button that is not marked.\<close>

lemma theme_click_button:
  assumes "theme_conf_ok conf" "is_theme conf t" "theme_prefix @ t \<notin> th_selected s"
  shows "theme_handle conf (ThemeClick (AtButton (theme_prefix @ t))) s = choose_theme conf t s"
  using assms
  by (simp add: theme_handle_def theme_click_def place_ok_def is_theme_def in_popup_def
      theme_document_click_def popup_click_def clicked_button_def className_theme_def split_beta)

lemma updateThemeSelected_saved:
  assumes "theme_conf_ok conf" "get_saved_theme s = Some t" "is_theme conf t"
  shows "updateThemeSelected conf s = js_ok (s\<lparr>th_selected := {theme_prefix @ t}\<rparr>)"
  using assms(2) query_theme [OF assms(1,3)]
  by (simp add: updateThemeSelected_def Let_def get_saved_theme_def split: if_splits)

lemma updateThemeSelected_default:
  assumes "theme_conf_ok conf" "get_saved_theme s = None" "is_theme conf ''default_theme''"
  shows "updateThemeSelected conf s = js_ok (s\<lparr>th_selected := {theme_prefix @ ''default_theme''}\<rparr>)"
proof -
  have "get_saved_theme (s\<lparr>th_selected := {}\<rparr>) = None"
    using assms(2) by (simp add: get_saved_theme_def split: if_splits)
  then show ?thesis
    using query_theme [OF assms(1,3)] by (simp add: updateThemeSelected_def Let_def)
qed

lemma choose_theme_stored:
  assumes "theme_conf_ok conf" "theme_inv conf s" "is_theme conf t" "t \<noteq> ''default_theme''"
    and "th_readable s" "th_writable s"
  shows "choose_theme conf t s = js_ok ((themed t True s)\<lparr>th_selected := {theme_prefix @ t}\<rparr>)"
proof -
  have "get_saved_theme (themed t True s) = Some t"
    using assms(5,6) by (simp add: get_saved_theme_def themed_def)
  then show ?thesis
    using set_theme_eq [OF assms(1,3)] updateThemeSelected_saved [OF assms(1) _ assms(3)] assms(2,4)
    by (simp add: choose_theme_def theme_inv_def)
qed

lemma choose_default_stored:
  assumes "theme_conf_ok conf" "theme_inv conf s" "is_theme conf ''default_theme''" "th_readable s"
    and "default_for conf s = Ok d"
  shows "choose_theme conf ''default_theme'' s =
           js_ok ((themed d False (s\<lparr>th_saved := None\<rparr>))\<lparr>th_selected := {theme_prefix @ ''default_theme''}\<rparr>)"
proof -
  let ?s = "s\<lparr>th_saved := None\<rparr>"
  have g: "get_theme conf ?s = Ok d"
    using assms(5) by (simp add: get_theme_def get_saved_theme_def default_for_def split: option.splits if_splits)
  have d: "is_theme conf d" using default_for_ok [OF assms(1), of s] assms(5) by auto
  have "get_saved_theme (themed d False ?s) = None"
    by (simp add: get_saved_theme_def themed_def)
  then show ?thesis
    using set_theme_eq [OF assms(1) d, of ?s] updateThemeSelected_default [OF assms(1) _ assms(3)]
      assms(2,4) g
    by (simp add: choose_theme_def theme_inv_def delete_saved_theme_def set_current_theme_def)
qed

lemma reload_theme:
  assumes "theme_conf_ok conf"
  shows "is_theme conf t \<Longrightarrow> th_previous (load_theme_page conf (page_start (Some t) True w dark n)) = t"
    and "Some (th_previous (load_theme_page conf (page_start None r w dark n))) =
           (if dark then tc_dark conf else tc_light conf)"
proof -
  obtain l d where ld: "tc_light conf = Some l" "tc_dark conf = Some d"
    using theme_defaults [OF assms] by blast
  have "is_theme conf t \<Longrightarrow> get_theme conf (page_start (Some t) True w dark n) = Ok t"
    by (simp add: get_theme_def get_saved_theme_def page_start_def themeIds_def is_theme_def)
  then show "is_theme conf t \<Longrightarrow> th_previous (load_theme_page conf (page_start (Some t) True w dark n)) = t"
    using load_theme_page_previous [OF assms] by blast
  have "get_theme conf (page_start None r w dark n) = Ok (if dark then d else l)"
    using ld by (simp add: get_theme_def get_saved_theme_def page_start_def default_for_def)
  then show "Some (th_previous (load_theme_page conf (page_start None r w dark n))) =
           (if dark then tc_dark conf else tc_light conf)"
    using load_theme_page_previous [OF assms] ld by simp
qed

text \<open>
  C35. A choice in the theme menu is kept. When storage can be used, clicking an entry that is not the
  marked one applies that theme without an exception, stores it and marks it, and every later load
  of a page shows the same theme whatever the colour preference then is. The entry
  \<open>default_theme\<close> removes the stored theme, and later loads follow the preference.
\<close>

theorem theme_choice_survives_reload:
  assumes "theme_conf_ok conf" "theme_inv conf s" "is_theme conf t"
    and "theme_prefix @ t \<notin> th_selected s" "th_readable s" "th_writable s"
  shows "let r = theme_handle conf (ThemeClick (AtButton (theme_prefix @ t))) s;
             reload = load_theme_page conf (page_start (th_saved (fst r)) True w dark editors)
         in snd r = None \<and> th_selected (fst r) = {theme_prefix @ t} \<and>
            (if t = ''default_theme''
             then th_saved (fst r) = None \<and> Ok (th_previous (fst r)) = default_for conf s \<and>
                  Some (th_previous reload) = (if dark then tc_dark conf else tc_light conf)
             else th_saved (fst r) = Some t \<and> th_previous (fst r) = t \<and> th_previous reload = t)"
proof (cases "t = ''default_theme''")
  case True
  obtain d where d: "default_for conf s = Ok d" using default_for_ok [OF assms(1)] by blast
  show ?thesis
    using theme_click_button [OF assms(1,3,4)] choose_default_stored [OF assms(1,2) _ assms(5) d]
      assms(3) reload_theme(2) [OF assms(1)] d True
    by (simp add: Let_def themed_def)
next
  case False
  then show ?thesis
    using theme_click_button [OF assms(1,3,4)] choose_theme_stored [OF assms(1-3) _ assms(5,6)]
      assms(3,5,6) reload_theme(1) [OF assms(1)]
    by (simp add: Let_def themed_def)
qed

lemma theme_choice_survives_reload_witness:
  "let s = load_theme_page demo_conf (page_start None True True False None) in
   theme_inv demo_conf s \<and> theme_prefix @ ''ayu'' \<notin> th_selected s \<and>
   th_saved (fst (theme_handle demo_conf (ThemeClick (AtButton (theme_prefix @ ''ayu''))) s)) = Some ''ayu''"
proof -
  let ?s = "load_theme_page demo_conf (page_start None True True False None)"
  have inv: "theme_inv demo_conf ?s" by (rule load_page_start_inv [OF demo_conf_ok])
  have t: "is_theme demo_conf ''ayu''" "theme_prefix @ ''ayu'' \<notin> th_selected ?s"
      "th_readable ?s" "th_writable ?s"
    by code_simp+
  show ?thesis
    using theme_choice_survives_reload [OF demo_conf_ok inv t(1,2,3,4)] inv t by (simp add: Let_def)
qed

text \<open>
  Without access to storage the menu cannot be returned to the default. \<open>delete_saved_theme\<close> has no
  guard, so the entry \<open>default_theme\<close>, when it is not the marked one, throws and changes nothing; and
  since nothing is stored, choosing a theme applies it but marks the entry \<open>default_theme\<close>, which from then
  on ignores clicks.
\<close>

theorem theme_default_needs_storage:
  assumes "theme_conf_ok conf" "theme_inv conf s" "\<not> th_readable s"
    and "is_theme conf ''default_theme''" "is_theme conf t" "t \<noteq> ''default_theme''"
    and "theme_prefix @ t \<notin> th_selected s"
  shows "let click = (\<lambda>name. theme_handle conf (ThemeClick (AtButton (theme_prefix @ name))));
             s' = fst (click t s)
         in (theme_prefix @ ''default_theme'' \<notin> th_selected s \<longrightarrow>
               click ''default_theme'' s = js_throw JsSecurityError s) \<and>
            th_previous s' = t \<and> th_selected s' = {theme_prefix @ ''default_theme''} \<and>
            click ''default_theme'' s' = js_ok s'"
proof -
  have prev: "is_theme conf (th_previous s)" using assms(2) by (simp add: theme_inv_def)
  have denied: "get_saved_theme (themed t True s) = None"
    using assms(3) by (simp add: get_saved_theme_def themed_def)
  have t: "theme_handle conf (ThemeClick (AtButton (theme_prefix @ t))) s =
      js_ok ((themed t True s)\<lparr>th_selected := {theme_prefix @ ''default_theme''}\<rparr>)"
    using theme_click_button [OF assms(1,5,7)] set_theme_eq [OF assms(1,5) prev] assms(6)
      updateThemeSelected_default [OF assms(1) denied assms(4)]
    by (simp add: choose_theme_def)
  have throw: "theme_prefix @ ''default_theme'' \<notin> th_selected s \<Longrightarrow>
      theme_handle conf (ThemeClick (AtButton (theme_prefix @ ''default_theme''))) s = js_throw JsSecurityError s"
    using theme_click_button [OF assms(1,4)] assms(3)
    by (simp add: choose_theme_def delete_saved_theme_def)
  have ignored: "b \<in> th_selected s' \<Longrightarrow> b \<in> set (tc_buttons conf) \<Longrightarrow>
      theme_handle conf (ThemeClick (AtButton b)) s' = js_ok s'" for b s'
    by (simp add: theme_handle_def theme_click_def place_ok_def in_popup_def popup_click_def
        clicked_button_def className_theme_def theme_document_click_def js_ok_def)
  show ?thesis
    using throw assms(4) by (simp add: Let_def t ignored is_theme_def themed_def)
qed

lemma theme_default_needs_storage_witness:
  "let s = load_theme_page demo_conf (page_start None False False False None) in
   \<not> th_readable s \<and> theme_inv demo_conf s \<and>
   th_selected (fst (theme_handle demo_conf (ThemeClick (AtButton (theme_prefix @ ''coal''))) s)) =
     {theme_prefix @ ''default_theme''}"
proof -
  let ?s = "load_theme_page demo_conf (page_start None False False False None)"
  have inv: "theme_inv demo_conf ?s" by (rule load_page_start_inv [OF demo_conf_ok])
  have t: "\<not> th_readable ?s" "is_theme demo_conf ''default_theme''" "is_theme demo_conf ''coal''"
      "''coal'' \<noteq> ''default_theme''" "theme_prefix @ ''coal'' \<notin> th_selected ?s"
    by code_simp+
  show ?thesis
    using theme_default_needs_storage [OF demo_conf_ok inv t] inv t by (simp add: Let_def)
qed

end
