(* ===== verification/BookSidebar.thy ===== *)
theory BookSidebar
  imports Dom Complex_Main
begin

text \<open>
  The sidebar of the documentation pages, \<open>sidebar\<close> of \<open>src/docs/book-a0b12cfe.js\<close>, after the inline
  scripts of the page (\<open>src/docs/index.html\<close>) that decide whether it starts open. The state holds the
  classes, attributes and styles the scripts change, the hidden check box behind the toggle, and the
  drag and touch in progress; lengths are rational pixels, times milliseconds. The lemmas relate
  the attributes for assistive technology to the class that shows the sidebar, the check box to
  both, and bound the width.
\<close>

section \<open>State\<close>

record sidebar_state =
  sb_visible :: bool \<comment> \<open>the root element has class \<open>sidebar-visible\<close>\<close>
  sb_resizing :: bool \<comment> \<open>the root element has class \<open>sidebar-resizing\<close>\<close>
  sb_listening :: bool \<comment> \<open>the window has the listeners \<open>resize\<close> and \<open>stopResize\<close>\<close>
  sb_display_none :: bool \<comment> \<open>\<open>style.display\<close> of the sidebar is \<open>none\<close>\<close>
  sb_checked :: bool \<comment> \<open>the check box\<close>
  sb_tabs :: "int list" \<comment> \<open>\<open>tabIndex\<close> of the links\<close>
  sb_expanded :: bool \<comment> \<open>\<open>aria-expanded\<close> of the toggle\<close>
  sb_aria_hidden :: bool \<comment> \<open>\<open>aria-hidden\<close> of the sidebar\<close>
  sb_stored :: "string option" \<comment> \<open>\<open>mdbook-sidebar\<close> in the local storage\<close>
  sb_writable :: bool
  sb_width :: "rat option" \<comment> \<open>\<open>--sidebar-target-width\<close> in pixels, when set\<close>
  sb_contact :: "(rat \<times> int) option" \<comment> \<open>\<open>firstContact\<close>: position and time\<close>

section \<open>Handlers\<close>

definition sidebar_store :: "string \<Rightarrow> sidebar_state \<Rightarrow> sidebar_state" where
  "sidebar_store v s = (if sb_writable s then s\<lparr>sb_stored := Some v\<rparr> else s)"

definition showSidebar :: "sidebar_state \<Rightarrow> sidebar_state" where
  "showSidebar s =
     sidebar_store ''visible''
       (s\<lparr>sb_visible := True, sb_tabs := map (\<lambda>_. 0) (sb_tabs s), sb_expanded := True,
          sb_aria_hidden := False\<rparr>)"

definition hideSidebar :: "sidebar_state \<Rightarrow> sidebar_state" where
  "hideSidebar s =
     sidebar_store ''hidden''
       (s\<lparr>sb_visible := False, sb_tabs := map (\<lambda>_. - 1) (sb_tabs s), sb_expanded := False,
          sb_aria_hidden := True\<rparr>)"

definition sidebar_transitionend :: "sidebar_state \<Rightarrow> sidebar_state" where
  "sidebar_transitionend s = (if \<not> sb_checked s then s\<lparr>sb_display_none := True\<rparr> else s)"

definition sidebar_toggle_click :: "sidebar_state \<Rightarrow> sidebar_state" where
  "sidebar_toggle_click s = (if \<not> sb_checked s then s\<lparr>sb_display_none := False\<rparr> else s)"

text \<open>\<open>parseInt\<close> of a length truncates it; of an unset property it is \<open>NaN\<close>, which compares false.\<close>

definition parse_px :: "rat \<Rightarrow> int" where
  "parse_px w = (if w \<ge> 0 then \<lfloor>w\<rfloor> else \<lceil>w\<rceil>)"

definition ensure_width :: "sidebar_state \<Rightarrow> sidebar_state" where
  "ensure_width s =
     (case sb_width s of
        None \<Rightarrow> s
      | Some w \<Rightarrow> if parse_px w < 150 then s\<lparr>sb_width := Some 150\<rparr> else s)"

definition sidebarToggle :: "sidebar_state \<Rightarrow> sidebar_state" where
  "sidebarToggle s = (if sb_checked s then showSidebar (ensure_width s) else hideSidebar s)"

definition initResize :: "sidebar_state \<Rightarrow> sidebar_state" where
  "initResize s = s\<lparr>sb_listening := True, sb_resizing := True\<rparr>"

definition resize :: "rat \<Rightarrow> rat \<Rightarrow> rat \<Rightarrow> sidebar_state \<Rightarrow> sidebar_state" where
  "resize clientX offsetLeft innerWidth s =
     (let pos = clientX - offsetLeft in
      if pos < 20 then hideSidebar s
      else
        (let s = (if \<not> sb_visible s then showSidebar s else s)
         in s\<lparr>sb_width := Some (min pos (innerWidth - 100))\<rparr>))"

definition stopResize :: "sidebar_state \<Rightarrow> sidebar_state" where
  "stopResize s = s\<lparr>sb_resizing := False, sb_listening := False\<rparr>"

definition sidebar_touchstart :: "rat \<Rightarrow> int \<Rightarrow> sidebar_state \<Rightarrow> sidebar_state" where
  "sidebar_touchstart x time s = s\<lparr>sb_contact := Some (x, time)\<rparr>"

definition sidebar_touchmove :: "rat \<Rightarrow> int \<Rightarrow> rat \<Rightarrow> sidebar_state \<Rightarrow> sidebar_state" where
  "sidebar_touchmove curX now clientWidth s =
     (case sb_contact s of
        None \<Rightarrow> s
      | Some (x, time) \<Rightarrow>
          (let xDiff = curX - x; tDiff = now - time in
           if tDiff < 250 \<and> \<bar>xDiff\<bar> \<ge> 150 then
             (if xDiff \<ge> 0 \<and> x < min (clientWidth * (1 / 4)) 300 then showSidebar s
              else if xDiff < 0 \<and> curX < 300 then hideSidebar s
              else s)\<lparr>sb_contact := None\<rparr>
           else s))"

text \<open>
  The events. A click on the toggle, a label, runs its listener; the label then changes the check
  box, whose \<open>change\<close> event runs \<open>sidebarToggle\<close>. The mouse moves with the window as target, so its
  events reach \<open>resize\<close> only while a drag is in progress.
\<close>

datatype sidebar_event =
    ToggleClick
  | TransitionEnd
  | HandleDown
  | MouseMove rat rat rat \<comment> \<open>\<open>clientX\<close>, \<open>offsetLeft\<close> of the sidebar, \<open>innerWidth\<close> of the window\<close>
  | MouseUp
  | TouchStart rat int
  | TouchMove rat int rat \<comment> \<open>position, time, \<open>clientWidth\<close> of the body\<close>

definition sidebar_handle :: "sidebar_event \<Rightarrow> sidebar_state \<Rightarrow> sidebar_state" where
  "sidebar_handle ev s =
     (case ev of
        ToggleClick \<Rightarrow>
          (let s = sidebar_toggle_click s in sidebarToggle (s\<lparr>sb_checked := \<not> sb_checked s\<rparr>))
      | TransitionEnd \<Rightarrow> sidebar_transitionend s
      | HandleDown \<Rightarrow> initResize s
      | MouseMove x l w \<Rightarrow> if sb_listening s then resize x l w s else s
      | MouseUp \<Rightarrow> if sb_listening s then stopResize s else s
      | TouchStart x t \<Rightarrow> sidebar_touchstart x t s
      | TouchMove x t w \<Rightarrow> sidebar_touchmove x t w s)"

text \<open>The inline scripts: the class list starts with \<open>sidebar-visible\<close> and the check box unchecked; then
  \<open>sidebar\<close> hides a closed sidebar.\<close>

definition inline_sidebar :: "rat \<Rightarrow> string option \<Rightarrow> string" where
  "inline_sidebar clientWidth stored =
     (if clientWidth \<ge> 1080 then
        (case stored of None \<Rightarrow> ''visible'' | Some v \<Rightarrow> if v = [] then ''visible'' else v)
      else ''hidden'')"

definition load_sidebar :: "rat \<Rightarrow> string option \<Rightarrow> bool \<Rightarrow> nat \<Rightarrow> sidebar_state" where
  "load_sidebar clientWidth stored writable links =
     (let visible = (inline_sidebar clientWidth stored = ''visible'') in
      \<lparr>sb_visible = visible, sb_resizing = False, sb_listening = False, sb_display_none = \<not> visible,
       sb_checked = visible, sb_tabs = replicate links (if visible then 0 else - 1),
       sb_expanded = visible, sb_aria_hidden = \<not> visible, sb_stored = stored, sb_writable = writable,
       sb_width = None, sb_contact = None\<rparr>)"

definition sidebar_run :: "sidebar_event list \<Rightarrow> sidebar_state \<Rightarrow> sidebar_state" where
  "sidebar_run evs s = run_events (\<lambda>ev s. js_ok (sidebar_handle ev s)) evs s"

section \<open>Invariants\<close>

text \<open>The attributes say what the class shows.\<close>

definition sidebar_labelled :: "sidebar_state \<Rightarrow> bool" where
  "sidebar_labelled s \<longleftrightarrow>
     sb_expanded s = sb_visible s \<and> sb_aria_hidden s = (\<not> sb_visible s) \<and>
     set (sb_tabs s) \<subseteq> {if sb_visible s then 0 else - 1} \<and>
     sb_resizing s = sb_listening s"

text \<open>The check box and the display style agree with the class.\<close>

definition sidebar_synced :: "sidebar_state \<Rightarrow> bool" where
  "sidebar_synced s \<longleftrightarrow>
     sb_checked s = sb_visible s \<and> (sb_display_none s \<longrightarrow> \<not> sb_visible s) \<and> \<not> sb_listening s"

lemma ensure_width_cases: "ensure_width s = s \<or> ensure_width s = s\<lparr>sb_width := Some 150\<rparr>"
  by (simp add: ensure_width_def split: option.split)

lemma ensure_width_fields [simp]:
  "sb_visible (ensure_width s) = sb_visible s" "sb_checked (ensure_width s) = sb_checked s"
  "sb_display_none (ensure_width s) = sb_display_none s" "sb_listening (ensure_width s) = sb_listening s"
  "sb_writable (ensure_width s) = sb_writable s" "sb_stored (ensure_width s) = sb_stored s"
  using ensure_width_cases [of s] by auto

lemma show_hide_fields [simp]:
  "sb_visible (showSidebar s)" "\<not> sb_visible (hideSidebar s)"
  "sb_expanded (showSidebar s)" "\<not> sb_expanded (hideSidebar s)"
  "sb_width (showSidebar s) = sb_width s" "sb_width (hideSidebar s) = sb_width s"
  "sb_checked (showSidebar s) = sb_checked s" "sb_checked (hideSidebar s) = sb_checked s"
  "sb_display_none (showSidebar s) = sb_display_none s" "sb_display_none (hideSidebar s) = sb_display_none s"
  "sb_listening (showSidebar s) = sb_listening s" "sb_listening (hideSidebar s) = sb_listening s"
  "sb_writable (showSidebar s) = sb_writable s" "sb_writable (hideSidebar s) = sb_writable s"
  "sb_stored (showSidebar s) = (if sb_writable s then Some ''visible'' else sb_stored s)"
  "sb_stored (hideSidebar s) = (if sb_writable s then Some ''hidden'' else sb_stored s)"
  by (simp_all add: showSidebar_def hideSidebar_def sidebar_store_def)

lemma labelled_show_hide:
  "sidebar_labelled s \<Longrightarrow> sidebar_labelled (showSidebar s)"
  "sidebar_labelled s \<Longrightarrow> sidebar_labelled (hideSidebar s)"
  by (auto simp: sidebar_labelled_def showSidebar_def hideSidebar_def sidebar_store_def)

lemma labelled_fields:
  "sidebar_labelled s \<Longrightarrow> sidebar_labelled (s\<lparr>sb_width := w\<rparr>)"
  "sidebar_labelled s \<Longrightarrow> sidebar_labelled (s\<lparr>sb_contact := c\<rparr>)"
  "sidebar_labelled s \<Longrightarrow> sidebar_labelled (s\<lparr>sb_checked := b\<rparr>)"
  "sidebar_labelled s \<Longrightarrow> sidebar_labelled (s\<lparr>sb_display_none := b\<rparr>)"
  "sidebar_labelled s \<Longrightarrow> sidebar_labelled (ensure_width s)"
  using ensure_width_cases [of s] by (auto simp: sidebar_labelled_def)

lemma labelled_handle: "sidebar_labelled s \<Longrightarrow> sidebar_labelled (sidebar_handle ev s)"
proof (cases ev)
  case HandleDown
  moreover assume "sidebar_labelled s"
  ultimately show ?thesis by (simp add: sidebar_handle_def initResize_def sidebar_labelled_def)
next
  case MouseUp
  moreover assume "sidebar_labelled s"
  ultimately show ?thesis by (simp add: sidebar_handle_def stopResize_def sidebar_labelled_def)
qed (auto simp: sidebar_handle_def sidebarToggle_def sidebar_toggle_click_def sidebar_transitionend_def
    resize_def sidebar_touchstart_def sidebar_touchmove_def Let_def labelled_show_hide labelled_fields
    split: option.split)

interpretation sidebar_script: page_script "\<lambda>ev s. js_ok (sidebar_handle ev s)" sidebar_labelled
  by unfold_locales (simp add: labelled_handle)

lemma sidebar_run_simps [simp]:
  "sidebar_run [] s = s"
  "sidebar_run (ev # evs) s = sidebar_run evs (sidebar_handle ev s)"
  by (simp_all add: sidebar_run_def)

lemma load_sidebar_ok:
  "sidebar_labelled (load_sidebar w st wr n)" "sidebar_synced (load_sidebar w st wr n)"
  by (auto simp: load_sidebar_def sidebar_labelled_def sidebar_synced_def Let_def)

text \<open>The toggle, alone.\<close>

definition toggle_event :: "sidebar_event \<Rightarrow> bool" where
  "toggle_event ev \<longleftrightarrow> ev = ToggleClick \<or> ev = TransitionEnd"

lemma synced_toggle:
  assumes "sidebar_synced s" "toggle_event ev"
  shows "sidebar_synced (sidebar_handle ev s)"
    and "sb_visible (sidebar_handle ev s) = (sb_visible s \<noteq> (ev = ToggleClick))"
    and "sb_writable (sidebar_handle ev s) = sb_writable s"
    and "sb_stored (sidebar_handle ev s) =
           (if ev = ToggleClick \<and> sb_writable s then Some (if sb_visible s then ''hidden'' else ''visible'')
            else sb_stored s)"
  using assms
  by (auto simp: toggle_event_def sidebar_handle_def sidebar_synced_def sidebar_toggle_click_def
      sidebarToggle_def sidebar_transitionend_def Let_def)

lemma synced_toggles:
  assumes "sidebar_synced s" "list_all toggle_event evs"
  shows "sidebar_synced (sidebar_run evs s)"
    and "sb_visible (sidebar_run evs s) = (sb_visible s \<noteq> odd (length (filter ((=) ToggleClick) evs)))"
    and "sb_writable s \<Longrightarrow> ToggleClick \<in> set evs \<Longrightarrow>
           sb_stored (sidebar_run evs s) = Some (if sb_visible (sidebar_run evs s) then ''visible'' else ''hidden'')"
proof -
  have "sidebar_synced (sidebar_run evs s) \<and>
      sb_visible (sidebar_run evs s) = (sb_visible s \<noteq> odd (length (filter ((=) ToggleClick) evs)))"
    using assms by (induction evs arbitrary: s) (auto simp: synced_toggle)
  then show "sidebar_synced (sidebar_run evs s)"
    and "sb_visible (sidebar_run evs s) = (sb_visible s \<noteq> odd (length (filter ((=) ToggleClick) evs)))"
    by blast+
  have keep: "sb_writable s \<Longrightarrow> list_all toggle_event evs \<Longrightarrow> sidebar_synced s \<Longrightarrow>
      sb_stored s = Some (if sb_visible s then ''visible'' else ''hidden'') \<or> ToggleClick \<in> set evs \<Longrightarrow>
      sb_stored (sidebar_run evs s) = Some (if sb_visible (sidebar_run evs s) then ''visible'' else ''hidden'')" for s
  proof (induction evs arbitrary: s)
    case Nil
    then show ?case by simp
  next
    case (Cons ev evs)
    have ev: "sidebar_synced s" "toggle_event ev" using Cons.prems by simp_all
    have "sb_stored (sidebar_handle ev s) =
        Some (if sb_visible (sidebar_handle ev s) then ''visible'' else ''hidden'') \<or> ToggleClick \<in> set evs"
      using synced_toggle [OF ev] Cons.prems by (cases "ev = ToggleClick") auto
    then show ?case
      using Cons.IH [of "sidebar_handle ev s"] synced_toggle [OF ev] Cons.prems by simp
  qed
  then show "sb_writable s \<Longrightarrow> ToggleClick \<in> set evs \<Longrightarrow>
      sb_stored (sidebar_run evs s) = Some (if sb_visible (sidebar_run evs s) then ''visible'' else ''hidden'')"
    using assms by blast
qed

text \<open>
  The sidebar is described as it is shown. In every run of a page, with clicks, drags and swipes in
  any order, the attributes for assistive technology and the tab order of the links agree with the
  class that shows the sidebar. With the toggle alone, the check box agrees with it too, a shown
  sidebar is displayed, every click flips it, and the stored state makes the next page in a wide
  window start the same way.
\<close>

theorem sidebar_described_as_shown:
  "sidebar_labelled (sidebar_run evs (load_sidebar w stored wr n)) \<and>
   (list_all toggle_event evs \<longrightarrow>
     (let s0 = load_sidebar w stored wr n; s = sidebar_run evs s0 in
      sb_checked s = sb_visible s \<and> (sb_visible s \<longrightarrow> \<not> sb_display_none s) \<and>
      sb_visible s = (sb_visible s0 \<noteq> odd (length (filter ((=) ToggleClick) evs))) \<and>
      (wr \<and> ToggleClick \<in> set evs \<and> 1080 \<le> w' \<longrightarrow>
         sb_visible (load_sidebar w' (sb_stored s) wr' n') = sb_visible s)))"
proof -
  let ?s0 = "load_sidebar w stored wr n"
  have labelled: "sidebar_labelled (sidebar_run evs ?s0)"
    unfolding sidebar_run_def by (rule sidebar_script.run_keeps) (rule load_sidebar_ok)
  have wr: "sb_writable ?s0 = wr" by (simp add: load_sidebar_def Let_def)
  have reload: "1080 \<le> w' \<Longrightarrow> sb_stored s = Some (if sb_visible s then ''visible'' else ''hidden'') \<Longrightarrow>
      sb_visible (load_sidebar w' (sb_stored s) wr' n') = sb_visible s" for s
    by (simp add: load_sidebar_def inline_sidebar_def Let_def)
  show ?thesis
    using labelled synced_toggles [OF load_sidebar_ok(2) [of w stored wr n], of evs] wr
      reload [of "sidebar_run evs ?s0"]
    by (auto simp: Let_def sidebar_synced_def)
qed

lemma sidebar_described_as_shown_witness:
  "list_all toggle_event [ToggleClick, TransitionEnd] \<and>
   \<not> sb_visible (sidebar_run [ToggleClick, TransitionEnd] (load_sidebar 1200 None True 3)) \<and>
   \<not> sb_visible (load_sidebar 1200
        (sb_stored (sidebar_run [ToggleClick, TransitionEnd] (load_sidebar 1200 None True 3))) True 3)"
proof -
  have "list_all toggle_event [ToggleClick, TransitionEnd]" "sb_visible (load_sidebar 1200 None True 3)"
    by code_simp+
  then show ?thesis
    using sidebar_described_as_shown [of "[ToggleClick, TransitionEnd]" 1200 None True 3 1200 True 3]
    by (auto simp: Let_def)
qed

text \<open>The width.\<close>

definition width_ok :: "rat \<Rightarrow> sidebar_state \<Rightarrow> bool" where
  "width_ok W s \<longleftrightarrow> (\<forall>w \<in> set_option (sb_width s). 20 \<le> w \<and> w \<le> max 150 (W - 100))"

definition window_width :: "rat \<Rightarrow> sidebar_event \<Rightarrow> bool" where
  "window_width W ev \<longleftrightarrow> (case ev of MouseMove _ _ w \<Rightarrow> 120 \<le> w \<and> w \<le> W | _ \<Rightarrow> True)"

lemma parse_px_less: "parse_px w < 150 \<longleftrightarrow> w < 150"
  by (auto simp: parse_px_def floor_less_iff)

lemma ensure_width_bounds: "sb_width (ensure_width s) = Some w \<Longrightarrow> 150 \<le> w"
  by (auto simp: ensure_width_def parse_px_less split: option.splits if_splits)

lemma ensure_width_ok: "width_ok W s \<Longrightarrow> width_ok W (ensure_width s)"
  using ensure_width_cases [of s] by (auto simp: width_ok_def)

lemma width_handle:
  assumes "width_ok W s" "window_width W ev"
  shows "width_ok W (sidebar_handle ev s)"
proof (cases ev)
  case (TouchMove x t w)
  then show ?thesis
    using assms by (simp add: sidebar_handle_def sidebar_touchmove_def Let_def width_ok_def split: option.split)
next
  case (MouseMove x l w)
  have "20 \<le> x - l \<Longrightarrow> 20 \<le> min (x - l) (w - 100) \<and> min (x - l) (w - 100) \<le> max 150 (W - 100)"
    using assms(2) MouseMove by (auto simp: window_width_def)
  then show ?thesis
    using assms MouseMove by (auto simp: sidebar_handle_def resize_def Let_def width_ok_def)
next
  case ToggleClick
  have fields: "width_ok W (s\<lparr>sb_checked := b\<rparr>)" "width_ok W (s\<lparr>sb_display_none := c, sb_checked := b\<rparr>)"
    for b c
    using assms by (simp_all add: width_ok_def)
  have show_hide: "width_ok W u \<Longrightarrow> width_ok W (showSidebar u) \<and> width_ok W (hideSidebar u)" for u
    by (simp add: width_ok_def)
  show ?thesis
    using ToggleClick fields
    by (simp add: sidebar_handle_def sidebarToggle_def sidebar_toggle_click_def Let_def show_hide
        ensure_width_ok)
qed (use assms in \<open>simp_all add: sidebar_handle_def width_ok_def sidebar_transitionend_def initResize_def
    stopResize_def sidebar_touchstart_def\<close>)

lemma width_run:
  "width_ok W s \<Longrightarrow> list_all (window_width W) evs \<Longrightarrow> width_ok W (sidebar_run evs s)"
  by (induction evs arbitrary: s) (simp_all add: width_handle)

text \<open>
  The width of the sidebar stays usable: while the window is between 120 and \<open>W\<close> pixels wide, every
  width a drag sets is at least 20 pixels and leaves 100 pixels of the window, and opening the sidebar
  with the toggle gives it at least 150 pixels or the width of the style sheet.
\<close>

theorem sidebar_width_bounds:
  assumes "list_all (window_width W) evs"
  shows "let s = sidebar_run evs (load_sidebar cw stored wr n) in
         (\<forall>w \<in> set_option (sb_width s). 20 \<le> w \<and> w \<le> max 150 (W - 100)) \<and>
         (sb_visible (sidebar_handle ToggleClick s) \<longrightarrow>
           (\<forall>w \<in> set_option (sb_width (sidebar_handle ToggleClick s)). 150 \<le> w))"
proof -
  define s where "s = sidebar_run evs (load_sidebar cw stored wr n)"
  have "width_ok W (load_sidebar cw stored wr n)"
    by (simp add: load_sidebar_def width_ok_def Let_def)
  then have "width_ok W s" unfolding s_def using width_run assms(1) by blast
  moreover have "sb_visible (sidebar_handle ToggleClick s) \<Longrightarrow>
      w \<in> set_option (sb_width (sidebar_handle ToggleClick s)) \<Longrightarrow> 150 \<le> w" for w
    by (auto simp: sidebar_handle_def sidebarToggle_def sidebar_toggle_click_def Let_def
        dest: ensure_width_bounds split: if_splits)
  ultimately show ?thesis by (auto simp: width_ok_def s_def [symmetric] Let_def)
qed

lemma sidebar_width_bounds_witness:
  "let evs = [HandleDown, MouseMove 70 0 800, MouseUp, ToggleClick];
       s = sidebar_run evs (load_sidebar 1200 None True 3) in
   list_all (window_width 800) evs \<and> sb_width s = Some 70 \<and>
   sb_width (sidebar_handle ToggleClick s) = Some 150"
proof -
  let ?evs = "[HandleDown, MouseMove 70 0 800, MouseUp, ToggleClick]"
  let ?s = "sidebar_run ?evs (load_sidebar 1200 None True 3)"
  have "list_all (window_width 800) ?evs" "sb_width ?s = Some 70"
      "sb_visible (sidebar_handle ToggleClick ?s)" "sb_width (sidebar_handle ToggleClick ?s) = Some 150"
    by code_simp+
  then show ?thesis
    using sidebar_width_bounds [of 800 ?evs 1200 None True 3] by (simp add: Let_def)
qed

text \<open>
  C36. Swipes and drags leave the check box behind. A swipe that opens a closed sidebar adds the class and
  announces it as expanded, but the display style stays \<open>none\<close>, so it is not shown; and after a drag
  that closes an open sidebar, the next click on the toggle leaves it closed and only a second one
  opens it.
\<close>

theorem sidebar_swipe_and_drag_desync:
  assumes "sidebar_synced s"
  shows "(\<not> sb_visible s \<and> sb_display_none s \<and> 0 \<le> x \<and> x < min (cw * (1 / 4)) 300 \<and>
           150 \<le> d \<and> t' - t < 250 \<longrightarrow>
         (let s' = sidebar_run [TouchStart x t, TouchMove (x + d) t' cw, TransitionEnd] s in
          sb_visible s' \<and> sb_expanded s' \<and> sb_display_none s')) \<and>
         (sb_visible s \<and> px - l < 20 \<longrightarrow>
         (let s' = sidebar_run [HandleDown, MouseMove px l iw, MouseUp] s in
          \<not> sb_visible s' \<and> \<not> sb_visible (sidebar_handle ToggleClick s') \<and>
          sb_visible (sidebar_run [ToggleClick, ToggleClick] s')))"
proof (intro conjI impI)
  assume a: "\<not> sb_visible s \<and> sb_display_none s \<and> 0 \<le> x \<and> x < min (cw * (1 / 4)) 300 \<and>
      150 \<le> d \<and> t' - t < 250"
  then have swipe: "sidebar_run [TouchStart x t, TouchMove (x + d) t' cw] s = (showSidebar (s\<lparr>sb_contact := Some (x, t)\<rparr>))\<lparr>sb_contact := None\<rparr>"
    by (simp add: sidebar_handle_def sidebar_touchstart_def sidebar_touchmove_def)
  show "let s' = sidebar_run [TouchStart x t, TouchMove (x + d) t' cw, TransitionEnd] s in
      sb_visible s' \<and> sb_expanded s' \<and> sb_display_none s'"
    using a swipe
    by (simp add: Let_def sidebar_handle_def [of TransitionEnd] sidebar_transitionend_def)
next
  assume a: "sb_visible s \<and> px - l < 20"
  then have drag: "sidebar_run [HandleDown, MouseMove px l iw, MouseUp] s =
      stopResize (hideSidebar (initResize s))"
    by (simp add: sidebar_handle_def resize_def initResize_def)
  show "let s' = sidebar_run [HandleDown, MouseMove px l iw, MouseUp] s in
      \<not> sb_visible s' \<and> \<not> sb_visible (sidebar_handle ToggleClick s') \<and>
      sb_visible (sidebar_run [ToggleClick, ToggleClick] s')"
    unfolding drag using a assms
    by (simp add: sidebar_handle_def sidebar_toggle_click_def sidebarToggle_def stopResize_def
        initResize_def sidebar_synced_def Let_def)
qed

lemma sidebar_swipe_and_drag_desync_witness:
  "(let s' = sidebar_run [TouchStart 10 0, TouchMove (10 + 200) 100 400, TransitionEnd] (load_sidebar 400 None True 3)
    in sb_visible s' \<and> sb_expanded s' \<and> sb_display_none s') \<and>
   (let s' = sidebar_run [HandleDown, MouseMove 5 0 1200, MouseUp] (load_sidebar 1200 None True 3) in
    \<not> sb_visible s' \<and> \<not> sb_visible (sidebar_handle ToggleClick s'))"
proof -
  have "\<not> sb_visible (load_sidebar 400 None True 3)" "sb_display_none (load_sidebar 400 None True 3)"
      "sb_visible (load_sidebar 1200 None True 3)"
    by code_simp+
  then show ?thesis
    using sidebar_swipe_and_drag_desync [OF load_sidebar_ok(2) [of 400 None True 3], of 10 400 200 100 0 5 0 1200]
      sidebar_swipe_and_drag_desync [OF load_sidebar_ok(2) [of 1200 None True 3], of 10 400 200 100 0 5 0 1200]
    by (simp add: Let_def)
qed

end
