(* ===== verification/BookNav.thy ===== *)
theory BookNav
  imports Dom
begin

text \<open>
  Keyboard navigation and the help window of the documentation pages, \<open>chapterNavigation\<close> of
  \<open>src/docs/book-a0b12cfe.js\<close>. Every opening of the help window registers a new pair of listeners, so
  the state counts them. The lemmas show how the window is dismissed, what the arrow keys do, and
  which key presses the left-over listeners swallow.
\<close>

section \<open>State and handlers\<close>

record nav_page =
  np_next :: "string option" \<comment> \<open>\<open>href\<close> of the link \<open>.nav-chapters.next\<close>\<close>
  np_previous :: "string option"
  np_rtl :: bool \<comment> \<open>\<open>html.dir === 'rtl'\<close>\<close>

record nav_state =
  nv_help :: bool \<comment> \<open>the help container has display style \<open>flex\<close>\<close>
  nv_escape_handlers :: nat \<comment> \<open>\<open>escapeKeyHandler\<close>s of the document, in the capture phase\<close>
  nv_mouse_handlers :: nat \<comment> \<open>\<open>mouseHandler\<close>s of the help container\<close>
  nv_location :: string

record nav_key =
  nk_key :: string
  nk_modified :: bool \<comment> \<open>alt, ctrl or meta\<close>
  nk_shift :: bool
  nk_search_focus :: bool \<comment> \<open>\<open>window.search\<close> has the focus\<close>

definition nav_go :: "string option \<Rightarrow> nav_state \<Rightarrow> nav_state" where
  "nav_go target s = (case target of None \<Rightarrow> s | Some href \<Rightarrow> s\<lparr>nv_location := href\<rparr>)"

definition nav_next :: "nav_page \<Rightarrow> nav_state \<Rightarrow> nav_state" where
  "nav_next p s = nav_go (np_next p) s"

definition nav_prev :: "nav_page \<Rightarrow> nav_state \<Rightarrow> nav_state" where
  "nav_prev p s = nav_go (np_previous p) s"

definition hideHelp :: "nav_state \<Rightarrow> nav_state" where
  "hideHelp s = s\<lparr>nv_help := False\<rparr>"

definition showHelp :: "nav_state \<Rightarrow> nav_state" where
  "showHelp s =
     s\<lparr>nv_help := True, nv_escape_handlers := nv_escape_handlers s + 1,
       nv_mouse_handlers := nv_mouse_handlers s + 1\<rparr>"

text \<open>
  One \<open>escapeKeyHandler\<close> on a key, and all of them: each removes itself. The result tells whether
  the event goes on to the listeners of the later phases.
\<close>

definition escapeKeyHandler :: "string \<Rightarrow> nav_state \<times> bool \<Rightarrow> nav_state \<times> bool" where
  "escapeKeyHandler key r =
     (case r of (s, on) \<Rightarrow>
        if key = ''Escape'' then (hideHelp (s\<lparr>nv_escape_handlers := nv_escape_handlers s - 1\<rparr>), False)
        else (s, on))"

definition nav_capture :: "string \<Rightarrow> nav_state \<Rightarrow> nav_state \<times> bool" where
  "nav_capture key s = (escapeKeyHandler key ^^ nv_escape_handlers s) (s, True)"

text \<open>One \<open>mouseHandler\<close>: it asks the document, which does not have it, to remove it.\<close>

definition mouseHandler :: "bool \<Rightarrow> nat \<Rightarrow> nav_state \<Rightarrow> nav_state" where
  "mouseHandler in_overlay button s = (if in_overlay then s else if button \<noteq> 0 then s else hideHelp s)"

definition nav_mousedown :: "bool \<Rightarrow> nat \<Rightarrow> nav_state \<Rightarrow> nav_state" where
  "nav_mousedown in_overlay button s = (mouseHandler in_overlay button ^^ nv_mouse_handlers s) s"

definition chapter_keydown :: "nav_page \<Rightarrow> nav_key \<Rightarrow> nav_state \<Rightarrow> nav_state" where
  "chapter_keydown p k s =
     (if nk_modified k then s
      else if nk_search_focus k then s
      else
        (let s = (if nk_key k = ''?'' then showHelp s else s) in
         if nk_shift k then s
         else if nk_key k = ''ArrowRight'' then (if np_rtl p then nav_prev p s else nav_next p s)
         else if nk_key k = ''ArrowLeft'' then (if np_rtl p then nav_next p s else nav_prev p s)
         else s))"

text \<open>A key press: the capture phase, then, unless stopped, the listener of the document. The second
  component tells whether other listeners of the document see the event.\<close>

definition nav_keydown :: "nav_page \<Rightarrow> nav_key \<Rightarrow> nav_state \<Rightarrow> nav_state \<times> bool" where
  "nav_keydown p k s =
     (case nav_capture (nk_key k) s of
        (s, False) \<Rightarrow> (s, False)
      | (s, True) \<Rightarrow> (chapter_keydown p k s, True))"

text \<open>Events; only a shown help container gets mouse events.\<close>

datatype nav_event = NavKey nav_key | HelpMouseDown bool nat

definition nav_handle :: "nav_page \<Rightarrow> nav_event \<Rightarrow> nav_state \<Rightarrow> nav_state" where
  "nav_handle p ev s =
     (case ev of
        NavKey k \<Rightarrow> fst (nav_keydown p k s)
      | HelpMouseDown in_overlay button \<Rightarrow> if nv_help s then nav_mousedown in_overlay button s else s)"

definition nav_run :: "nav_page \<Rightarrow> nav_event list \<Rightarrow> nav_state \<Rightarrow> nav_state" where
  "nav_run p evs s = run_events (\<lambda>ev s. js_ok (nav_handle p ev s)) evs s"

definition nav_start :: "string \<Rightarrow> nav_state" where
  "nav_start href = \<lparr>nv_help = False, nv_escape_handlers = 0, nv_mouse_handlers = 0, nv_location = href\<rparr>"

section \<open>Lemmas\<close>

lemma nav_capture_other: "key \<noteq> ''Escape'' \<Longrightarrow> nav_capture key s = (s, True)"
proof -
  assume "key \<noteq> ''Escape''"
  then have "(escapeKeyHandler key ^^ n) (s, True) = (s, True)" for n
    by (induction n) (simp_all add: escapeKeyHandler_def)
  then show ?thesis by (simp add: nav_capture_def)
qed

lemma escape_handlers_run:
  "(escapeKeyHandler ''Escape'' ^^ n) (s, b) =
     (if n = 0 then (s, b)
      else (s\<lparr>nv_help := False, nv_escape_handlers := nv_escape_handlers s - n\<rparr>, False))"
  by (induction n) (auto simp: escapeKeyHandler_def hideHelp_def)

lemma nav_capture_escape:
  "nav_capture ''Escape'' s =
     (if nv_escape_handlers s = 0 then (s, True)
      else (s\<lparr>nv_help := False, nv_escape_handlers := 0\<rparr>, False))"
  by (simp add: nav_capture_def escape_handlers_run)

lemma nav_mousedown_eq:
  "nav_mousedown in_overlay button s =
     (if \<not> in_overlay \<and> button = 0 \<and> nv_mouse_handlers s \<noteq> 0 then hideHelp s else s)"
proof -
  have "(mouseHandler in_overlay button ^^ n) s =
      (if \<not> in_overlay \<and> button = 0 \<and> n \<noteq> 0 then hideHelp s else s)" for n
    by (induction n) (auto simp: mouseHandler_def hideHelp_def)
  then show ?thesis by (simp add: nav_mousedown_def)
qed

lemma nav_keydown_escape:
  "nk_key k = ''Escape'' \<Longrightarrow>
     nav_keydown p k s =
       (if nv_escape_handlers s = 0 then (s, True)
        else (s\<lparr>nv_help := False, nv_escape_handlers := 0\<rparr>, False))"
  by (simp add: nav_keydown_def nav_capture_escape chapter_keydown_def)

lemma nav_keydown_other:
  "nk_key k \<noteq> ''Escape'' \<Longrightarrow> nav_keydown p k s = (chapter_keydown p k s, True)"
  by (simp add: nav_keydown_def nav_capture_other)

lemma nav_go_fields [simp]:
  "nv_help (nav_go t s) = nv_help s" "nv_escape_handlers (nav_go t s) = nv_escape_handlers s"
  "nv_mouse_handlers (nav_go t s) = nv_mouse_handlers s"
  by (simp_all add: nav_go_def split: option.split)

text \<open>A key press that opens the help window.\<close>

definition asks_help :: "nav_event \<Rightarrow> bool" where
  "asks_help ev \<longleftrightarrow>
     (case ev of NavKey k \<Rightarrow> nk_key k = ''?'' \<and> \<not> nk_modified k \<and> \<not> nk_search_focus k | _ \<Rightarrow> False)"

lemma chapter_keydown_counts:
  "nv_mouse_handlers (chapter_keydown p k s) =
     nv_mouse_handlers s + (if asks_help (NavKey k) then 1 else 0)"
  "nv_escape_handlers (chapter_keydown p k s) =
     nv_escape_handlers s + (if asks_help (NavKey k) then 1 else 0)"
  "nv_help (chapter_keydown p k s) = (nv_help s \<or> asks_help (NavKey k))"
  by (simp_all add: chapter_keydown_def asks_help_def showHelp_def nav_next_def nav_prev_def Let_def)

definition nav_inv :: "nav_state \<Rightarrow> bool" where
  "nav_inv s \<longleftrightarrow> nv_escape_handlers s \<le> nv_mouse_handlers s \<and> (nv_help s \<longrightarrow> 0 < nv_escape_handlers s)"

lemma nav_handle_counts:
  "nv_mouse_handlers (nav_handle p ev s) = nv_mouse_handlers s + (if asks_help ev then 1 else 0)"
  "nav_inv s \<Longrightarrow> nav_inv (nav_handle p ev s)"
proof -
  have "nv_mouse_handlers (nav_handle p ev s) = nv_mouse_handlers s + (if asks_help ev then 1 else 0) \<and>
      (nav_inv s \<longrightarrow> nav_inv (nav_handle p ev s))"
  proof (cases ev)
    case (NavKey k)
    show ?thesis
    proof (cases "nk_key k = ''Escape''")
      case True
      then show ?thesis
        using NavKey by (simp add: nav_handle_def nav_keydown_escape nav_inv_def asks_help_def)
    next
      case False
      then show ?thesis
        using NavKey by (simp add: nav_handle_def nav_keydown_other chapter_keydown_counts nav_inv_def)
    qed
  next
    case (HelpMouseDown o' b)
    then show ?thesis by (simp add: nav_handle_def nav_mousedown_eq nav_inv_def hideHelp_def asks_help_def)
  qed
  then show "nv_mouse_handlers (nav_handle p ev s) = nv_mouse_handlers s + (if asks_help ev then 1 else 0)"
    and "nav_inv s \<Longrightarrow> nav_inv (nav_handle p ev s)" by blast+
qed

interpretation nav_script: page_script "\<lambda>ev s. js_ok (nav_handle p ev s)" nav_inv for p
  by unfold_locales (simp add: nav_handle_counts)

lemma nav_run_simps [simp]:
  "nav_run p [] s = s" "nav_run p (ev # evs) s = nav_run p evs (nav_handle p ev s)"
  by (simp_all add: nav_run_def)

lemma nav_run_mouse_handlers:
  "nv_mouse_handlers (nav_run p evs s) = nv_mouse_handlers s + length (filter asks_help evs)"
  by (induction evs arbitrary: s) (simp_all add: nav_handle_counts)

text \<open>
  C37. The help window can always be dismissed, and its listeners pile up. In every run of a page, a
  shown help window is closed by Escape and by the left mouse button outside its text. The mouse
  listener is never removed: there is one for every time the window was opened. Escape with a
  listener left over from a window closed by the mouse does nothing but keep the key from
  the other listeners of the page, once.
\<close>

theorem help_window_listeners:
  "let s = nav_run p evs (nav_start href);
       escape = (\<lambda>s. nav_keydown p \<lparr>nk_key = ''Escape'', nk_modified = m, nk_shift = sh, nk_search_focus = f\<rparr> s)
   in (nv_help s \<longrightarrow> \<not> nv_help (fst (escape s)) \<and> \<not> nv_help (nav_handle p (HelpMouseDown False 0) s)) \<and>
      nv_mouse_handlers s = length (filter asks_help evs) \<and>
      (snd (escape s) \<longleftrightarrow> nv_escape_handlers s = 0) \<and> snd (escape (fst (escape s))) \<and>
      (nv_help s \<longrightarrow> \<not> snd (escape (nav_handle p (HelpMouseDown False 0) s)))"
proof -
  define s where "s = nav_run p evs (nav_start href)"
  have inv: "nav_inv s"
    unfolding s_def nav_run_def by (rule nav_script.run_keeps) (simp add: nav_inv_def nav_start_def)
  have count: "nv_mouse_handlers s = length (filter asks_help evs)"
    unfolding s_def nav_run_mouse_handlers by (simp add: nav_start_def)
  show ?thesis
    unfolding s_def [symmetric] using inv count
    by (auto simp: Let_def nav_keydown_escape nav_handle_def nav_mousedown_eq nav_inv_def hideHelp_def)
qed

definition help_key :: nav_key where
  "help_key = \<lparr>nk_key = ''?'', nk_modified = False, nk_shift = True, nk_search_focus = False\<rparr>"

lemma help_window_listeners_witness:
  "let p = \<lparr>np_next = Some ''b.html'', np_previous = None, np_rtl = False\<rparr>;
       s = nav_run p [NavKey help_key] (nav_start ''a.html'') in
   nv_help s \<and> nv_mouse_handlers s = 1 \<and> \<not> nv_help (nav_handle p (HelpMouseDown False 0) s) \<and>
   \<not> snd (nav_keydown p \<lparr>nk_key = ''Escape'', nk_modified = False, nk_shift = False, nk_search_focus = False\<rparr>
           (nav_handle p (HelpMouseDown False 0) s))"
proof -
  let ?p = "\<lparr>np_next = Some ''b.html'', np_previous = None, np_rtl = False\<rparr>"
  have "nv_help (nav_run ?p [NavKey help_key] (nav_start ''a.html''))"
      "length (filter asks_help [NavKey help_key]) = 1"
    by code_simp+
  then show ?thesis
    using help_window_listeners [of ?p "[NavKey help_key]" "''a.html''" False False False]
    by (simp add: Let_def)
qed

end
