(* ===== verification/BookMenu.thy ===== *)
theory BookMenu
  imports Dom Complex_Main
begin

text \<open>
  The menu bar of the documentation pages, \<open>controllMenu\<close> and \<open>scrollToTop\<close> of
  \<open>src/docs/book-a0b12cfe.js\<close>. Lengths are rational numbers of pixels. The menu is placed in the page at
  \<open>style.top\<close>, or fixed to the top of the window while it has class \<open>sticky\<close>; its place in the window
  follows. The lemmas show that it never covers the text while the page scrolls in small steps, that
  scrolling up by its height and 50 pixels brings it into view, and what a jump upwards does.
\<close>

section \<open>State and handlers\<close>

record menu_state =
  me_min_y :: rat \<comment> \<open>\<open>minMenuY\<close>\<close>
  me_style_top :: rat \<comment> \<open>\<open>menu.style.top\<close>, in pixels\<close>
  me_top_cache :: rat
  me_sticky :: bool \<comment> \<open>class \<open>sticky\<close>\<close>
  me_sticky_cache :: bool
  me_prev :: rat \<comment> \<open>\<open>prevScrollTop\<close>\<close>
  me_bordered :: bool \<comment> \<open>class \<open>bordered\<close>\<close>

text \<open>\<open>nextSticky\<close> and \<open>nextTop\<close>; \<open>None\<close> is \<open>null\<close>.\<close>

definition next_sticky :: "rat \<Rightarrow> menu_state \<Rightarrow> bool option" where
  "next_sticky scrollTop m =
     (if scrollTop > me_prev m then Some False
      else if me_top_cache m - scrollTop > 0 then Some True else None)"

definition next_top :: "rat \<Rightarrow> menu_state \<Rightarrow> rat option" where
  "next_top scrollTop m =
     (let menuPosAbsoluteY = me_top_cache m - scrollTop in
      if scrollTop > me_prev m then
        (if menuPosAbsoluteY > 0 then Some (me_prev m) else None)
      else if menuPosAbsoluteY > 0 then None
      else if menuPosAbsoluteY < me_min_y m then Some (me_prev m + me_min_y m)
      else None)"

definition set_sticky :: "bool option \<Rightarrow> menu_state \<Rightarrow> menu_state" where
  "set_sticky nextSticky m =
     (if nextSticky = Some True \<and> \<not> me_sticky_cache m then m\<lparr>me_sticky := True, me_sticky_cache := True\<rparr>
      else if nextSticky = Some False \<and> me_sticky_cache m
      then m\<lparr>me_sticky := False, me_sticky_cache := False\<rparr>
      else m)"

definition set_top :: "rat option \<Rightarrow> menu_state \<Rightarrow> menu_state" where
  "set_top nextTop m =
     (case nextTop of None \<Rightarrow> m | Some t \<Rightarrow> m\<lparr>me_style_top := t, me_top_cache := t\<rparr>)"

definition position_scroll :: "rat \<Rightarrow> menu_state \<Rightarrow> menu_state" where
  "position_scroll documentScrollTop m =
     (let scrollTop = max documentScrollTop 0;
          nextSticky = next_sticky scrollTop m;
          nextTop = next_top scrollTop m
      in (set_top nextTop (set_sticky nextSticky m))\<lparr>me_prev := scrollTop\<rparr>)"

definition updateBorder :: "rat \<Rightarrow> menu_state \<Rightarrow> menu_state" where
  "updateBorder offsetTop m = m\<lparr>me_bordered := offsetTop \<noteq> 0\<rparr>"

text \<open>\<open>offset\<close>: the \<open>offsetTop\<close> of the menu, as the browser lays out the page.\<close>

definition controllPosition :: "rat \<Rightarrow> rat \<Rightarrow> menu_state" where
  "controllPosition clientHeight scrollTop =
     \<lparr>me_min_y = - clientHeight - 50, me_style_top = scrollTop, me_top_cache = scrollTop,
      me_sticky = False, me_sticky_cache = False, me_prev = scrollTop, me_bordered = False\<rparr>"

definition controllMenu :: "(menu_state \<Rightarrow> rat) \<Rightarrow> rat \<Rightarrow> rat \<Rightarrow> menu_state" where
  "controllMenu offset clientHeight scrollTop =
     (let m = controllPosition clientHeight scrollTop in updateBorder (offset m) m)"

definition menu_scroll :: "(menu_state \<Rightarrow> rat) \<Rightarrow> rat \<Rightarrow> menu_state \<Rightarrow> menu_state" where
  "menu_scroll offset documentScrollTop m =
     (let m = position_scroll documentScrollTop m in updateBorder (offset m) m)"

definition menu_scrolls :: "(menu_state \<Rightarrow> rat) \<Rightarrow> rat list \<Rightarrow> menu_state \<Rightarrow> menu_state" where
  "menu_scrolls offset ys m = fold (menu_scroll offset) ys m"

text \<open>\<open>scrollToTop\<close>: where a click on the title asks the browser to scroll.\<close>

definition menu_title_click :: "rat \<times> string" where
  "menu_title_click = (0, ''smooth'')"

section \<open>Where the menu is\<close>

text \<open>Distance of the menu below the top of the window.\<close>

definition menu_y :: "menu_state \<Rightarrow> rat" where
  "menu_y m = (if me_sticky m then 0 else me_style_top m - me_prev m)"

text \<open>Scrolling in small steps: no event moves up by more than the menu's height and 50 pixels.\<close>

fun small_steps :: "rat \<Rightarrow> rat \<Rightarrow> rat list \<Rightarrow> bool" where
  "small_steps limit prev [] \<longleftrightarrow> True"
| "small_steps limit prev (y # ys) \<longleftrightarrow> prev - max y 0 \<le> limit \<and> small_steps limit (max y 0) ys"

definition menu_caches :: "menu_state \<Rightarrow> bool" where
  "menu_caches m \<longleftrightarrow>
     me_style_top m = me_top_cache m \<and> me_sticky m = me_sticky_cache m \<and>
     0 \<le> me_top_cache m \<and> 0 \<le> me_prev m \<and> me_min_y m \<le> 0"

definition menu_placed :: "menu_state \<Rightarrow> bool" where
  "menu_placed m \<longleftrightarrow> menu_caches m \<and> (if me_sticky m then me_prev m < me_top_cache m
                                            else me_top_cache m \<le> me_prev m)"

lemmas menu_defs = menu_caches_def menu_placed_def menu_scroll_def position_scroll_def next_sticky_def
  next_top_def set_sticky_def set_top_def updateBorder_def Let_def

lemma menu_caches_scroll: "menu_caches m \<Longrightarrow> menu_caches (menu_scroll offset y m)"
  by (auto simp: menu_defs split: option.splits if_splits)

lemma menu_scroll_basic [simp]:
  "me_prev (menu_scroll offset y m) = max y 0"
  "me_min_y (menu_scroll offset y m) = me_min_y m"
  by (simp_all add: menu_defs split: option.splits)

lemma menu_placed_scroll:
  assumes "menu_placed m" "me_prev m - max y 0 \<le> - me_min_y m"
  shows "menu_placed (menu_scroll offset y m)"
  using assms by (auto simp: menu_defs split: option.splits if_splits)

lemma menu_placed_scrolls:
  "menu_placed m \<Longrightarrow> small_steps (- me_min_y m) (me_prev m) ys \<Longrightarrow> menu_placed (menu_scrolls offset ys m)"
  by (induction ys arbitrary: m) (simp_all add: menu_scrolls_def menu_placed_scroll)

lemma menu_placed_start:
  "0 \<le> scrollTop \<Longrightarrow> 0 \<le> clientHeight \<Longrightarrow> menu_placed (controllMenu offset clientHeight scrollTop)"
  by (simp add: menu_defs controllMenu_def controllPosition_def)

lemma menu_placed_y: "menu_placed m \<Longrightarrow> menu_y m \<le> 0"
  by (auto simp: menu_placed_def menu_caches_def menu_y_def)

lemma menu_placed_y_top: "menu_placed m \<Longrightarrow> me_prev m = 0 \<Longrightarrow> menu_y m = 0"
  by (auto simp: menu_placed_def menu_caches_def menu_y_def split: if_splits)

text \<open>
  The menu bar never covers the text while the page scrolls in steps: from the load of a page at
  any scroll position and through any scroll events none of which moves up by more than the height
  of the menu and 50 pixels, the menu is fixed to the top of the window or lies above it, at
  the top of the page it is in its place, and the cached position and flag agree with the element.
\<close>

theorem menu_stays_above_text:
  assumes "0 \<le> scrollTop" "0 \<le> clientHeight" "small_steps (clientHeight + 50) scrollTop ys"
  shows "let m = menu_scrolls offset ys (controllMenu offset clientHeight scrollTop) in
         menu_y m \<le> 0 \<and> (me_prev m = 0 \<longrightarrow> menu_y m = 0) \<and>
         me_style_top m = me_top_cache m \<and> me_sticky m = me_sticky_cache m"
proof -
  let ?m = "controllMenu offset clientHeight scrollTop"
  have "- me_min_y ?m = clientHeight + 50" "me_prev ?m = scrollTop"
    by (simp_all add: controllMenu_def controllPosition_def updateBorder_def Let_def)
  then have placed: "menu_placed (menu_scrolls offset ys ?m)"
    using menu_placed_scrolls [OF menu_placed_start [OF assms(1,2)]] assms(3) by simp
  then show ?thesis
    using menu_placed_y [OF placed] menu_placed_y_top [OF placed]
    by (simp add: Let_def menu_placed_def menu_caches_def)
qed

lemma menu_stays_above_text_witness:
  "small_steps (50 + 50) 300 [400, 350, 260] \<and>
   (let m = menu_scrolls (\<lambda>_. 1) [400, 350, 260] (controllMenu (\<lambda>_. 1) 50 300) in
    menu_y m \<le> 0 \<and> me_sticky m \<and> me_sticky_cache m)"
proof -
  have steps: "small_steps (50 + 50) (300::rat) [400, 350, 260]" by simp
  have "me_sticky (menu_scrolls (\<lambda>_. 1) [400, 350, 260] (controllMenu (\<lambda>_. 1) 50 300))"
    by code_simp
  then show ?thesis
    using menu_stays_above_text [of 300 50 "[400, 350, 260]" "\<lambda>_. 1"] steps by (simp add: Let_def)
qed

text \<open>Scrolling up.\<close>

fun upward :: "rat \<Rightarrow> rat list \<Rightarrow> bool" where
  "upward prev [] \<longleftrightarrow> True"
| "upward prev (y # ys) \<longleftrightarrow> 0 \<le> y \<and> y \<le> prev \<and> upward y ys"

lemma menu_scroll_up_near:
  assumes "menu_caches m" "0 \<le> y" "y \<le> me_prev m"
  shows "y + me_min_y m \<le> me_top_cache (menu_scroll offset y m)"
  using assms by (auto simp: menu_defs split: option.splits if_splits)

lemma menu_scroll_up_keeps:
  assumes "menu_caches m" "0 \<le> y" "y \<le> me_prev m" "me_prev m + me_min_y m \<le> me_top_cache m"
  shows "me_top_cache (menu_scroll offset y m) = me_top_cache m"
    and "y < me_top_cache m \<Longrightarrow> me_sticky (menu_scroll offset y m)"
  using assms by (auto simp: menu_defs split: option.splits if_splits)

lemma menu_scrolls_up:
  assumes "menu_caches m" "upward (me_prev m) ys" "me_prev m + me_min_y m \<le> me_top_cache m" "ys \<noteq> []"
  shows "me_top_cache (menu_scrolls offset ys m) = me_top_cache m"
    and "last ys < me_top_cache m \<Longrightarrow> me_sticky (menu_scrolls offset ys m)"
    and "menu_caches (menu_scrolls offset ys m)"
    and "me_prev (menu_scrolls offset ys m) = last ys"
proof -
  have "me_top_cache (menu_scrolls offset ys m) = me_top_cache m \<and>
      (last ys < me_top_cache m \<longrightarrow> me_sticky (menu_scrolls offset ys m)) \<and>
      menu_caches (menu_scrolls offset ys m) \<and> me_prev (menu_scrolls offset ys m) = last ys"
    using assms
  proof (induction ys arbitrary: m)
    case Nil
    then show ?case by simp
  next
    case (Cons y ys)
    let ?m = "menu_scroll offset y m"
    have step: "me_top_cache ?m = me_top_cache m" "y < me_top_cache m \<Longrightarrow> me_sticky ?m"
        "menu_caches ?m" "me_prev ?m = y" "me_min_y ?m = me_min_y m"
      using menu_scroll_up_keeps [of m y offset] menu_caches_scroll [of m offset y] Cons.prems by auto
    then show ?case
      using Cons.IH [of ?m] Cons.prems by (cases "ys = []") (auto simp: menu_scrolls_def)
  qed
  then show "me_top_cache (menu_scrolls offset ys m) = me_top_cache m"
    and "last ys < me_top_cache m \<Longrightarrow> me_sticky (menu_scrolls offset ys m)"
    and "menu_caches (menu_scrolls offset ys m)"
    and "me_prev (menu_scrolls offset ys m) = last ys"
    by blast+
qed

text \<open>
  Scrolling up always brings the menu back: from any state of a page, whatever its earlier scrolling
  was, once upward scroll events have moved by more than the height of the menu and 50 pixels
  after the first of them, or have reached the top of the page, the menu is at the top of the
  window.
\<close>

theorem scrolling_up_reveals_menu:
  assumes "menu_caches m" "upward (me_prev m) (y # ys)" "ys \<noteq> []"
    and "last ys < y + me_min_y m \<or> last ys = 0"
  shows "menu_y (menu_scrolls offset (y # ys) m) = 0"
proof -
  let ?m = "menu_scroll offset y m"
  have m: "menu_caches ?m" "upward (me_prev ?m) ys" "me_prev ?m + me_min_y ?m \<le> me_top_cache ?m"
    using menu_caches_scroll [OF assms(1)] menu_scroll_up_near [OF assms(1), of y offset] assms(2)
    by simp_all
  note up = menu_scrolls_up [OF m assms(3), of offset]
  show ?thesis
  proof (cases "last ys < me_top_cache ?m")
    case True
    then show ?thesis using up(2) by (simp add: menu_scrolls_def menu_y_def)
  next
    case False
    then have "last ys = 0" using assms(2,4) menu_scroll_up_near [OF assms(1), of y offset] by auto
    then show ?thesis
      using up(1,3,4) False by (simp add: menu_scrolls_def menu_y_def menu_caches_def)
  qed
qed

lemma scrolling_up_reveals_menu_witness:
  "menu_y (menu_scrolls (\<lambda>_. 1) [900, 1000, 950, 800, 790] (controllMenu (\<lambda>_. 1) 50 300)) = 0"
proof -
  let ?m = "menu_scrolls (\<lambda>_. 1) [900, 1000] (controllMenu (\<lambda>_. 1) 50 300)"
  have m: "menu_caches ?m" "me_prev ?m = 1000" "me_min_y ?m = - 100" by code_simp+
  have "menu_y (menu_scrolls (\<lambda>_. 1) [950, 800, 790] ?m) = 0"
    by (rule scrolling_up_reveals_menu) (simp_all add: m)
  then show ?thesis by (simp add: menu_scrolls_def)
qed

text \<open>
  When the menu covers the text. From a state in which the menu is in its place, one scroll event
  puts it below the top of the window exactly when it moves up by more than the height of the
  menu and 50 pixels while the menu is further than that above the target: the menu is then placed
  relative to the position the page had before the jump, inside the text shown.
\<close>

theorem menu_covers_text_iff_jump:
  assumes "menu_placed m" "0 \<le> y"
  shows "0 < menu_y (menu_scroll offset y m) \<longleftrightarrow>
           me_prev m - y > - me_min_y m \<and> me_top_cache m - y < me_min_y m"
    and "0 < menu_y (menu_scroll offset y m) \<Longrightarrow>
           menu_y (menu_scroll offset y m) = me_prev m - y + me_min_y m"
  using assms by (auto simp: menu_y_def menu_defs split: option.splits if_splits)

lemma menu_covers_text_iff_jump_witness:
  "let m = menu_scrolls (\<lambda>_. 1) [1000] (controllMenu (\<lambda>_. 1) 50 0) in
   menu_placed m \<and> menu_y (menu_scroll (\<lambda>_. 1) 500 m) = 400"
proof -
  let ?m = "menu_scrolls (\<lambda>_. 1) [1000] (controllMenu (\<lambda>_. 1) 50 0)"
  have m: "menu_placed ?m" "me_prev ?m = 1000" "me_min_y ?m = - 100" "me_top_cache ?m = 0" by code_simp+
  show ?thesis
    using menu_covers_text_iff_jump [OF m(1), of 500 "\<lambda>_. 1"] m by (simp add: Let_def)
qed

end
