(* ===== verification/BookCode.thy ===== *)
theory BookCode
  imports SearchText Dom
begin

text \<open>
  The code blocks of the documentation pages, \<open>playground_text\<close>, \<open>codeSnippets\<close> and \<open>clipboard\<close> of
  \<open>src/docs/book-a0b12cfe.js\<close>: the buttons added to each block, hidden lines, the check for available
  crates, running a snippet on the playground server, and the tool tips of the copy buttons. Syntax
  highlighting (highlight.js), the editor (Ace) and the answers of the server are parameters or
  events. Text consists of Latin-1 characters.
\<close>

section \<open>Declarations of crates\<close>

text \<open>\<open>[a-zA-Z_0-9]\<close>\<close>

definition word_char :: "char \<Rightarrow> bool" where
  "word_char c \<longleftrightarrow>
     (let n = of_char c :: nat in
      97 \<le> n \<and> n \<le> 122 \<or> 65 \<le> n \<and> n \<le> 90 \<or> n = 95 \<or> 48 \<le> n \<and> n \<le> 57)"

text \<open>
  \<open>/extern\s+crate\s+([a-zA-Z_0-9]+)\s*;/\<close> at the start of a text: the name and the length of the match.
  No repetition can stop earlier and still match, so the greedy choice is the only one.
\<close>

definition match_crate :: "string \<Rightarrow> (string \<times> nat) option" where
  "match_crate s =
     (case strip_prefix ''extern'' s of
        None \<Rightarrow> None
      | Some s1 \<Rightarrow>
          (case strip_prefix ''crate'' (dropWhile js_is_space s1) of
             None \<Rightarrow> None
           | Some s2 \<Rightarrow>
               (let s3 = dropWhile js_is_space s2;
                    name = takeWhile word_char s3
                in if takeWhile js_is_space s1 = [] \<or> takeWhile js_is_space s2 = [] \<or> name = [] then None
                   else
                     (case dropWhile js_is_space (dropWhile word_char s3) of
                        [] \<Rightarrow> None
                      | c # rest \<Rightarrow>
                          if c = CHR '';'' then Some (name, length s - length rest) else None))))"

text \<open>\<open>re.exec\<close> with the global flag: the first match at or after \<open>lastIndex\<close>, and the new \<open>lastIndex\<close>.\<close>

fun find_crate :: "string \<Rightarrow> nat \<Rightarrow> (string \<times> nat) option" where
  "find_crate [] i = map_option (\<lambda>(name, len). (name, i + len)) (match_crate [])"
| "find_crate (c # s) i =
     (case match_crate (c # s) of
        Some (name, len) \<Rightarrow> Some (name, i + len)
      | None \<Rightarrow> find_crate s (i + 1))"

definition re_exec :: "string \<Rightarrow> nat \<Rightarrow> (string \<times> nat) option" where
  "re_exec txt lastIndex =
     (if lastIndex > length txt then None else find_crate (drop lastIndex txt) lastIndex)"

partial_function (option) crate_loop :: "string \<Rightarrow> nat \<Rightarrow> string list \<Rightarrow> string list option" where
  "crate_loop txt lastIndex snippet_crates =
     (case re_exec txt lastIndex of
        None \<Rightarrow> Some snippet_crates
      | Some (name, lastIndex') \<Rightarrow> crate_loop txt lastIndex' (snippet_crates @ [name]))"

declare crate_loop.simps [code]

section \<open>Lemmas on the crate scanner\<close>

text \<open>A declaration as it is written.\<close>

definition crate_decl :: "string \<Rightarrow> string \<Rightarrow> string \<Rightarrow> string \<Rightarrow> string" where
  "crate_decl ws1 ws2 name ws3 = ''extern'' @ ws1 @ ''crate'' @ ws2 @ name @ ws3 @ '';''"

definition decl_parts :: "string \<Rightarrow> string \<Rightarrow> string \<Rightarrow> string \<Rightarrow> bool" where
  "decl_parts ws1 ws2 name ws3 \<longleftrightarrow>
     ws1 \<noteq> [] \<and> list_all js_is_space ws1 \<and> ws2 \<noteq> [] \<and> list_all js_is_space ws2 \<and>
     name \<noteq> [] \<and> list_all word_char name \<and> list_all js_is_space ws3"

lemma word_not_space: "word_char c \<Longrightarrow> \<not> js_is_space c"
  by (auto simp: word_char_def js_is_space_def Let_def)

lemma char_classes:
  "\<not> js_is_space CHR ''c''" "\<not> js_is_space CHR '';''" "\<not> word_char CHR '';''" "\<not> js_is_space CHR ''e''"
  by (simp_all add: word_char_def js_is_space_def Let_def)

lemma takeWhile_all_append: "list_all P xs \<Longrightarrow> takeWhile P (xs @ ys) = xs @ takeWhile P ys"
  by (induction xs) simp_all

lemma dropWhile_all_append: "list_all P xs \<Longrightarrow> dropWhile P (xs @ ys) = dropWhile P ys"
  by (induction xs) simp_all

lemma list_all_takeWhile [simp]: "list_all P (takeWhile P xs)"
  by (induction xs) simp_all

lemma match_crate_decl:
  assumes "decl_parts ws1 ws2 name ws3"
  shows "match_crate (crate_decl ws1 ws2 name ws3 @ rest) =
           Some (name, length (crate_decl ws1 ws2 name ws3))"
proof -
  have heads: "takeWhile js_is_space (ws3 @ CHR '';'' # rest) = ws3"
      "dropWhile js_is_space (ws3 @ CHR '';'' # rest) = CHR '';'' # rest"
    using assms by (simp_all add: decl_parts_def takeWhile_all_append dropWhile_all_append char_classes)
  have name: "takeWhile word_char (name @ ws3 @ CHR '';'' # rest) = name"
      "dropWhile word_char (name @ ws3 @ CHR '';'' # rest) = ws3 @ CHR '';'' # rest"
      "takeWhile js_is_space (name @ ws3 @ CHR '';'' # rest) = []"
      "dropWhile js_is_space (name @ ws3 @ CHR '';'' # rest) = name @ ws3 @ CHR '';'' # rest"
    using assms word_not_space
    by (cases ws3; cases name;
        force simp: decl_parts_def takeWhile_all_append dropWhile_all_append char_classes)+
  show ?thesis
    using assms heads name
    by (simp add: match_crate_def crate_decl_def decl_parts_def strip_prefix_def takeWhile_all_append
        dropWhile_all_append char_classes Let_def)
qed

lemma match_crate_Some:
  assumes "match_crate s = Some (name, len)"
  obtains ws1 ws2 ws3 rest where "decl_parts ws1 ws2 name ws3"
    and "s = crate_decl ws1 ws2 name ws3 @ rest" and "len = length (crate_decl ws1 ws2 name ws3)"
proof -
  obtain s1 where s1: "s = ''extern'' @ s1"
    using assms by (auto simp: match_crate_def strip_prefix_Some_iff split: option.splits)
  obtain s2 where s2: "dropWhile js_is_space s1 = ''crate'' @ s2"
    using assms unfolding match_crate_def s1
    by (auto simp: strip_prefix_def split: option.splits if_splits)
       (metis append_Cons append_Nil append_take_drop_id)
  define s3 where "s3 = dropWhile js_is_space s2"
  define s4 where "s4 = dropWhile word_char s3"
  have m: "takeWhile js_is_space s1 \<noteq> []" "takeWhile js_is_space s2 \<noteq> []" "takeWhile word_char s3 \<noteq> []"
      "\<exists>rest. dropWhile js_is_space s4 = CHR '';'' # rest \<and> len = length s - length rest"
      "name = takeWhile word_char s3"
    using assms s2 unfolding s1 s3_def s4_def
    by (auto simp: match_crate_def strip_prefix_def Let_def split: list.splits if_splits)
  then obtain rest where rest: "dropWhile js_is_space s4 = CHR '';'' # rest" "len = length s - length rest"
    by blast
  have s: "s = crate_decl (takeWhile js_is_space s1) (takeWhile js_is_space s2) name
                 (takeWhile js_is_space s4) @ rest"
    using s1 s2 rest(1) m(5) unfolding crate_decl_def s3_def s4_def
    by (metis append.assoc append_Cons append_Nil takeWhile_dropWhile_id)
  then have "length s - length rest =
      length (crate_decl (takeWhile js_is_space s1) (takeWhile js_is_space s2) name (takeWhile js_is_space s4))"
    by (metis add_diff_cancel_right' length_append)
  moreover have "decl_parts (takeWhile js_is_space s1) (takeWhile js_is_space s2) name (takeWhile js_is_space s4)"
    using m by (simp add: decl_parts_def)
  ultimately show thesis using that s rest(2) by simp
qed

text \<open>Declarations do not overlap: no match starts inside another.\<close>

lemma match_crate_head: "c \<noteq> CHR ''e'' \<Longrightarrow> match_crate (c # s) = None"
  by (simp add: match_crate_def strip_prefix_def)

lemma match_crate_second: "c \<noteq> CHR ''x'' \<Longrightarrow> match_crate (d # c # s) = None"
  by (simp add: match_crate_def strip_prefix_def)

lemma match_in_space:
  assumes "list_all js_is_space ws" "j < length ws"
  shows "match_crate (drop j ws @ s) = None"
proof -
  have "drop j ws = ws ! j # drop (Suc j) ws" using assms(2) by (simp add: Cons_nth_drop_Suc)
  moreover have "ws ! j \<noteq> CHR ''e''" using assms char_classes(4) by (auto simp: list_all_length)
  ultimately show ?thesis by (simp add: match_crate_head)
qed

lemma match_in_name:
  assumes "list_all word_char v" "v \<noteq> []" "list_all js_is_space ws"
  shows "match_crate (v @ ws @ CHR '';'' # rest) = None"
proof (rule ccontr)
  assume "match_crate (v @ ws @ CHR '';'' # rest) \<noteq> None"
  then obtain name len where "match_crate (v @ ws @ CHR '';'' # rest) = Some (name, len)" by auto
  then obtain w1 w2 w3 r where p: "decl_parts w1 w2 name w3"
      and eq: "v @ ws @ CHR '';'' # rest = crate_decl w1 w2 name w3 @ r"
    using match_crate_Some by metis
  have tw: "takeWhile word_char (v @ ws @ CHR '';'' # rest) = v"
    using assms word_not_space
    by (cases ws) (auto simp: takeWhile_all_append char_classes)
  have "w1 \<noteq> []" "list_all js_is_space w1" using p by (simp_all add: decl_parts_def)
  then have "takeWhile word_char (crate_decl w1 w2 name w3 @ r) = ''extern''"
    using word_not_space by (cases w1) (auto simp: crate_decl_def word_char_def)
  then have v: "v = ''extern''" using tw eq by simp
  then have "ws @ CHR '';'' # rest = w1 @ ''crate'' @ w2 @ name @ w3 @ '';'' @ r"
    using eq by (simp add: crate_decl_def)
  then have "dropWhile js_is_space (ws @ CHR '';'' # rest) =
      dropWhile js_is_space (w1 @ ''crate'' @ w2 @ name @ w3 @ '';'' @ r)" by simp
  then show False
    using assms(3) p by (simp add: dropWhile_all_append char_classes decl_parts_def)
qed

lemma drop_past: "n = length xs \<Longrightarrow> n \<le> j \<Longrightarrow> drop j (xs @ ys) = drop (j - n) ys"
  by simp

lemma match_no_overlap:
  assumes "decl_parts ws1 ws2 name ws3" "0 < j" "j < length (crate_decl ws1 ws2 name ws3)"
  shows "match_crate (drop j (crate_decl ws1 ws2 name ws3 @ rest)) = None"
proof -
  let ?t5 = "CHR '';'' # rest" and ?t4 = "ws3 @ CHR '';'' # rest"
  let ?t3 = "name @ ?t4"
  let ?t2 = "ws2 @ ?t3"
  let ?t1 = "''crate'' @ ?t2"
  have p: "ws1 \<noteq> []" "list_all js_is_space ws1" "ws2 \<noteq> []" "list_all js_is_space ws2"
      "name \<noteq> []" "list_all word_char name" "list_all js_is_space ws3"
    using assms(1) by (simp_all add: decl_parts_def)
  have d5: "match_crate ?t5 = None" by (simp add: match_crate_head)
  have d4: "match_crate (drop j ?t4) = None" if "j \<le> length ws3" for j
    using that d5 match_in_space [OF p(7)] by (cases "j = length ws3") simp_all
  have d3: "match_crate (drop j ?t3) = None" if "j \<le> length name + length ws3" for j
  proof (cases "j < length name")
    case True
    have "list_all word_char (drop j name)" using p(6) by (metis append_take_drop_id list_all_append)
    then show ?thesis using match_in_name [OF _ _ p(7), of "drop j name" rest] True by simp
  next
    case False
    then show ?thesis using d4 [of "j - length name"] that by simp
  qed
  have d2: "match_crate (drop j ?t2) = None" if "j \<le> length ws2 + length name + length ws3" for j
    using that match_in_space [OF p(4), of j ?t3] d3 [of "j - length ws2"] by (cases "j < length ws2") simp_all
  obtain c ws2' where c: "ws2 = c # ws2'" "js_is_space c" using p(3,4) by (cases ws2) auto
  have cx: "c \<noteq> CHR ''x''" using c(2) by (auto simp: js_is_space_def)
  have d1: "match_crate (drop j ?t1) = None" if "j \<le> 5 + length ws2 + length name + length ws3" for j
  proof -
    consider "j \<in> {0, 1, 2, 3}" | "j = 4" | "5 \<le> j" by force
    then show ?thesis
    proof cases
      case 3
      then have "drop j ?t1 = drop (j - 5) ?t2" by (intro drop_past) simp_all
      then show ?thesis using d2 [of "j - 5"] that 3 by (simp only:)
    qed (auto simp: c(1) cx match_crate_head match_crate_second)
  qed
  have d0: "match_crate (drop j (ws1 @ ?t1)) = None"
    if "j \<le> length ws1 + 5 + length ws2 + length name + length ws3" for j
    using that match_in_space [OF p(2), of j ?t1] d1 [of "j - length ws1"] by (cases "j < length ws1") simp_all
  consider "j \<in> {1, 2, 4, 5}" | "j = 3" | "6 \<le> j" using assms(2) by force
  then show ?thesis
  proof cases
    case 3
    have "crate_decl ws1 ws2 name ws3 @ rest = ''extern'' @ ws1 @ ?t1" by (simp add: crate_decl_def)
    moreover have "drop j (''extern'' @ ws1 @ ?t1) = drop (j - 6) (ws1 @ ?t1)"
      using 3 by (intro drop_past) simp_all
    moreover have "j - 6 \<le> length ws1 + 5 + length ws2 + length name + length ws3"
      using assms(3) by (simp add: crate_decl_def)
    ultimately show ?thesis using d0 by (simp only:)
  qed (auto simp: crate_decl_def match_crate_head match_crate_second)
qed

text \<open>The names declared at the positions from \<open>i\<close> on, in order.\<close>

definition declared_from :: "string \<Rightarrow> nat \<Rightarrow> string list" where
  "declared_from txt i =
     List.map_filter (\<lambda>j. map_option fst (match_crate (drop j txt))) [i..<length txt]"

lemma map_filter_none: "\<forall>x\<in>set xs. f x = None \<Longrightarrow> List.map_filter f xs = []"
  by (induction xs) (simp_all add: List.map_filter_def)

lemma map_filter_append: "List.map_filter f (xs @ ys) = List.map_filter f xs @ List.map_filter f ys"
  by (simp add: List.map_filter_def)

lemma map_filter_Cons_Some: "f x = Some y \<Longrightarrow> List.map_filter f (x # xs) = y # List.map_filter f xs"
  by (simp add: List.map_filter_def)

lemma match_crate_length:
  assumes "match_crate s = Some (name, len)"
  shows "0 < len" "len \<le> length s" "0 < j \<Longrightarrow> j < len \<Longrightarrow> match_crate (drop j s) = None"
proof -
  obtain ws1 ws2 ws3 rest where p: "decl_parts ws1 ws2 name ws3"
      "s = crate_decl ws1 ws2 name ws3 @ rest" "len = length (crate_decl ws1 ws2 name ws3)"
    using match_crate_Some [OF assms] .
  then show "0 < len" "len \<le> length s" by (simp_all add: crate_decl_def)
  show "0 < j \<Longrightarrow> j < len \<Longrightarrow> match_crate (drop j s) = None"
    using match_no_overlap [OF p(1)] p(2,3) by simp
qed

lemma match_crate_Nil [simp]: "match_crate [] = None"
  by (simp add: match_crate_def strip_prefix_def)

lemma find_crate_None:
  "find_crate s i = None \<Longrightarrow> match_crate (drop j s) = None"
proof (induction s i arbitrary: j rule: find_crate.induct)
  case (2 c s i)
  then show ?case by (cases j) (auto split: option.splits)
qed simp

lemma find_crate_Some:
  "find_crate s i = Some (name, e) \<Longrightarrow>
     \<exists>j len. j < length s \<and> match_crate (drop j s) = Some (name, len) \<and> e = i + j + len \<and>
             (\<forall>k<j. match_crate (drop k s) = None)"
proof (induction s i rule: find_crate.induct)
  case (2 c s i)
  show ?case
  proof (cases "match_crate (c # s)")
    case None
    then obtain j len where "j < length s" "match_crate (drop j s) = Some (name, len)"
        "e = i + 1 + j + len" "\<forall>k<j. match_crate (drop k s) = None"
      using 2 by auto
    then show ?thesis
      using None by (intro exI [of _ "Suc j"] exI [of _ len]) (auto simp: less_Suc_eq_0_disj)
  next
    case (Some m)
    then show ?thesis
      using "2.prems" by (intro exI [of _ 0] exI [of _ "snd m"]) (auto split: prod.splits)
  qed
qed simp

lemma upt_split: "i \<le> j \<Longrightarrow> j \<le> k \<Longrightarrow> [i..<k] = [i..<j] @ [j..<k]"
  using upt_add_eq_append [of i j "k - j"] by simp

lemma declared_from_match:
  assumes "i + j < length txt" "match_crate (drop (i + j) txt) = Some (name, len)"
    and "\<forall>k<j. match_crate (drop (i + k) txt) = None"
  shows "declared_from txt i = name # declared_from txt (i + j + len)"
proof -
  let ?f = "\<lambda>k. map_option fst (match_crate (drop k txt))"
  note len = match_crate_length [OF assms(2)]
  have split: "[i..<length txt] =
      [i..<i + j] @ (i + j) # [Suc (i + j)..<i + j + len] @ [i + j + len..<length txt]"
  proof -
    have le: "i + j \<le> length txt" "Suc (i + j) \<le> i + j + len" "i + j + len \<le> length txt"
      using assms(1) len(1,2) by simp_all
    have "[i..<length txt] = [i..<i + j] @ [i + j..<length txt]"
      using upt_split [OF _ le(1), of i] by simp
    also have "[i + j..<length txt] = (i + j) # [Suc (i + j)..<length txt]"
      using assms(1) by (simp add: upt_conv_Cons)
    also have "[Suc (i + j)..<length txt] = [Suc (i + j)..<i + j + len] @ [i + j + len..<length txt]"
      using upt_split [OF le(2,3)] .
    finally show ?thesis .
  qed
  have before: "\<forall>k\<in>set [i..<i + j]. ?f k = None"
  proof
    fix k assume "k \<in> set [i..<i + j]"
    then have "k = i + (k - i)" "k - i < j" by auto
    then show "?f k = None" using assms(3) by (metis option.map_disc_iff)
  qed
  have inside: "\<forall>k\<in>set [Suc (i + j)..<i + j + len]. ?f k = None"
  proof
    fix k assume "k \<in> set [Suc (i + j)..<i + j + len]"
    then have "drop k txt = drop (k - (i + j)) (drop (i + j) txt)" "0 < k - (i + j)" "k - (i + j) < len"
      by auto
    then show "?f k = None" using len(3) [of "k - (i + j)"] by simp
  qed
  have here: "?f (i + j) = Some name" using assms(2) by simp
  show ?thesis
    unfolding declared_from_def split
    by (simp only: map_filter_append map_filter_none [OF before] map_filter_none [OF inside]
        map_filter_Cons_Some [of ?f, OF here] append_Nil)
qed

lemma declared_from_none:
  assumes "\<forall>k. match_crate (drop (i + k) txt) = None"
  shows "declared_from txt i = []"
  unfolding declared_from_def
proof (rule map_filter_none, rule)
  fix k assume "k \<in> set [i..<length txt]"
  then have "k = i + (k - i)" by auto
  then show "map_option fst (match_crate (drop k txt)) = None" using assms by (metis option.map_disc_iff)
qed

lemma crate_loop_returns:
  "i \<le> length txt \<Longrightarrow> crate_loop txt i acc = Some (acc @ declared_from txt i)"
proof (induction "length txt - i" arbitrary: i acc rule: less_induct)
  case less
  show ?case
  proof (cases "find_crate (drop i txt) i")
    case None
    then have "\<forall>k. match_crate (drop (i + k) txt) = None"
      using find_crate_None [OF None] by (simp add: add.commute)
    then show ?thesis
      using None less.prems by (simp add: crate_loop.simps [of "txt" i] re_exec_def declared_from_none)
  next
    case (Some m)
    obtain name e where m: "m = (name, e)" by (cases m)
    obtain j len where j: "j < length txt - i" "match_crate (drop (i + j) txt) = Some (name, len)"
        "e = i + j + len" "\<forall>k<j. match_crate (drop (i + k) txt) = None"
      using find_crate_Some [of "drop i txt" i name e] Some m by (auto simp: add.commute)
    note len = match_crate_length(1,2) [OF j(2)]
    have "crate_loop txt e (acc @ [name]) = Some ((acc @ [name]) @ declared_from txt e)"
      using less.hyps [of e "acc @ [name]"] len j(1,3) by simp
    moreover have "declared_from txt i = name # declared_from txt e"
      using declared_from_match [of i j "txt" name len] j by simp
    ultimately show ?thesis
      using Some m less.prems by (simp add: crate_loop.simps [of "txt" i] re_exec_def)
  qed
qed

section \<open>Code blocks\<close>

record button =
  bt_class :: classes
  bt_title :: string
  bt_aria :: string \<comment> \<open>\<open>aria-label\<close>\<close>
  bt_hidden :: bool \<comment> \<open>attribute \<open>hidden\<close>\<close>
  bt_icon :: string \<comment> \<open>the template its content comes from\<close>
  bt_tip :: string \<comment> \<open>text of the tool tip\<close>

record playground_params =
  pp_version :: string
  pp_optimize :: string
  pp_code :: string
  pp_edition :: string

text \<open>A \<open>code\<close> element with its parent, and what the scripts attach to them.\<close>

record block =
  bk_parent :: classes \<comment> \<open>classes of the parent\<close>
  bk_in_pre :: bool \<comment> \<open>matches \<open>pre code\<close>\<close>
  bk_code :: classes
  bk_text :: string \<comment> \<open>\<open>textContent\<close>\<close>
  bk_boring :: nat \<comment> \<open>elements of class \<open>boring\<close> in it\<close>
  bk_buttons :: "button list option" \<comment> \<open>the first \<open>.buttons\<close> of the parent\<close>
  bk_editor :: string \<comment> \<open>value of its editor\<close>
  bk_original :: string \<comment> \<open>\<open>originalCode\<close> of its editor\<close>
  bk_crates :: "string list option" \<comment> \<open>crates the change listener of the editor checks\<close>
  bk_result :: "(string \<times> classes) option" \<comment> \<open>the \<open>.result\<close> element: text and classes\<close>
  bk_requests :: "playground_params list" \<comment> \<open>requests sent to the server\<close>
  bk_running :: nat \<comment> \<open>requests not answered yet\<close>

record code_page =
  cp_ace :: bool \<comment> \<open>\<open>window.ace\<close>\<close>
  cp_copyable :: bool \<comment> \<open>\<open>window.playground_copyable\<close>\<close>
  cp_highlight :: "classes \<Rightarrow> classes" \<comment> \<open>classes after \<open>hljs.highlightBlock\<close>\<close>
  cp_inner_text :: "classes \<Rightarrow> string \<Rightarrow> string" \<comment> \<open>\<open>innerText\<close> of a code element\<close>

definition editable :: "code_page \<Rightarrow> block \<Rightarrow> bool" where
  "editable page b \<longleftrightarrow> cp_ace page \<and> ''editable'' \<in> set (bk_code b)"

definition playground_text :: "code_page \<Rightarrow> block \<Rightarrow> bool \<Rightarrow> string" where
  "playground_text page b hidden =
     (if editable page b then bk_editor b
      else if hidden then bk_text b
      else cp_inner_text page (bk_code b) (bk_text b))"

subsection \<open>Set up\<close>

definition code_node :: "block \<Rightarrow> bool" where
  "code_node b \<longleftrightarrow> ''header'' \<notin> set (bk_parent b)"

definition highlight_block :: "code_page \<Rightarrow> block \<Rightarrow> block" where
  "highlight_block page b =
     (if \<not> code_node b then b
      else
        (let b = (if editable page b then b\<lparr>bk_code := class_remove ''language-rust'' (bk_code b)\<rparr>
                  else b\<lparr>bk_code := cp_highlight page (bk_code b)\<rparr>)
         in b\<lparr>bk_code := class_add ''hljs'' (bk_code b)\<rparr>))"

definition eye_button :: button where
  "eye_button =
     \<lparr>bt_class = [], bt_title = ''Show hidden lines'', bt_aria = ''Show hidden lines'', bt_hidden = False,
      bt_icon = ''fa-eye'', bt_tip = []\<rparr>"

definition clip_button :: button where
  "clip_button =
     \<lparr>bt_class = [''clip-button''], bt_title = ''Copy to clipboard'', bt_aria = ''Copy to clipboard'',
      bt_hidden = False, bt_icon = [], bt_tip = []\<rparr>"

definition play_button :: button where
  "play_button =
     \<lparr>bt_class = [''play-button''], bt_title = ''Run this code'', bt_aria = ''Run this code'',
      bt_hidden = True, bt_icon = ''fa-play'', bt_tip = []\<rparr>"

definition reset_button :: button where
  "reset_button =
     \<lparr>bt_class = [''reset-button''], bt_title = ''Undo changes'', bt_aria = ''Undo changes'',
      bt_hidden = False, bt_icon = ''fa-clock-rotate-left'', bt_tip = []\<rparr>"

definition setup_boring :: "block \<Rightarrow> block" where
  "setup_boring b =
     (if ''hljs'' \<notin> set (bk_code b) then b
      else if bk_boring b = 0 then b
      else b\<lparr>bk_code := class_add ''hide-boring'' (bk_code b), bk_buttons := Some [eye_button]\<rparr>)"

definition add_button :: "button \<Rightarrow> block \<Rightarrow> block" where
  "add_button x b =
     b\<lparr>bk_buttons := Some (x # (case bk_buttons b of None \<Rightarrow> [] | Some bs \<Rightarrow> bs))\<rparr>"

definition setup_copy :: "code_page \<Rightarrow> block \<Rightarrow> block" where
  "setup_copy page b =
     (if cp_copyable page \<and> bk_in_pre b \<and> ''playground'' \<notin> set (bk_parent b)
      then add_button clip_button b else b)"

definition setup_playground :: "code_page \<Rightarrow> block \<Rightarrow> block" where
  "setup_playground page b =
     (if ''playground'' \<notin> set (bk_parent b) then b
      else
        (let b = add_button play_button b;
             b = (if cp_copyable page then add_button clip_button b else b)
         in if editable page b then add_button reset_button b else b))"

definition codeSnippets :: "code_page \<Rightarrow> block \<Rightarrow> block" where
  "codeSnippets page b = setup_playground page (setup_copy page (setup_boring (highlight_block page b)))"

subsection \<open>Events\<close>

text \<open>What a click on the icon button hit: the button, the span in it, or the drawing in the span, whose
  \<open>title\<close> is undefined.\<close>

datatype eye_target = OnButton | OnSpan | OnSvg

definition eye_label :: "eye_target \<Rightarrow> string \<Rightarrow> string" where
  "eye_label target title = (case target of OnButton \<Rightarrow> title | OnSpan \<Rightarrow> [] | OnSvg \<Rightarrow> ''undefined'')"

definition is_eye :: "button \<Rightarrow> bool" where
  "is_eye x \<longleftrightarrow> bt_icon x = ''fa-eye'' \<or> bt_icon x = ''fa-eye-slash''"

definition eye_flip :: "eye_target \<Rightarrow> button \<Rightarrow> button" where
  "eye_flip target x =
     (if bt_title x = ''Show hidden lines'' then
        x\<lparr>bt_icon := ''fa-eye-slash'', bt_title := ''Hide lines'', bt_aria := eye_label target ''Hide lines''\<rparr>
      else if bt_title x = ''Hide lines'' then
        x\<lparr>bt_icon := ''fa-eye'', bt_title := ''Show hidden lines'',
          bt_aria := eye_label target ''Show hidden lines''\<rparr>
      else x)"

definition eye_click :: "eye_target \<Rightarrow> block \<Rightarrow> block" where
  "eye_click target b =
     (case bk_buttons b of
        None \<Rightarrow> b
      | Some bs \<Rightarrow>
          (case find is_eye bs of
             None \<Rightarrow> b
           | Some x \<Rightarrow>
               (let b = b\<lparr>bk_buttons := Some (map (\<lambda>y. if is_eye y then eye_flip target y else y) bs)\<rparr> in
                if bt_title x = ''Show hidden lines''
                then b\<lparr>bk_code := class_remove ''hide-boring'' (bk_code b)\<rparr>
                else if bt_title x = ''Hide lines''
                then b\<lparr>bk_code := class_add ''hide-boring'' (bk_code b)\<rparr>
                else b)))"

definition is_play :: "button \<Rightarrow> bool" where
  "is_play x \<longleftrightarrow> ''play-button'' \<in> set (bt_class x)"

definition show_play :: "bool \<Rightarrow> button \<Rightarrow> button" where
  "show_play yes x =
     (if yes then x\<lparr>bt_class := class_remove ''hidden'' (bt_class x), bt_hidden := False\<rparr>
      else x\<lparr>bt_class := class_add ''hidden'' (bt_class x)\<rparr>)"

definition set_play :: "bool \<Rightarrow> block \<Rightarrow> block outcome" where
  "set_play yes b =
     (case bk_buttons b of
        None \<Rightarrow> js_throw JsTypeError b
      | Some bs \<Rightarrow>
          if find is_play bs = None then js_throw JsTypeError b
          else js_ok (b\<lparr>bk_buttons := Some (map (\<lambda>x. if is_play x then show_play yes x else x) bs)\<rparr>))"

text \<open>\<open>None\<close>: the loop over the matches does not end.\<close>

definition update_play_button :: "code_page \<Rightarrow> block \<Rightarrow> string list \<Rightarrow> block outcome option" where
  "update_play_button page b playground_crates =
     (if ''no_run'' \<in> set (bk_code b) then Some (set_play False b)
      else
        (case crate_loop (playground_text page b True) 0 [] of
           None \<Rightarrow> None
         | Some snippet_crates \<Rightarrow>
             Some (set_play (list_all (\<lambda>elem. elem \<in> set playground_crates) snippet_crates) b)))"

definition handle_crate_list_update :: "code_page \<Rightarrow> block \<Rightarrow> string list \<Rightarrow> block outcome option" where
  "handle_crate_list_update page b playground_crates =
     (case update_play_button page b playground_crates of
        None \<Rightarrow> None
      | Some r \<Rightarrow>
          Some (js_then r (\<lambda>b. js_ok (if editable page b then b\<lparr>bk_crates := Some playground_crates\<rparr> else b))))"

definition editor_change :: "code_page \<Rightarrow> string \<Rightarrow> block \<Rightarrow> block outcome option" where
  "editor_change page v b =
     (let b = b\<lparr>bk_editor := v\<rparr> in
      case bk_crates b of None \<Rightarrow> Some (js_ok b) | Some crates \<Rightarrow> update_play_button page b crates)"

definition undo_click :: "code_page \<Rightarrow> block \<Rightarrow> block outcome option" where
  "undo_click page b = editor_change page (bk_original b) b"

text \<open>\<open>Promise.race\<close> of a request and a timer: the answer if it comes, after so many milliseconds, before
  the timer.\<close>

definition fetch_with_timeout :: "(nat \<times> ('a, string) result) option \<Rightarrow> nat \<Rightarrow> ('a, string) result" where
  "fetch_with_timeout answer timeout =
     (case answer of
        None \<Rightarrow> Err ''timeout''
      | Some (t, r) \<Rightarrow> if t < timeout then r else Err ''timeout'')"

definition starts_with :: "string \<Rightarrow> string \<Rightarrow> bool" where
  "starts_with p s \<longleftrightarrow> take (length p) s = p"

definition snippet_edition :: "classes \<Rightarrow> string" where
  "snippet_edition cs =
     fold (\<lambda>className edition. if starts_with ''edition'' className then drop 7 className else edition) cs ''2015''"

fun contains_text :: "string \<Rightarrow> string \<Rightarrow> bool" where
  "contains_text p [] \<longleftrightarrow> p = []"
| "contains_text p (c # s) \<longleftrightarrow> starts_with p (c # s) \<or> contains_text p s"

definition run_params :: "code_page \<Rightarrow> block \<Rightarrow> playground_params" where
  "run_params page b =
     (let code = playground_text page b True in
      \<lparr>pp_version = (if contains_text ''#![feature'' code then ''nightly'' else ''stable''),
       pp_optimize = ''0'', pp_code = code, pp_edition = snippet_edition (bk_code b)\<rparr>)"

definition run_rust_code :: "code_page \<Rightarrow> block \<Rightarrow> block" where
  "run_rust_code page b =
     (let cs = (case bk_result b of None \<Rightarrow> [''result'', ''hljs'', ''language-bash''] | Some (_, cs) \<Rightarrow> cs)
      in b\<lparr>bk_result := Some (''Running...'', cs), bk_requests := bk_requests b @ [run_params page b],
           bk_running := bk_running b + 1\<rparr>)"

definition js_trim :: "string \<Rightarrow> string" where
  "js_trim s = rev (dropWhile js_is_space (rev (dropWhile js_is_space s)))"

definition run_answer :: "(string, string) result \<Rightarrow> block \<Rightarrow> block" where
  "run_answer answer b =
     (if bk_running b = 0 then b
      else
        (case bk_result b of
           None \<Rightarrow> b
         | Some (_, cs) \<Rightarrow>
             b\<lparr>bk_running := bk_running b - 1,
               bk_result := Some
                 (case answer of
                    Ok r \<Rightarrow> if js_trim r = [] then (''No output'', class_add ''result-no-output'' cs)
                           else (r, class_remove ''result-no-output'' cs)
                  | Err message \<Rightarrow> (''Playground Communication: '' @ message, cs))\<rparr>))"

text \<open>
  The request for the list of available crates, sent when the page has a playground block. Its answer
  is handed to the blocks in turn; an exception ends the loop over them, and a failed request is
  not handled. \<open>None\<close>: a loop does not end.
\<close>

fun update_blocks :: "code_page \<Rightarrow> string list \<Rightarrow> block list \<Rightarrow> block list option" where
  "update_blocks page crates [] = Some []"
| "update_blocks page crates (b # bs) =
     (case handle_crate_list_update page b crates of
        None \<Rightarrow> None
      | Some (b', Some e) \<Rightarrow> Some (b' # bs)
      | Some (b', None) \<Rightarrow> map_option ((#) b') (update_blocks page crates bs))"

definition request_crates ::
  "code_page \<Rightarrow> (nat \<times> (string list, string) result) option \<Rightarrow> block list \<Rightarrow> block list option" where
  "request_crates page answer playgrounds =
     (if playgrounds = [] then Some playgrounds
      else
        (case fetch_with_timeout answer 6000 of
           Err _ \<Rightarrow> Some playgrounds
         | Ok crates \<Rightarrow> update_blocks page crates playgrounds))"

text \<open>The copy buttons: tool tips and the text copied.\<close>

definition hideTooltip :: "button \<Rightarrow> button" where
  "hideTooltip x = x\<lparr>bt_tip := [], bt_class := [''clip-button'']\<rparr>"

definition showTooltip :: "string \<Rightarrow> button \<Rightarrow> button" where
  "showTooltip msg x = x\<lparr>bt_tip := msg, bt_class := [''clip-button'', ''tooltipped'']\<rparr>"

definition clipboard_text :: "code_page \<Rightarrow> block \<Rightarrow> button \<Rightarrow> button \<times> string" where
  "clipboard_text page b x = (hideTooltip x, playground_text page b False)"

definition clipboard_done :: "bool \<Rightarrow> button \<Rightarrow> button" where
  "clipboard_done copied x = showTooltip (if copied then ''Copied!'' else ''Clipboard error!'') x"

definition clipboard_mouseout :: "button \<Rightarrow> button" where
  "clipboard_mouseout x = hideTooltip x"

section \<open>Correctness\<close>

text \<open>A text declares a crate.\<close>

definition declares :: "string \<Rightarrow> string \<Rightarrow> bool" where
  "declares txt name \<longleftrightarrow>
     (\<exists>a ws1 ws2 ws3 c. decl_parts ws1 ws2 name ws3 \<and> txt = a @ crate_decl ws1 ws2 name ws3 @ c)"

lemma declared_from_declares: "name \<in> set (declared_from txt 0) \<longleftrightarrow> declares txt name"
proof
  assume "name \<in> set (declared_from txt 0)"
  then obtain j len where "match_crate (drop j txt) = Some (name, len)"
    by (auto simp: declared_from_def List.map_filter_def)
  then obtain ws1 ws2 ws3 rest where "decl_parts ws1 ws2 name ws3"
      "drop j txt = crate_decl ws1 ws2 name ws3 @ rest"
    using match_crate_Some by metis
  moreover have "txt = take j txt @ drop j txt" by simp
  ultimately show "declares txt name" unfolding declares_def by metis
next
  assume "declares txt name"
  then obtain a ws1 ws2 ws3 c where d: "decl_parts ws1 ws2 name ws3"
      "txt = a @ crate_decl ws1 ws2 name ws3 @ c"
    unfolding declares_def by blast
  have "match_crate (drop (length a) txt) = Some (name, length (crate_decl ws1 ws2 name ws3))"
    using match_crate_decl [OF d(1)] d(2) by simp
  moreover have "length a \<in> set [0..<length txt]" using d(2) by (simp add: crate_decl_def)
  ultimately show "name \<in> set (declared_from txt 0)"
    by (force simp: declared_from_def List.map_filter_def)
qed

definition play_shown :: "block \<Rightarrow> bool" where
  "play_shown b \<longleftrightarrow>
     list_ex (\<lambda>x. is_play x \<and> \<not> bt_hidden x \<and> ''hidden'' \<notin> set (bt_class x)) (the (bk_buttons b))"

lemma list_ex_map: "list_ex P (map f xs) = list_ex (P \<circ> f) xs"
  by (induction xs) simp_all

definition has_play :: "block \<Rightarrow> bool" where
  "has_play b \<longleftrightarrow> (case bk_buttons b of None \<Rightarrow> False | Some bs \<Rightarrow> list_ex is_play bs)"

lemma find_None_ex: "find P xs = None \<longleftrightarrow> \<not> list_ex P xs"
  by (induction xs) simp_all

lemma is_play_show [simp]: "is_play (show_play yes x) = is_play x"
  by (simp add: is_play_def show_play_def)

lemma list_ex_show_play:
  "list_ex is_play (map (\<lambda>x. if is_play x then show_play yes x else x) xs) = list_ex is_play xs"
  by (induction xs) auto

lemma set_play_shown:
  assumes "has_play b"
  shows "\<exists>b'. set_play yes b = js_ok b' \<and> play_shown b' = yes \<and> has_play b' \<and>
              bk_code b' = bk_code b \<and> bk_editor b' = bk_editor b"
proof -
  obtain bs where bs: "bk_buttons b = Some bs" "list_ex is_play bs"
    using assms by (auto simp: has_play_def split: option.splits)
  let ?b' = "b\<lparr>bk_buttons := Some (map (\<lambda>x. if is_play x then show_play yes x else x) bs)\<rparr>"
  have "set_play yes b = js_ok ?b'" using bs by (simp add: set_play_def find_None_ex)
  moreover have shown: "is_play x \<Longrightarrow> (\<not> bt_hidden (show_play yes x) \<and> ''hidden'' \<notin> set (bt_class (show_play yes x))) = yes"
    for x by (simp add: show_play_def)
  have "play_shown ?b' \<longleftrightarrow> list_ex (\<lambda>x. is_play x \<and> yes) bs"
    unfolding play_shown_def using shown
    by (simp add: list_ex_map comp_def cong: list_ex_cong) (metis (no_types, lifting) is_play_show list_ex_cong)
  then have "play_shown ?b' = yes" using bs(2) by (auto simp: list_ex_iff)
  moreover have "has_play ?b'" using bs(2) by (simp add: has_play_def list_ex_show_play)
  ultimately show ?thesis by (intro exI [of _ ?b']) simp
qed

lemma codeSnippets_has_play: "''playground'' \<in> set (bk_parent b) \<Longrightarrow> has_play (codeSnippets page b)"
  by (auto simp: codeSnippets_def setup_playground_def setup_copy_def setup_boring_def highlight_block_def
      add_button_def has_play_def play_button_def is_play_def Let_def)

text \<open>
  C38. The play button is shown exactly for the snippets that can run. The loop that collects the declared
  crates ends on every text; after the list of available crates has arrived the button is shown if
  and only if the code is not marked \<open>no_run\<close> and every declaration \<open>extern crate name;\<close> that
  occurs anywhere in the text, however it is spaced, names an available crate; and after every
  change in the editor the same holds of the new text.
\<close>

theorem play_button_shown_iff:
  fixes page :: code_page and b0 :: block and crates :: "string list" and v :: string
  assumes "''playground'' \<in> set (bk_parent b0)"
  defines "b \<equiv> codeSnippets page b0"
  shows "\<exists>b'. handle_crate_list_update page b crates = Some (js_ok b') \<and>
           (play_shown b' \<longleftrightarrow>
             ''no_run'' \<notin> set (bk_code b) \<and>
             (\<forall>name. declares (playground_text page b True) name \<longrightarrow> name \<in> set crates)) \<and>
           (editable page b \<longrightarrow>
             (\<exists>b''. editor_change page v b' = Some (js_ok b'') \<and>
                (play_shown b'' \<longleftrightarrow>
                  ''no_run'' \<notin> set (bk_code b) \<and> (\<forall>name. declares v name \<longrightarrow> name \<in> set crates))))"
proof -
  have update: "\<exists>u'. update_play_button page u crates = Some (js_ok u') \<and> has_play u' \<and>
      (play_shown u' \<longleftrightarrow> ''no_run'' \<notin> set (bk_code u) \<and>
         (\<forall>name. declares (playground_text page u True) name \<longrightarrow> name \<in> set crates)) \<and>
      bk_code u' = bk_code u \<and> bk_editor u' = bk_editor u"
    if "has_play u" for u
  proof (cases "''no_run'' \<in> set (bk_code u)")
    case True
    then show ?thesis using set_play_shown [OF that, of False] by (auto simp: update_play_button_def)
  next
    case False
    have "crate_loop (playground_text page u True) 0 [] = Some (declared_from (playground_text page u True) 0)"
      using crate_loop_returns [of 0] by simp
    moreover have "list_all (\<lambda>elem. elem \<in> set crates) (declared_from (playground_text page u True) 0) \<longleftrightarrow>
        (\<forall>name. declares (playground_text page u True) name \<longrightarrow> name \<in> set crates)"
      by (simp add: list_all_iff declared_from_declares Ball_def)
    ultimately show ?thesis
      using set_play_shown [OF that, of "list_all (\<lambda>elem. elem \<in> set crates)
              (declared_from (playground_text page u True) 0)"] False
      by (auto simp: update_play_button_def)
  qed
  obtain b1 where b1: "update_play_button page b crates = Some (js_ok b1)" "has_play b1"
      "play_shown b1 \<longleftrightarrow> ''no_run'' \<notin> set (bk_code b) \<and>
         (\<forall>name. declares (playground_text page b True) name \<longrightarrow> name \<in> set crates)"
      "bk_code b1 = bk_code b" "bk_editor b1 = bk_editor b"
    using update [of b] codeSnippets_has_play [OF assms(1)] unfolding b_def by blast
  have ed: "editable page b1 = editable page b" using b1(4) by (simp add: editable_def)
  let ?b' = "if editable page b then b1\<lparr>bk_crates := Some crates\<rparr> else b1"
  have handled: "handle_crate_list_update page b crates = Some (js_ok ?b')"
    using b1(1) ed by (simp add: handle_crate_list_update_def)
  have shown: "play_shown ?b' = play_shown b1" by (simp add: play_shown_def)
  have change: "\<exists>b''. editor_change page v ?b' = Some (js_ok b'') \<and>
      (play_shown b'' \<longleftrightarrow> ''no_run'' \<notin> set (bk_code b) \<and> (\<forall>name. declares v name \<longrightarrow> name \<in> set crates))"
    if e: "editable page b"
  proof -
    let ?u = "b1\<lparr>bk_crates := Some crates, bk_editor := v\<rparr>"
    have u: "has_play ?u" using b1(2) by (simp add: has_play_def)
    have "playground_text page ?u True = v" "bk_code ?u = bk_code b"
      using e b1(4) by (simp_all add: playground_text_def editable_def)
    then show ?thesis
      using update [OF u] e by (auto simp: editor_change_def)
  qed
  show ?thesis
    using handled shown b1(3) change by blast
qed

definition demo_page :: code_page where
  "demo_page =
     \<lparr>cp_ace = True, cp_copyable = True, cp_highlight = (\<lambda>cs. cs), cp_inner_text = (\<lambda>_ t. t)\<rparr>"

definition demo_block :: block where
  "demo_block =
     \<lparr>bk_parent = [''playground''], bk_in_pre = True, bk_code = [''language-rust'', ''editable'', ''edition2021''],
      bk_text = ''extern  crate rand ;'', bk_boring = 2, bk_buttons = None,
      bk_editor = ''extern  crate rand ;'', bk_original = ''extern  crate rand ;'', bk_crates = None,
      bk_result = None, bk_requests = [], bk_running = 0\<rparr>"

lemma play_button_shown_iff_witness:
  "''playground'' \<in> set (bk_parent demo_block) \<and>
   (\<exists>b'. handle_crate_list_update demo_page (codeSnippets demo_page demo_block) [''rand''] = Some (js_ok b') \<and>
         play_shown b' \<and>
         (\<exists>b''. editor_change demo_page ''extern crate x;'' b' = Some (js_ok b'') \<and> \<not> play_shown b''))"
proof -
  let ?b = "codeSnippets demo_page demo_block"
  have play: "''playground'' \<in> set (bk_parent demo_block)" by (simp add: demo_block_def)
  have "''no_run'' \<notin> set (bk_code ?b)" "editable demo_page ?b"
      "declared_from (playground_text demo_page ?b True) 0 = [''rand'']"
      "declared_from ''extern crate x;'' 0 = [''x'']"
    by code_simp+
  then have "\<forall>name. declares (playground_text demo_page ?b True) name \<longrightarrow> name \<in> set [''rand'']"
      "\<not> (\<forall>name. declares ''extern crate x;'' name \<longrightarrow> name \<in> set [''rand''])"
      "''no_run'' \<notin> set (bk_code ?b)" "editable demo_page ?b"
    unfolding declared_from_declares [symmetric] by auto
  then show ?thesis
    using play_button_shown_iff [OF play, of demo_page "[''rand'']" "''extern crate x;''"] play by blast
qed

text \<open>The button for hidden lines.\<close>

definition eye_state :: "string \<Rightarrow> block \<Rightarrow> bool" where
  "eye_state label b \<longleftrightarrow>
     (\<exists>bs. bk_buttons b = Some bs \<and> list_ex is_eye bs \<and>
        (\<forall>x \<in> set bs. is_eye x \<longrightarrow>
           bt_title x = (if ''hide-boring'' \<in> set (bk_code b) then ''Show hidden lines'' else ''Hide lines'') \<and>
           bt_icon x = (if ''hide-boring'' \<in> set (bk_code b) then ''fa-eye'' else ''fa-eye-slash'') \<and>
           bt_aria x = label))"

lemma eye_click_state:
  assumes "eye_state label b"
  shows "eye_state (eye_label target (if ''hide-boring'' \<in> set (bk_code b) then ''Hide lines'' else ''Show hidden lines''))
           (eye_click target b)"
    and "''hide-boring'' \<in> set (bk_code (eye_click target b)) \<longleftrightarrow> ''hide-boring'' \<notin> set (bk_code b)"
proof -
  obtain bs where bs: "bk_buttons b = Some bs" "list_ex is_eye bs"
      "\<forall>x \<in> set bs. is_eye x \<longrightarrow>
         bt_title x = (if ''hide-boring'' \<in> set (bk_code b) then ''Show hidden lines'' else ''Hide lines'')"
    using assms by (auto simp: eye_state_def)
  obtain x where x: "find is_eye bs = Some x" using bs(2) find_None_ex [of is_eye bs] by (cases "find is_eye bs") auto
  then have xs: "x \<in> set bs" "is_eye x" by (auto simp: find_Some_iff)
  let ?bs = "map (\<lambda>y. if is_eye y then eye_flip target y else y) bs"
  have click: "eye_click target b =
      b\<lparr>bk_buttons := Some ?bs,
        bk_code := (if ''hide-boring'' \<in> set (bk_code b) then class_remove ''hide-boring'' (bk_code b)
                    else class_add ''hide-boring'' (bk_code b))\<rparr>"
    using bs(1,3) x xs by (simp add: eye_click_def Let_def)
  show flip: "''hide-boring'' \<in> set (bk_code (eye_click target b)) \<longleftrightarrow> ''hide-boring'' \<notin> set (bk_code b)"
    by (simp add: click)
  have "is_eye y \<Longrightarrow> is_eye (eye_flip target y)" for y by (simp add: eye_flip_def is_eye_def)
  then have "list_ex is_eye ?bs" using xs by (auto simp: list_ex_iff)
  moreover have "\<forall>y \<in> set ?bs. is_eye y \<longrightarrow>
      bt_title y = (if ''hide-boring'' \<in> set (bk_code b) then ''Hide lines'' else ''Show hidden lines'') \<and>
      bt_icon y = (if ''hide-boring'' \<in> set (bk_code b) then ''fa-eye-slash'' else ''fa-eye'') \<and>
      bt_aria y = eye_label target (if ''hide-boring'' \<in> set (bk_code b) then ''Hide lines'' else ''Show hidden lines'')"
    using bs(3) by (auto simp: eye_flip_def)
  moreover have "bk_buttons (eye_click target b) = Some ?bs" by (simp add: click)
  ultimately show "eye_state (eye_label target (if ''hide-boring'' \<in> set (bk_code b) then ''Hide lines'' else ''Show hidden lines''))
      (eye_click target b)"
    unfolding eye_state_def flip
    by (intro exI [of _ ?bs]) (cases "''hide-boring'' \<in> set (bk_code b)", simp_all del: set_map list.set_map)
qed

lemma eye_clicks_state:
  "eye_state label b \<Longrightarrow>
     eye_state (if ts = [] then label
                else eye_label (last ts)
                  (if ''hide-boring'' \<in> set (bk_code (fold eye_click ts b)) then ''Show hidden lines'' else ''Hide lines''))
       (fold eye_click ts b) \<and>
     (''hide-boring'' \<in> set (bk_code (fold eye_click ts b)) \<longleftrightarrow>
        (''hide-boring'' \<in> set (bk_code b)) = even (length ts))"
proof (induction ts rule: rev_induct)
  case Nil
  then show ?case by simp
next
  case (snoc t ts)
  note IH = snoc.IH [OF snoc.prems]
  note click = eye_click_state [OF conjunct1 [OF IH], of t]
  show ?case
    using click IH by (cases "''hide-boring'' \<in> set (bk_code (fold eye_click ts b))") auto
qed

lemma setup_eye:
  assumes "code_node b0" "0 < bk_boring b0"
  shows "eye_state ''Show hidden lines'' (codeSnippets page b0)"
    and "''hide-boring'' \<in> set (bk_code (codeSnippets page b0))"
proof -
  have add: "\<not> is_eye x \<Longrightarrow> eye_state l b \<Longrightarrow> eye_state l (add_button x b)" for x l b
    by (auto simp: eye_state_def add_button_def)
  have not_eye: "\<not> is_eye clip_button" "\<not> is_eye play_button" "\<not> is_eye reset_button"
    by (simp_all add: is_eye_def clip_button_def play_button_def reset_button_def)
  have code: "bk_code (add_button x b) = bk_code b" for x b by (simp add: add_button_def)
  let ?h = "highlight_block page b0"
  have h: "''hljs'' \<in> set (bk_code ?h)" "bk_boring ?h = bk_boring b0"
    using assms(1) by (simp_all add: highlight_block_def Let_def)
  then have boring: "eye_state ''Show hidden lines'' (setup_boring ?h)"
      "''hide-boring'' \<in> set (bk_code (setup_boring ?h))"
    using assms(2) by (auto simp: setup_boring_def eye_state_def eye_button_def is_eye_def)
  then have copy: "eye_state ''Show hidden lines'' (setup_copy page (setup_boring ?h))"
      "''hide-boring'' \<in> set (bk_code (setup_copy page (setup_boring ?h)))"
    using add [OF not_eye(1)] by (simp_all add: setup_copy_def code)
  show "eye_state ''Show hidden lines'' (codeSnippets page b0)"
    using copy(1) add not_eye by (simp add: codeSnippets_def setup_playground_def Let_def)
  show "''hide-boring'' \<in> set (bk_code (codeSnippets page b0))"
    using copy(2) by (simp add: codeSnippets_def setup_playground_def Let_def code)
qed

text \<open>
  The button for hidden lines. On every block with hidden lines, whatever other buttons it has and
  after any clicks, the title and the icon of the button tell whether the lines are hidden, every
  click flips that, and they start hidden. The label for assistive technology is the title only when
  the last click hit the button itself: after a click on the drawing in it the label is
  \<open>undefined\<close>.
\<close>

theorem hidden_lines_button:
  assumes "code_node b0" "0 < bk_boring b0"
  shows "let b = fold eye_click ts (codeSnippets page b0);
             hidden = (''hide-boring'' \<in> set (bk_code b))
         in hidden = even (length ts) \<and>
            (\<exists>x. find is_eye (the (bk_buttons b)) = Some x \<and>
               bt_title x = (if hidden then ''Show hidden lines'' else ''Hide lines'') \<and>
               bt_icon x = (if hidden then ''fa-eye'' else ''fa-eye-slash'') \<and>
               bt_aria x = (if ts = [] \<or> last ts = OnButton then bt_title x
                            else if last ts = OnSvg then ''undefined'' else []))"
proof -
  define b where "b = fold eye_click ts (codeSnippets page b0)"
  define hidden where "hidden = (''hide-boring'' \<in> set (bk_code b))"
  define label where "label = (if ts = [] then ''Show hidden lines''
      else eye_label (last ts) (if hidden then ''Show hidden lines'' else ''Hide lines''))"
  note run = eye_clicks_state [OF setup_eye(1) [OF assms], of ts page]
  have st: "eye_state label b" "hidden = even (length ts)"
    using conjunct1 [OF run] conjunct2 [OF run] setup_eye(2) [OF assms, of page]
    unfolding b_def hidden_def label_def by blast+
  obtain bs where bs: "bk_buttons b = Some bs" "list_ex is_eye bs"
      "\<forall>x \<in> set bs. is_eye x \<longrightarrow> bt_title x = (if hidden then ''Show hidden lines'' else ''Hide lines'') \<and>
         bt_icon x = (if hidden then ''fa-eye'' else ''fa-eye-slash'') \<and> bt_aria x = label"
    using st(1) unfolding eye_state_def hidden_def by blast
  obtain x where x: "find is_eye bs = Some x" using bs(2) find_None_ex [of is_eye bs] by (cases "find is_eye bs") auto
  then have "x \<in> set bs" "is_eye x" by (auto simp: find_Some_iff)
  then have f: "bt_title x = (if hidden then ''Show hidden lines'' else ''Hide lines'')"
      "bt_icon x = (if hidden then ''fa-eye'' else ''fa-eye-slash'')" "bt_aria x = label"
    using bs(3) by blast+
  have "bt_aria x = (if ts = [] \<or> last ts = OnButton then bt_title x
      else if last ts = OnSvg then ''undefined'' else [])"
    using f st(2) by (cases "last ts") (auto simp: label_def eye_label_def)
  then show ?thesis
    unfolding b_def [symmetric] hidden_def [symmetric] Let_def using bs(1) x f st(2) by simp
qed

lemma hidden_lines_button_witness:
  "code_node demo_block \<and> 0 < bk_boring demo_block \<and>
   (let b = fold eye_click [OnButton, OnButton, OnSvg] (codeSnippets demo_page demo_block) in
    ''hide-boring'' \<notin> set (bk_code b) \<and>
    (\<exists>x. find is_eye (the (bk_buttons b)) = Some x \<and> bt_title x = ''Hide lines'' \<and> bt_aria x = ''undefined''))"
proof -
  have d: "code_node demo_block" "0 < bk_boring demo_block" by code_simp+
  show ?thesis
    using hidden_lines_button [OF d, of "[OnButton, OnButton, OnSvg]" demo_page] d by (auto simp: Let_def)
qed

end
