(* ===== verification/TocPage.thy ===== *)
theory TocPage
  imports Toc
begin

text \<open>
  The rest of \<open>src/docs/toc-08fdb426.js\<close>: folding of the headers in the sidebar (\<open>updateHeaderExpanded\<close>, the
  fold toggles, and \<open>updateCurrentHeader\<close> with them) on the node store of the outline, and the chapter
  list (\<open>connectedCallback\<close>): marking the link of the current page and restoring the scroll position.
  The URL the browser resolves a link to is a parameter. The lemmas show that the loops over
  ancestors end, which items are unfolded, and which chapter link is marked.
\<close>

section \<open>Folding\<close>

text \<open>\<open>while (current)\<close>: to the parents, unfolding the header items.\<close>

partial_function (option) expand_up :: "dom \<Rightarrow> nat option \<Rightarrow> dom option" where
  "expand_up d current =
     (case current of
        None \<Rightarrow> Some d
      | Some i \<Rightarrow>
          (let d' = (case n_kind (d ! i) of Li _ \<Rightarrow> d[i := (d ! i)\<lparr>n_expanded := True\<rparr>] | Ol \<Rightarrow> d)
           in expand_up d' (n_parent (d ! i))))"

declare expand_up.simps [code]

text \<open>The item of a link: the parent of the span it is in.\<close>

fun item_node :: "nat \<Rightarrow> nat \<Rightarrow> dom \<Rightarrow> nat option" where
  "item_node j k [] = None"
| "item_node j k (nd # d) = (if n_kind nd = Li j then Some k else item_node j (k + 1) d)"

definition updateHeaderExpanded :: "nat \<Rightarrow> dom \<Rightarrow> dom option" where
  "updateHeaderExpanded currentA d = expand_up d (item_node currentA 0 d)"

definition fold_toggles :: "nat list \<Rightarrow> dom \<Rightarrow> dom" where
  "fold_toggles toggles d = fold (\<lambda>k d. d[k := (d ! k)\<lparr>n_expanded := False\<rparr>]) toggles d"

text \<open>The link that \<open>updateCurrentHeader\<close> marks.\<close>

definition current_link :: "header list \<Rightarrow> rat list \<Rightarrow> rat \<Rightarrow> rat \<Rightarrow> summary_link list \<Rightarrow> nat option" where
  "current_link hs tops window line links =
     (case find_current line window tops of
        None \<Rightarrow> None
      | Some i \<Rightarrow> find_href (''#'' @ h_id (hs ! i)) (clear_live False links))"

definition update_headers ::
  "header list \<Rightarrow> nat list \<Rightarrow> rat list \<Rightarrow> rat \<Rightarrow> rat \<Rightarrow> summary_link list \<times> dom \<Rightarrow> (summary_link list \<times> dom) option" where
  "update_headers hs toggles tops window line p =
     (case p of (links, d) \<Rightarrow>
        if hs = [] then Some (links, d)
        else
          (let links' = updateCurrentHeader hs tops window line links;
               d' = fold_toggles toggles d
           in (case current_link hs tops window line links of
                 None \<Rightarrow> Some (links', d')
               | Some a \<Rightarrow> map_option (Pair links') (updateHeaderExpanded a d'))))"

text \<open>The listener of \<open>DOMContentLoaded\<close>: no outline on a page without a marked chapter.\<close>

definition scan_headers :: "bool \<Rightarrow> header list \<Rightarrow> outline option" where
  "scan_headers active_section hs = (if active_section then build_outline (page_headers hs) else None)"

text \<open>A click on a fold toggle.\<close>

definition header_toggle_click :: "nat \<Rightarrow> dom \<Rightarrow> dom" where
  "header_toggle_click k d = d[k := (d ! k)\<lparr>n_expanded := \<not> n_expanded (d ! k)\<rparr>]"

section \<open>The shape of the outline\<close>

text \<open>Parents come before their children, and children are nodes of the store.\<close>

definition wf_dom :: "dom \<Rightarrow> bool" where
  "wf_dom d \<longleftrightarrow>
     (\<forall>k<length d. (\<forall>p. n_parent (d ! k) = Some p \<longrightarrow> p < k) \<and> (\<forall>c\<in>set (n_children (d ! k)). c < length d))"

definition toggles_ok :: "header list \<Rightarrow> outline \<Rightarrow> bool" where
  "toggles_ok hs st \<longleftrightarrow>
     (\<forall>k\<in>set (o_toggles st). k < length (o_dom st) \<and> (\<exists>j. n_kind (o_dom st ! k) = Li j)) \<and>
     (\<forall>k<length (o_dom st). \<forall>j. n_kind (o_dom st ! k) = Li j \<longrightarrow>
        n_expanded (o_dom st ! k) \<and> (k \<in> set (o_toggles st) \<longleftrightarrow> needs_toggle hs j))"

definition struct_ok :: "header list \<Rightarrow> outline \<Rightarrow> bool" where
  "struct_ok hs st \<longleftrightarrow>
     wf_dom (o_dom st) \<and> o_stack st \<noteq> [] \<and> (\<forall>x\<in>set (o_stack st). snd x < length (o_dom st)) \<and>
     toggles_ok hs st"

lemma insert_node_nth:
  assumes "p < length d"
  shows "k < length d \<Longrightarrow> n_kind (insert_node p nd d ! k) = n_kind (d ! k)"
    and "k < length d \<Longrightarrow> n_parent (insert_node p nd d ! k) = n_parent (d ! k)"
    and "k < length d \<Longrightarrow> n_expanded (insert_node p nd d ! k) = n_expanded (d ! k)"
    and "k < length d \<Longrightarrow> n_children (insert_node p nd d ! k) =
           n_children (d ! k) @ (if k = p then [length d] else [])"
    and "n_expanded (insert_node p nd d ! length d) = n_expanded nd"
  using assms
  by (auto simp: insert_node_def appendChild_def Let_def nth_list_update nth_append)

lemma wf_insert_node:
  assumes "wf_dom d" "p < length d" "n_children nd = []"
  shows "wf_dom (insert_node p nd d)"
proof -
  note facts = insert_node_facts [OF assms(2), of nd]
  show ?thesis
    unfolding wf_dom_def facts(1)
  proof (intro allI impI)
    fix k assume "k < Suc (length d)"
    then consider "k < length d" | "k = length d" by linarith
    then show "(\<forall>q. n_parent (insert_node p nd d ! k) = Some q \<longrightarrow> q < k) \<and>
        (\<forall>c\<in>set (n_children (insert_node p nd d ! k)). c < Suc (length d))"
    proof cases
      case 1
      then have "(\<forall>q. n_parent (d ! k) = Some q \<longrightarrow> q < k) \<and> (\<forall>c\<in>set (n_children (d ! k)). c < length d)"
        using assms(1) by (simp add: wf_dom_def)
      then show ?thesis using insert_node_nth(1-4) [OF assms(2), of k nd] 1 by auto
    next
      case 2
      then show ?thesis using facts(5,6) assms(2,3) by simp
    qed
  qed
qed

lemma struct_push:
  assumes "struct_ok hs st" "p < length (o_dom st)" "n_kind nd = Ol" "n_children nd = []"
  shows "struct_ok hs (st\<lparr>o_dom := insert_node p nd (o_dom st), o_stack := (l, length (o_dom st)) # o_stack st\<rparr>)"
proof -
  note facts = insert_node_facts [OF assms(2), of nd]
  have "toggles_ok hs (st\<lparr>o_dom := insert_node p nd (o_dom st), o_stack := (l, length (o_dom st)) # o_stack st\<rparr>)"
    using assms(1,3) facts(1,3) insert_node_nth(1-4) [OF assms(2), of _ nd]
    by (auto simp: struct_ok_def toggles_ok_def less_Suc_eq)
  then show ?thesis
    using assms wf_insert_node [of "o_dom st" p nd] facts(1) by (auto simp: struct_ok_def less_Suc_eq)
qed

definition new_ol :: node where
  "new_ol = \<lparr>n_kind = Ol, n_parent = None, n_children = [], n_href = [], n_expanded = False, n_toggle = False\<rparr>"

lemma create_ol_eq: "create_ol d = (length d, d @ [new_ol])"
  by (simp add: create_ol_def new_ol_def)

lemma struct_stack_top:
  "struct_ok hs st \<Longrightarrow> snd (hd (o_stack st)) < length (o_dom st)"
  by (cases "o_stack st") (auto simp: struct_ok_def)

lemma struct_nest_lists: "struct_ok hs st \<Longrightarrow> struct_ok hs (nest_lists l n st)"
proof (induction n arbitrary: l st)
  case (Suc n)
  define top_ol where "top_ol = snd (hd (o_stack st))"
  have top_ol: "top_ol < length (o_dom st)" using struct_stack_top [OF Suc.prems] by (simp add: top_ol_def)
  define p where "p = (case lastChild top_ol (o_dom st @ [new_ol]) of Some c \<Rightarrow> c | None \<Rightarrow> top_ol)"
  have p: "p < length (o_dom st)"
  proof (cases "n_children (o_dom st ! top_ol) = []")
    case True
    then show ?thesis using top_ol by (simp add: p_def lastChild_def nth_append)
  next
    case False
    then have "last (n_children (o_dom st ! top_ol)) < length (o_dom st)"
      using Suc.prems top_ol by (auto simp: struct_ok_def wf_dom_def)
    then show ?thesis using top_ol False by (simp add: p_def lastChild_def nth_append)
  qed
  have "nest_lists l (Suc n) st =
      nest_lists (l + 1) n (st\<lparr>o_dom := insert_node p new_ol (o_dom st), o_stack := (l, length (o_dom st)) # o_stack st\<rparr>)"
    by (simp add: create_ol_eq Let_def insert_node_def p_def top_ol_def split: option.split)
  then show ?case
    using Suc.IH struct_push [OF Suc.prems p, of new_ol l] by (simp add: new_ol_def)
qed simp

lemma struct_initial_lists: "struct_ok hs st \<Longrightarrow> struct_ok hs (initial_lists i n st)"
proof (induction n arbitrary: i st)
  case (Suc n)
  have "initial_lists i (Suc n) st = initial_lists (i + 1) n
      (st\<lparr>o_dom := insert_node (snd (hd (o_stack st))) new_ol (o_dom st), o_stack := (i + 1, length (o_dom st)) # o_stack st\<rparr>)"
    using Suc.prems by (cases "o_stack st") (auto simp: struct_ok_def create_ol_eq Let_def insert_node_def)
  then show ?case
    using Suc.IH struct_push [OF Suc.prems struct_stack_top [OF Suc.prems], of new_ol "i + 1"]
    by (simp add: new_ol_def)
qed simp

lemma struct_start: "hs \<noteq> [] \<Longrightarrow> struct_ok hs (start_outline hs)"
proof -
  obtain m where m: "level_of (h_tag (hs ! 0)) = Suc (Suc m)"
    using level_of_range [of "h_tag (hs ! 0)"] by (metis Suc_le_D numeral_2_eq_2 Suc_le_mono)
  have "start_outline hs = initial_lists 2 m \<lparr>o_dom = [new_ol], o_stack = [(2, 0)], o_toggles = []\<rparr>"
    by (simp add: start_outline_def m create_ol_eq empty_outline_def Let_def numeral_2_eq_2)
  moreover have "struct_ok hs \<lparr>o_dom = [new_ol], o_stack = [(2, 0)], o_toggles = []\<rparr>"
    by (simp add: struct_ok_def wf_dom_def toggles_ok_def new_ol_def)
  ultimately show ?thesis using struct_initial_lists by simp
qed

lemma set_pop_above: "set (pop_above l stack) \<subseteq> set stack \<and> (stack \<noteq> [] \<longrightarrow> pop_above l stack \<noteq> [])"
  by (induction l stack rule: pop_above.induct) auto

lemma struct_pop: "struct_ok hs st \<Longrightarrow> struct_ok hs (st\<lparr>o_stack := pop_above l (o_stack st)\<rparr>)"
  using set_pop_above [of l "o_stack st"] by (auto simp: struct_ok_def toggles_ok_def)

lemma struct_adjust_stack: "struct_ok hs st \<Longrightarrow> struct_ok hs (adjust_stack l st)"
  by (simp add: adjust_stack_def Let_def struct_nest_lists struct_pop)

lemma struct_add_header:
  assumes "struct_ok hs st"
  shows "struct_ok hs (add_header hs i st)"
proof -
  define st1 where "st1 = adjust_stack (level_of (h_tag (hs ! i))) st"
  define nd where "nd = \<lparr>n_kind = Li i, n_parent = None, n_children = [], n_href = ''#'' @ h_id (hs ! i),
      n_expanded = True, n_toggle = needs_toggle hs i\<rparr>"
  define p where "p = snd (hd (o_stack st1))"
  have ok: "struct_ok hs st1" using struct_adjust_stack [OF assms] by (simp add: st1_def)
  have p: "p < length (o_dom st1)" using struct_stack_top [OF ok] by (simp add: p_def)
  note facts = insert_node_facts [OF p, of nd]
  have res: "add_header hs i st = st1\<lparr>o_dom := insert_node p nd (o_dom st1),
      o_toggles := o_toggles st1 @ (if needs_toggle hs i then [length (o_dom st1)] else [])\<rparr>"
    by (simp add: add_header_def create_li_def Let_def st1_def nd_def p_def insert_node_def)
  have tog: "toggles_ok hs st1" using ok by (simp add: struct_ok_def)
  then have bound: "k \<in> set (o_toggles st1) \<Longrightarrow> k < length (o_dom st1)" for k by (simp add: toggles_ok_def)
  have kind: "n_kind (insert_node p nd (o_dom st1) ! length (o_dom st1)) = Li i"
      "n_expanded (insert_node p nd (o_dom st1) ! length (o_dom st1))"
    using facts(3) insert_node_nth(5) [OF p, of nd] by (simp_all add: nd_def)
  have "toggles_ok hs (add_header hs i st)"
    unfolding res toggles_ok_def
    using tog bound facts(1) kind insert_node_nth(1-4) [OF p, of _ nd]
    by (auto simp: toggles_ok_def less_Suc_eq)
  then show ?thesis
    using ok wf_insert_node [of "o_dom st1" p nd] p facts(1)
    by (auto simp: struct_ok_def res nd_def less_Suc_eq)
qed

lemma struct_add_headers: "hs \<noteq> [] \<Longrightarrow> struct_ok hs (add_headers hs n)"
  by (induction n) (simp_all add: struct_start struct_add_header)

section \<open>Unfolding\<close>

text \<open>The header items from a node upwards, and the headers that enclose a header, by rank.\<close>

function ancestors :: "dom \<Rightarrow> nat \<Rightarrow> nat list" where
  "ancestors d i =
     i # (case n_parent (d ! i) of Some p \<Rightarrow> if p < i then ancestors d p else [] | None \<Rightarrow> [])"
  by pat_completeness auto
termination
  by (relation "measure snd") auto

declare ancestors.simps [simp del]

lemma ancestors_le: "m \<in> set (ancestors d i) \<Longrightarrow> m \<le> i"
proof (induction i rule: less_induct)
  case (less i)
  then show ?case
    by (fastforce simp: ancestors.simps [of _ i] split: option.splits if_splits)
qed

lemma last_lower_less: "last_lower hs n l = Some j \<Longrightarrow> j < n"
  by (induction n) (auto split: if_splits)

function enclosers :: "header list \<Rightarrow> nat \<Rightarrow> nat list" where
  "enclosers hs i =
     i # (case last_lower hs i (level_of (h_tag (hs ! i))) of None \<Rightarrow> [] | Some j \<Rightarrow> enclosers hs j)"
  by pat_completeness auto
termination
  by (relation "measure snd") (auto simp: last_lower_less)

declare enclosers.simps [simp del]

definition same_shape :: "dom \<Rightarrow> dom \<Rightarrow> bool" where
  "same_shape d d' \<longleftrightarrow>
     length d = length d' \<and>
     (\<forall>k<length d. n_kind (d' ! k) = n_kind (d ! k) \<and> n_parent (d' ! k) = n_parent (d ! k))"

lemma same_shape_refl [simp]: "same_shape d d"
  by (simp add: same_shape_def)

lemma same_shape_trans: "same_shape a b \<Longrightarrow> same_shape b c \<Longrightarrow> same_shape a c"
  by (simp add: same_shape_def)

lemma same_shape_expanded: "same_shape d (d[i := (d ! i)\<lparr>n_expanded := b\<rparr>])"
  by (simp add: same_shape_def nth_update_in)

definition parents_first :: "dom \<Rightarrow> bool" where
  "parents_first d \<longleftrightarrow> (\<forall>k<length d. \<forall>p. n_parent (d ! k) = Some p \<longrightarrow> p < k)"

lemma parents_first_shape: "same_shape d d' \<Longrightarrow> parents_first d \<Longrightarrow> parents_first d'"
  by (simp add: same_shape_def parents_first_def)

lemma ancestors_shape:
  "same_shape d d' \<Longrightarrow> parents_first d \<Longrightarrow> i < length d \<Longrightarrow> ancestors d' i = ancestors d i"
proof (induction i rule: less_induct)
  case (less i)
  have p: "n_parent (d' ! i) = n_parent (d ! i)" using less.prems by (simp add: same_shape_def)
  show ?case
  proof (cases "n_parent (d ! i)")
    case None
    then show ?thesis by (simp add: ancestors.simps [of _ i] p)
  next
    case (Some q)
    then have "q < i" using less.prems by (auto simp: parents_first_def)
    then show ?thesis using less.IH [of q] less.prems Some by (simp add: ancestors.simps [of _ i] p)
  qed
qed

text \<open>The loop over the parents ends and unfolds exactly the items above its start.\<close>

lemma expand_up_ends:
  assumes "parents_first d" "i < length d"
  shows "\<exists>d'. expand_up d (Some i) = Some d' \<and> same_shape d d' \<and>
           (\<forall>k<length d. n_expanded (d' ! k) \<longleftrightarrow>
              n_expanded (d ! k) \<or> k \<in> set (ancestors d i) \<and> n_kind (d ! k) \<noteq> Ol)"
  using assms
proof (induction i arbitrary: d rule: less_induct)
  case (less i)
  define e where "e = (case n_kind (d ! i) of Li _ \<Rightarrow> d[i := (d ! i)\<lparr>n_expanded := True\<rparr>] | Ol \<Rightarrow> d)"
  have step: "expand_up d (Some i) = expand_up e (n_parent (d ! i))"
    by (simp add: expand_up.simps [of d "Some i"] e_def)
  have shape: "same_shape d e" by (simp add: e_def same_shape_expanded split: node_kind.split)
  have e_exp: "n_expanded (e ! k) \<longleftrightarrow> n_expanded (d ! k) \<or> k = i \<and> n_kind (d ! k) \<noteq> Ol" if "k < length d" for k
    using that by (auto simp: e_def nth_update_in split: node_kind.split)
  show ?case
  proof (cases "n_parent (d ! i)")
    case None
    then have "expand_up d (Some i) = Some e" using step by (simp add: expand_up.simps)
    moreover have "ancestors d i = [i]" using None by (simp add: ancestors.simps)
    ultimately show ?thesis using shape e_exp by auto
  next
    case (Some q)
    then have q: "q < i" using less.prems by (auto simp: parents_first_def)
    obtain d' where d': "expand_up e (Some q) = Some d'" "same_shape e d'"
        "\<forall>k<length e. n_expanded (d' ! k) \<longleftrightarrow> n_expanded (e ! k) \<or> k \<in> set (ancestors e q) \<and> n_kind (e ! k) \<noteq> Ol"
      using less.IH [OF q, of e] parents_first_shape [OF shape less.prems(1)] q less.prems(2) shape
      by (auto simp: same_shape_def)
    have anc: "ancestors d i = i # ancestors e q"
      using ancestors_shape [OF shape less.prems(1), of q] q less.prems(2) Some
      by (simp add: ancestors.simps [of _ i])
    have kind: "k < length d \<Longrightarrow> n_kind (e ! k) = n_kind (d ! k)" for k using shape by (simp add: same_shape_def)
    show ?thesis
      using step Some d' e_exp anc kind same_shape_trans [OF shape d'(2)] shape
      by (intro exI [of _ d']) (auto simp: same_shape_def)
  qed
qed

text \<open>In the store of an outline the items above a header are the headers that enclose it.\<close>

lemma ancestors_enclosers:
  assumes "items_ok hs n d" "parents_first d" "k < length d"
  shows "{j. \<exists>m\<in>set (ancestors d k). n_kind (d ! m) = Li j} =
           (case n_kind (d ! k) of
              Li a \<Rightarrow> set (enclosers hs a)
            | Ol \<Rightarrow> (case enclosing d k of None \<Rightarrow> {} | Some b \<Rightarrow> set (enclosers hs b)))"
  using assms(3)
proof (induction k rule: less_induct)
  case (less k)
  let ?above = "\<lambda>k. {j. \<exists>m\<in>set (ancestors d k). n_kind (d ! m) = Li j}"
  have self: "?above k = (case n_kind (d ! k) of Li a \<Rightarrow> {a} | Ol \<Rightarrow> {}) \<union>
      (case n_parent (d ! k) of None \<Rightarrow> {} | Some p \<Rightarrow> ?above p)"
    using less.prems assms(2)
    by (auto simp: ancestors.simps [of _ k] parents_first_def split: option.splits node_kind.splits)
  have above: "(case n_parent (d ! k) of None \<Rightarrow> {} | Some p \<Rightarrow> ?above p) =
      (case enclosing d k of None \<Rightarrow> {} | Some b \<Rightarrow> set (enclosers hs b))"
  proof (cases "n_parent (d ! k)")
    case None
    then show ?thesis by (simp add: enclosing.simps [of _ k])
  next
    case (Some p)
    then have p: "p < k" using less.prems assms(2) by (auto simp: parents_first_def)
    then show ?thesis
      using less.IH [OF p] less.prems Some
      by (auto simp: enclosing.simps [of _ k] split: node_kind.splits)
  qed
  show ?case
  proof (cases "n_kind (d ! k)")
    case Ol
    then show ?thesis using self above by simp
  next
    case (Li a)
    then have "enclosing d k = last_lower hs a (level_of (h_tag (hs ! a)))"
      using assms(1) less.prems by (simp add: items_ok_def)
    then show ?thesis
      using self above Li by (simp add: enclosers.simps [of _ a] split: option.split)
  qed
qed

lemma item_node_Some:
  "k < length d \<Longrightarrow> n_kind (d ! k) = Li j \<Longrightarrow> (\<forall>k'<length d. n_kind (d ! k') = Li j \<longrightarrow> k' = k) \<Longrightarrow>
     item_node j m d = Some (m + k)"
proof (induction d arbitrary: k m)
  case (Cons nd d)
  show ?case
  proof (cases k)
    case 0
    then show ?thesis using Cons.prems by simp
  next
    case (Suc k')
    have only: "l < length (nd # d) \<Longrightarrow> n_kind ((nd # d) ! l) = Li j \<Longrightarrow> l = Suc k'" for l
      using Cons.prems(3) Suc by blast
    have nd: "n_kind nd \<noteq> Li j" using only [of 0] by auto
    have rest: "\<forall>l<length d. n_kind (d ! l) = Li j \<longrightarrow> l = k'"
    proof (intro allI impI)
      fix l assume "l < length d" "n_kind (d ! l) = Li j"
      then show "l = k'" using only [of "Suc l"] by simp
    qed
    have k': "k' < length d" "n_kind (d ! k') = Li j" using Cons.prems(1,2) unfolding Suc by simp_all
    have "item_node j m (nd # d) = item_node j (m + 1) d" using nd by simp
    also have "\<dots> = Some (m + 1 + k')" by (rule Cons.IH [OF k' rest])
    finally show ?thesis using Suc by simp
  qed
qed simp

lemma fold_toggles_spec:
  "same_shape d (fold_toggles ts d) \<and>
   (\<forall>k<length d. n_expanded (fold_toggles ts d ! k) \<longleftrightarrow> n_expanded (d ! k) \<and> k \<notin> set ts)"
proof (induction ts arbitrary: d)
  case (Cons t ts)
  let ?d = "d[t := (d ! t)\<lparr>n_expanded := False\<rparr>]"
  have "n_expanded (?d ! k) \<longleftrightarrow> n_expanded (d ! k) \<and> k \<noteq> t" if "k < length d" for k
    using that by (simp add: nth_update_in)
  then show ?case
    using Cons.IH [of ?d] same_shape_trans [OF same_shape_expanded [of d t False]]
    by (auto simp: fold_toggles_def)
qed (simp add: fold_toggles_def)

text \<open>Stores that differ from the outline as built by folding only.\<close>

definition folding_ok :: "header list \<Rightarrow> outline \<Rightarrow> dom \<Rightarrow> bool" where
  "folding_ok hs st d \<longleftrightarrow>
     same_shape (o_dom st) d \<and>
     (\<forall>k<length d. \<forall>j. n_kind (d ! k) = Li j \<longrightarrow> \<not> needs_toggle hs j \<longrightarrow> n_expanded (d ! k))"

lemma find_href_Some: "find_href h ls = Some a \<Longrightarrow> a < length ls \<and> s_href (ls ! a) = h"
  by (induction h ls arbitrary: a rule: find_href.induct) (auto split: if_splits)

lemma length_clear_live [simp]: "length (clear_live b ls) = length ls"
  by (induction b ls rule: clear_live.induct) simp_all

lemma current_link_less: "current_link hs tops w l links = Some a \<Longrightarrow> a < length links"
  using find_href_Some by (fastforce simp: current_link_def split: option.splits)

lemma built_outline:
  assumes "build_outline hs = Some st"
  shows "hs \<noteq> []" "items_ok hs (length hs) (o_dom st)" "struct_ok hs st"
  using assms add_headers_ok [of hs "length hs"] struct_add_headers [of hs "length hs"]
  by (auto simp: build_outline_def outline_inv_def split: if_splits)

lemma items_ok_shape:
  assumes "same_shape d d'" "items_ok hs n d" "k < length d'" "n_kind (d' ! k) = Li j"
  shows "k < length d" "n_kind (d ! k) = Li j"
  using assms by (simp_all add: same_shape_def)

lemma folding_ok_start: "build_outline hs = Some st \<Longrightarrow> folding_ok hs st (o_dom st)"
  using built_outline(3) [of hs st] by (auto simp: folding_ok_def struct_ok_def toggles_ok_def)

lemma folding_ok_toggle:
  assumes "build_outline hs = Some st" "folding_ok hs st d" "k \<in> set (o_toggles st)"
  shows "folding_ok hs st (header_toggle_click k d)"
proof -
  have shape: "same_shape d (header_toggle_click k d)"
    unfolding header_toggle_click_def by (rule same_shape_expanded)
  have tog: "needs_toggle hs j" if "n_kind (d ! k) = Li j" for j
    using built_outline(3) [OF assms(1)] assms(2,3) that
    by (auto simp: folding_ok_def same_shape_def struct_ok_def toggles_ok_def)
  show ?thesis
    using assms(2) tog same_shape_trans [OF _ shape] shape
    by (auto simp: folding_ok_def header_toggle_click_def nth_update_in same_shape_def)
qed

text \<open>The state after the toggles have been folded.\<close>

lemma folded_spec:
  assumes "build_outline hs = Some st" "folding_ok hs st d"
  defines "d1 \<equiv> fold_toggles (o_toggles st) d"
  shows "same_shape (o_dom st) d1"
    and "k < length d1 \<Longrightarrow> n_kind (d1 ! k) = Li j \<Longrightarrow> n_expanded (d1 ! k) \<longleftrightarrow> \<not> needs_toggle hs j"
proof -
  have f: "same_shape d d1" "\<forall>k<length d. n_expanded (d1 ! k) \<longleftrightarrow> n_expanded (d ! k) \<and> k \<notin> set (o_toggles st)"
    using fold_toggles_spec [of d "o_toggles st"] by (simp_all add: d1_def)
  then show shape: "same_shape (o_dom st) d1"
    using assms(2) same_shape_trans by (auto simp: folding_ok_def)
  assume k: "k < length d1" "n_kind (d1 ! k) = Li j"
  then have o: "k < length (o_dom st)" "n_kind (o_dom st ! k) = Li j" "k < length d" "n_kind (d ! k) = Li j"
    using shape f(1) by (auto simp: same_shape_def)
  have tog: "k \<in> set (o_toggles st) \<longleftrightarrow> needs_toggle hs j"
    using built_outline(3) [OF assms(1)] o(1,2) by (simp add: struct_ok_def toggles_ok_def)
  show "n_expanded (d1 ! k) \<longleftrightarrow> \<not> needs_toggle hs j"
  proof (cases "needs_toggle hs j")
    case True
    then show ?thesis using f(2) o(3) tog by simp
  next
    case False
    then have "n_expanded (d ! k)" using assms(2) o(3,4) by (auto simp: folding_ok_def)
    then show ?thesis using f(2) o(3) tog False by simp
  qed
qed

lemma update_header_expanded_spec:
  assumes "build_outline hs = Some st" "same_shape (o_dom st) d" "a < length hs"
  obtains d' where "updateHeaderExpanded a d = Some d'" "same_shape d d'"
    "\<And>k j. k < length d \<Longrightarrow> n_kind (d ! k) = Li j \<Longrightarrow>
       n_expanded (d' ! k) \<longleftrightarrow> n_expanded (d ! k) \<or> j \<in> set (enclosers hs a)"
proof -
  note o = built_outline [OF assms(1)]
  have pf0: "parents_first (o_dom st)" using o(3) by (auto simp: struct_ok_def wf_dom_def parents_first_def)
  have pf: "parents_first d" using parents_first_shape [OF assms(2) pf0] .
  have kinds: "n_kind (d ! k) = n_kind (o_dom st ! k)" if "k < length d" for k
    using assms(2) that by (simp add: same_shape_def)
  have len: "length d = length (o_dom st)" using assms(2) by (simp add: same_shape_def)
  obtain k0 where k0: "k0 < length (o_dom st)" "n_kind (o_dom st ! k0) = Li a"
    using o(2) assms(3) by (auto simp: items_ok_def)
  have uniq: "k = k'" if "k < length d" "k' < length d" "n_kind (d ! k) = Li j" "n_kind (d ! k') = Li j" for k k' j
  proof -
    have "n_kind (o_dom st ! k) = Li j" "n_kind (o_dom st ! k') = Li j" using that kinds by simp_all
    then show ?thesis using o(2) that(1,2) unfolding len items_ok_def by blast
  qed
  have k0l: "k0 < length d" using k0(1) len by simp
  then have k0': "k0 < length d" "n_kind (d ! k0) = Li a" using k0(2) kinds [of k0] by simp_all
  have node: "item_node a 0 d = Some k0"
    using item_node_Some [OF k0', of 0] uniq [OF _ k0'(1) _ k0'(2)] by auto
  obtain d' where d': "expand_up d (Some k0) = Some d'" "same_shape d d'"
      "\<forall>k<length d. n_expanded (d' ! k) \<longleftrightarrow> n_expanded (d ! k) \<or> k \<in> set (ancestors d k0) \<and> n_kind (d ! k) \<noteq> Ol"
    using expand_up_ends [OF pf k0'(1)] by blast
  have anc: "ancestors d k0 = ancestors (o_dom st) k0"
    using ancestors_shape [OF assms(2) pf0 k0(1)] .
  have enc: "{j. \<exists>m\<in>set (ancestors (o_dom st) k0). n_kind (o_dom st ! m) = Li j} = set (enclosers hs a)"
    using ancestors_enclosers [OF o(2) pf0 k0(1)] k0(2) by simp
  have "k \<in> set (ancestors d k0) \<longleftrightarrow> j \<in> set (enclosers hs a)" if k: "k < length d" "n_kind (d ! k) = Li j" for k j
  proof
    assume "k \<in> set (ancestors d k0)"
    then show "j \<in> set (enclosers hs a)" using enc anc k kinds by auto
  next
    assume "j \<in> set (enclosers hs a)"
    then obtain m where m: "m \<in> set (ancestors d k0)" "n_kind (o_dom st ! m) = Li j" using enc anc by auto
    have "m \<le> k0" using m(1) anc ancestors_le by simp
    then have "m = k" using uniq [of m k j] k m(2) kinds k0'(1) by simp
    then show "k \<in> set (ancestors d k0)" using m(1) by simp
  qed
  then show thesis
    using that [of d'] d' node by (auto simp: updateHeaderExpanded_def)
qed

text \<open>
  C39. The current header is revealed and nothing else stays unfolded. However the reader folded and unfolded
  items before, an update of the sidebar ends, and afterwards an item with a fold toggle is unfolded
  exactly when it belongs to the current header or to a header that encloses it by rank, while
  items without a toggle stay unfolded.
\<close>

theorem current_header_revealed:
  assumes "build_outline hs = Some st" "folding_ok hs st d" "length links = length hs"
  shows "\<exists>links' d'. update_headers hs (o_toggles st) tops window line (links, d) = Some (links', d') \<and>
           folding_ok hs st d' \<and>
           (\<forall>k<length d'. \<forall>j. n_kind (d' ! k) = Li j \<longrightarrow>
              (n_expanded (d' ! k) \<longleftrightarrow>
                 \<not> needs_toggle hs j \<or>
                 (\<exists>a. current_link hs tops window line links = Some a \<and> j \<in> set (enclosers hs a))))"
proof -
  let ?d1 = "fold_toggles (o_toggles st) d"
  have ne: "hs \<noteq> []" using built_outline(1) [OF assms(1)] .
  note f = folded_spec [OF assms(1,2)]
  show ?thesis
  proof (cases "current_link hs tops window line links")
    case None
    then have "update_headers hs (o_toggles st) tops window line (links, d) =
        Some (updateCurrentHeader hs tops window line links, ?d1)"
      using ne by (simp add: update_headers_def Let_def)
    moreover have "folding_ok hs st ?d1" using f by (auto simp: folding_ok_def)
    ultimately show ?thesis using f(2) None by auto
  next
    case (Some a)
    then have a: "a < length hs" using current_link_less assms(3) by fastforce
    obtain d' where d': "updateHeaderExpanded a ?d1 = Some d'" "same_shape ?d1 d'"
        "\<And>k j. k < length ?d1 \<Longrightarrow> n_kind (?d1 ! k) = Li j \<Longrightarrow>
           n_expanded (d' ! k) \<longleftrightarrow> n_expanded (?d1 ! k) \<or> j \<in> set (enclosers hs a)"
      by (rule update_header_expanded_spec [OF assms(1) f(1) a]) blast
    have shape: "same_shape (o_dom st) d'" using same_shape_trans [OF f(1) d'(2)] .
    have exp: "n_expanded (d' ! k) \<longleftrightarrow> \<not> needs_toggle hs j \<or> j \<in> set (enclosers hs a)"
      if "k < length d'" "n_kind (d' ! k) = Li j" for k j
    proof -
      have k: "k < length ?d1" "n_kind (?d1 ! k) = Li j" using that d'(2) by (auto simp: same_shape_def)
      show ?thesis using d'(3) [OF k] f(2) [OF k] by blast
    qed
    have "update_headers hs (o_toggles st) tops window line (links, d) =
        Some (updateCurrentHeader hs tops window line links, d')"
      using ne Some d'(1) by (simp add: update_headers_def Let_def)
    moreover have "folding_ok hs st d'" using shape exp by (auto simp: folding_ok_def)
    ultimately show ?thesis using exp Some by auto
  qed
qed

definition deep_headers :: "header list" where
  "deep_headers =
     [\<lparr>h_tag = H2, h_id = ''a'', h_first_child = Some ''A''\<rparr>, \<lparr>h_tag = H3, h_id = ''b'', h_first_child = Some ''A''\<rparr>,
      \<lparr>h_tag = H4, h_id = ''c'', h_first_child = Some ''A''\<rparr>, \<lparr>h_tag = H3, h_id = ''d'', h_first_child = Some ''A''\<rparr>,
      \<lparr>h_tag = H4, h_id = ''e'', h_first_child = Some ''A''\<rparr>]"

definition deep_links :: "summary_link list" where
  "deep_links = map (\<lambda>h. \<lparr>s_href = ''#'' @ h_id h, s_current = False\<rparr>) deep_headers"

lemma current_header_revealed_witness:
  "\<exists>st links' d'. build_outline deep_headers = Some st \<and>
     update_headers deep_headers (o_toggles st) [0, 10, 20, 400, 500] 600 100 (deep_links, o_dom st) = Some (links', d') \<and>
     (\<forall>k<length d'. n_kind (d' ! k) = Li 1 \<longrightarrow> n_expanded (d' ! k)) \<and>
     (\<forall>k<length d'. n_kind (d' ! k) = Li 3 \<longrightarrow> \<not> n_expanded (d' ! k))"
proof -
  obtain st where st: "build_outline deep_headers = Some st"
    by (simp add: build_outline_def deep_headers_def)
  have cur: "current_link deep_headers [0, 10, 20, 400, 500] 600 100 deep_links = Some 2" by code_simp
  have ll: "last_lower deep_headers 2 4 = Some 1" "last_lower deep_headers 1 3 = Some 0"
      "last_lower deep_headers 0 2 = None"
      "level_of (h_tag (deep_headers ! 2)) = 4" "level_of (h_tag (deep_headers ! 1)) = 3"
      "level_of (h_tag (deep_headers ! 0)) = 2"
    by code_simp+
  have enc: "enclosers deep_headers 2 = [2, 1, 0]"
    using ll by (simp add: enclosers.simps)
  have tog: "needs_toggle deep_headers 3" by code_simp
  have len: "length deep_links = length deep_headers" by (simp add: deep_links_def)
  obtain links' d' where u:
      "update_headers deep_headers (o_toggles st) [0, 10, 20, 400, 500] 600 100 (deep_links, o_dom st) = Some (links', d')"
      "\<And>k j. k < length d' \<Longrightarrow> n_kind (d' ! k) = Li j \<Longrightarrow>
         n_expanded (d' ! k) \<longleftrightarrow> \<not> needs_toggle deep_headers j \<or> j \<in> {2, 1, 0}"
    using current_header_revealed [OF st folding_ok_start [OF st] len, of "[0, 10, 20, 400, 500]" 600 100]
    unfolding cur by (auto simp: enc)
  show ?thesis
    using st u(1) u(2) [of _ 1] u(2) [of _ 3] tog
    by (intro exI [of _ st] exI [of _ links'] exI [of _ d']) simp
qed

section \<open>The text of an item\<close>

text \<open>\<open>filterHeader\<close> copies the content of a header without the marks of the search, keeping what is
  inside them.\<close>

datatype html = HText string | HElem string "html list"

fun without_marks :: "html \<Rightarrow> html list" where
  "without_marks (HText t) = [HText t]"
| "without_marks (HElem name nodes) =
     (let nodes' = concat (map without_marks nodes)
      in if name = ''MARK'' then nodes' else [HElem name nodes'])"

definition filterHeader :: "html list \<Rightarrow> html list \<Rightarrow> html list" where
  "filterHeader source dest = dest @ concat (map without_marks source)"

fun html_text :: "html \<Rightarrow> string" where
  "html_text (HText t) = t"
| "html_text (HElem name nodes) = concat (map html_text nodes)"

fun has_mark :: "html \<Rightarrow> bool" where
  "has_mark (HText t) \<longleftrightarrow> False"
| "has_mark (HElem name nodes) \<longleftrightarrow> name = ''MARK'' \<or> list_ex has_mark nodes"

lemma without_marks_text: "concat (map html_text (without_marks n)) = html_text n"
proof (induction n rule: without_marks.induct)
  case (2 name nodes)
  have "concat (map html_text (concat (map without_marks ns))) = concat (map html_text ns)"
    if "\<And>n. n \<in> set ns \<Longrightarrow> concat (map html_text (without_marks n)) = html_text n" for ns
    using that by (induction ns) simp_all
  then show ?case using 2 by (simp add: Let_def)
qed simp

lemma without_marks_none: "n' \<in> set (without_marks n) \<Longrightarrow> \<not> has_mark n'"
  by (induction n arbitrary: n' rule: without_marks.induct)
     (auto simp: Let_def list_ex_iff split: if_splits)

lemma filterHeader_text:
  "concat (map html_text (filterHeader source [])) = concat (map html_text source)"
  "list_all (\<lambda>n. \<not> has_mark n) (filterHeader source [])"
proof -
  show "concat (map html_text (filterHeader source [])) = concat (map html_text source)"
    by (induction source) (simp_all add: filterHeader_def without_marks_text)
  show "list_all (\<lambda>n. \<not> has_mark n) (filterHeader source [])"
    using without_marks_none by (auto simp: filterHeader_def list_all_iff)
qed

end
