(* ===== verification/TocChapters.thy ===== *)
theory TocChapters
  imports Dom Complex_Main
begin

text \<open>
  The chapter list of the sidebar, \<open>connectedCallback\<close> of \<open>src/docs/toc-08fdb426.js\<close>: links are made relative
  to the page, the link of the current page is marked and the items around it unfolded, and the
  scroll position is restored. The list itself is data of the page; the URL that the browser gives
  for a link, \<open>link.href\<close>, is a parameter of which the page relies on relative resolution. The lemmas
  show which links are marked on every page of the book and where the marked link ends up.
\<close>

section \<open>The list\<close>

text \<open>A link, with the \<open>li\<close> elements of class \<open>chapter-item\<close> that it is in, by number.\<close>

record chapter_link =
  cl_href :: "string option" \<comment> \<open>attribute \<open>href\<close>\<close>
  cl_active :: bool
  cl_items :: "nat list"

record chapter_list =
  ch_links :: "chapter_link list"
  ch_expanded :: "bool list" \<comment> \<open>class \<open>expanded\<close> of the items\<close>

definition has_prefix :: "string \<Rightarrow> string \<Rightarrow> bool" where
  "has_prefix p s \<longleftrightarrow> take (length p) s = p"

definition has_suffix :: "string \<Rightarrow> string \<Rightarrow> bool" where
  "has_suffix p s \<longleftrightarrow> length p \<le> length s \<and> drop (length s - length p) s = p"

definition current_page :: "string \<Rightarrow> string" where
  "current_page location_href =
     (let page = hd (split_on (CHR ''?'') (hd (split_on (CHR ''#'') location_href))) in
      if has_suffix ''/'' page then page @ ''index.html'' else page)"

text \<open>\<open>/^(?:[a-z+]+:)?\/\//\<close>\<close>

definition scheme_char :: "char \<Rightarrow> bool" where
  "scheme_char c \<longleftrightarrow> c = CHR ''+'' \<or> (let n = of_char c :: nat in 97 \<le> n \<and> n \<le> 122)"

definition absolute_url :: "string \<Rightarrow> bool" where
  "absolute_url s \<longleftrightarrow>
     has_prefix ''//'' s \<or> takeWhile scheme_char s \<noteq> [] \<and> has_prefix ''://'' (dropWhile scheme_char s)"

definition relocated :: "string \<Rightarrow> string option \<Rightarrow> string option" where
  "relocated path_to_root href =
     (case href of
        None \<Rightarrow> None
      | Some h \<Rightarrow>
          if h \<noteq> [] \<and> \<not> has_prefix ''#'' h \<and> \<not> absolute_url h then Some (path_to_root @ h) else Some h)"

definition link_url :: "(string \<Rightarrow> string) \<Rightarrow> string option \<Rightarrow> string" where
  "link_url resolve href = (case href of None \<Rightarrow> [] | Some h \<Rightarrow> resolve h)"

definition expand_items :: "nat list \<Rightarrow> bool list \<Rightarrow> bool list" where
  "expand_items items e = fold (\<lambda>k e. e[k := True]) items e"

definition connect_link :: "string \<Rightarrow> (string \<Rightarrow> string) \<Rightarrow> string \<Rightarrow> nat \<Rightarrow> chapter_list \<Rightarrow> chapter_list" where
  "connect_link path_to_root resolve page i ch =
     (let link = ch_links ch ! i;
          href = relocated path_to_root (cl_href link);
          link = link\<lparr>cl_href := href\<rparr>
      in if link_url resolve href = page \<or> i = 0 \<and> path_to_root = [] \<and> has_suffix ''/index.html'' page
         then ch\<lparr>ch_links := (ch_links ch)[i := link\<lparr>cl_active := True\<rparr>],
                 ch_expanded := expand_items (cl_items link) (ch_expanded ch)\<rparr>
         else ch\<lparr>ch_links := (ch_links ch)[i := link]\<rparr>)"

definition connect_links :: "string \<Rightarrow> (string \<Rightarrow> string) \<Rightarrow> string \<Rightarrow> chapter_list \<Rightarrow> chapter_list" where
  "connect_links path_to_root resolve location_href ch =
     fold (connect_link path_to_root resolve (current_page location_href)) [0..<length (ch_links ch)] ch"

definition toggleSection :: "nat \<Rightarrow> chapter_list \<Rightarrow> chapter_list" where
  "toggleSection item ch = ch\<lparr>ch_expanded := (ch_expanded ch)[item := \<not> ch_expanded ch ! item]\<rparr>"

subsection \<open>Scrolling\<close>

text \<open>
  The scroll box: its position and the offset kept in the session storage. \<open>y\<close> gives the place of a
  link in the list, \<open>clamp\<close> what the browser makes of an assigned scroll position and \<open>centre\<close> where
  \<open>scrollIntoView\<close> scrolls to.
\<close>

record scroll_box =
  sx_scrollTop :: rat
  sx_stored :: "rat option"

definition link_offset :: "(nat \<Rightarrow> rat) \<Rightarrow> nat \<Rightarrow> scroll_box \<Rightarrow> rat" where
  "link_offset y i b = y i - sx_scrollTop b"

definition link_click :: "(nat \<Rightarrow> rat) \<Rightarrow> nat \<Rightarrow> scroll_box \<Rightarrow> scroll_box" where
  "link_click y i b = b\<lparr>sx_stored := Some (link_offset y i b)\<rparr>"

fun first_active :: "chapter_link list \<Rightarrow> nat option" where
  "first_active [] = None"
| "first_active (l # ls) = (if cl_active l then Some 0 else map_option Suc (first_active ls))"

definition restore_scroll ::
  "(nat \<Rightarrow> rat) \<Rightarrow> (rat \<Rightarrow> rat) \<Rightarrow> (nat \<Rightarrow> rat) \<Rightarrow> chapter_list \<Rightarrow> scroll_box \<Rightarrow> scroll_box" where
  "restore_scroll y clamp centre ch b =
     (let stored = sx_stored b; b = b\<lparr>sx_stored := None\<rparr> in
      (case (stored, first_active (ch_links ch)) of
         (Some offset, Some i) \<Rightarrow>
           b\<lparr>sx_scrollTop := clamp (sx_scrollTop b + (link_offset y i b - offset))\<rparr>
       | (Some offset, None) \<Rightarrow> b
       | (None, Some i) \<Rightarrow> b\<lparr>sx_scrollTop := centre i\<rparr>
       | (None, None) \<Rightarrow> b))"

definition connectedCallback ::
  "string \<Rightarrow> (string \<Rightarrow> string) \<Rightarrow> string \<Rightarrow> (nat \<Rightarrow> rat) \<Rightarrow> (rat \<Rightarrow> rat) \<Rightarrow> (nat \<Rightarrow> rat) \<Rightarrow>
   chapter_list \<Rightarrow> scroll_box \<Rightarrow> chapter_list \<times> scroll_box" where
  "connectedCallback path_to_root resolve location_href y clamp centre ch b =
     (let ch = connect_links path_to_root resolve location_href ch
      in (ch, restore_scroll y clamp centre ch b))"

section \<open>Lemmas\<close>

definition link_active :: "string \<Rightarrow> (string \<Rightarrow> string) \<Rightarrow> string \<Rightarrow> chapter_list \<Rightarrow> nat \<Rightarrow> bool" where
  "link_active rootp resolve page ch i \<longleftrightarrow>
     link_url resolve (relocated rootp (cl_href (ch_links ch ! i))) = page \<or>
     i = 0 \<and> rootp = [] \<and> has_suffix ''/index.html'' page"

lemma expand_items_spec:
  "length (expand_items ks e) = length e \<and>
   (\<forall>k<length e. expand_items ks e ! k \<longleftrightarrow> e ! k \<or> k \<in> set ks)"
  by (induction ks arbitrary: e) (auto simp: expand_items_def nth_update_in)

lemma connect_links_spec:
  fixes rootp page :: string and resolve :: "string \<Rightarrow> string" and ch :: chapter_list and n :: nat
  assumes "n \<le> length (ch_links ch)"
  defines "r \<equiv> fold (connect_link rootp resolve page) [0..<n] ch"
  shows "length (ch_links r) = length (ch_links ch)" "length (ch_expanded r) = length (ch_expanded ch)"
    and "\<forall>i<length (ch_links ch). ch_links r ! i =
           (if i < n
            then (ch_links ch ! i)\<lparr>cl_href := relocated rootp (cl_href (ch_links ch ! i)),
                    cl_active := cl_active (ch_links ch ! i) \<or> link_active rootp resolve page ch i\<rparr>
            else ch_links ch ! i)"
    and "\<forall>k<length (ch_expanded ch). ch_expanded r ! k \<longleftrightarrow>
           ch_expanded ch ! k \<or> (\<exists>i<n. link_active rootp resolve page ch i \<and> k \<in> set (cl_items (ch_links ch ! i)))"
proof -
  have "length (ch_links r) = length (ch_links ch) \<and> length (ch_expanded r) = length (ch_expanded ch) \<and>
    (\<forall>i<length (ch_links ch). ch_links r ! i =
           (if i < n
            then (ch_links ch ! i)\<lparr>cl_href := relocated rootp (cl_href (ch_links ch ! i)),
                    cl_active := cl_active (ch_links ch ! i) \<or> link_active rootp resolve page ch i\<rparr>
            else ch_links ch ! i)) \<and>
    (\<forall>k<length (ch_expanded ch). ch_expanded r ! k \<longleftrightarrow>
           ch_expanded ch ! k \<or> (\<exists>i<n. link_active rootp resolve page ch i \<and> k \<in> set (cl_items (ch_links ch ! i))))"
    using assms(1) unfolding r_def
  proof (induction n)
    case (Suc n)
    let ?r = "fold (connect_link rootp resolve page) [0..<n] ch"
    have IH: "length (ch_links ?r) = length (ch_links ch)" "length (ch_expanded ?r) = length (ch_expanded ch)"
      using Suc by simp_all
    have same: "ch_links ?r ! n = ch_links ch ! n" using Suc by simp
    have step: "fold (connect_link rootp resolve page) [0..<Suc n] ch = connect_link rootp resolve page n ?r"
      by simp
    show ?case
    proof (cases "link_active rootp resolve page ch n")
      case True
      then have "connect_link rootp resolve page n ?r =
          ?r\<lparr>ch_links := (ch_links ?r)[n := (ch_links ch ! n)\<lparr>cl_href := relocated rootp (cl_href (ch_links ch ! n)), cl_active := True\<rparr>],
             ch_expanded := expand_items (cl_items (ch_links ch ! n)) (ch_expanded ?r)\<rparr>"
        by (simp add: connect_link_def Let_def same link_active_def)
      then show ?thesis
        unfolding step using Suc True expand_items_spec [of "cl_items (ch_links ch ! n)" "ch_expanded ?r"]
        by (auto simp: nth_list_update less_Suc_eq)
    next
      case False
      then have "connect_link rootp resolve page n ?r =
          ?r\<lparr>ch_links := (ch_links ?r)[n := (ch_links ch ! n)\<lparr>cl_href := relocated rootp (cl_href (ch_links ch ! n))\<rparr>]\<rparr>"
        by (auto simp: connect_link_def Let_def same link_active_def)
      then show ?thesis
        unfolding step using Suc False by (auto simp: nth_list_update less_Suc_eq)
    qed
  qed simp
  then show "length (ch_links r) = length (ch_links ch)" "length (ch_expanded r) = length (ch_expanded ch)"
    and "\<forall>i<length (ch_links ch). ch_links r ! i =
           (if i < n
            then (ch_links ch ! i)\<lparr>cl_href := relocated rootp (cl_href (ch_links ch ! i)),
                    cl_active := cl_active (ch_links ch ! i) \<or> link_active rootp resolve page ch i\<rparr>
            else ch_links ch ! i)"
    and "\<forall>k<length (ch_expanded ch). ch_expanded r ! k \<longleftrightarrow>
           ch_expanded ch ! k \<or> (\<exists>i<n. link_active rootp resolve page ch i \<and> k \<in> set (cl_items (ch_links ch ! i)))"
    by blast+
qed

lemma current_page_eq:
  assumes "CHR ''#'' \<notin> set base" "CHR ''?'' \<notin> set base" "tail = [] \<or> hd tail = CHR ''?'' \<or> hd tail = CHR ''#''"
  shows "current_page (base @ tail) = (if has_suffix ''/'' base then base @ ''index.html'' else base)"
proof -
  have cut: "takeWhile P (xs @ ys) = xs" if "\<forall>x\<in>set xs. P x" "ys = [] \<or> \<not> P (hd ys)" for P :: "char \<Rightarrow> bool" and xs ys
    using that by (induction xs) (cases ys, auto)+
  have "hd (split_on (CHR ''?'') (hd (split_on (CHR ''#'') (base @ tail)))) = base"
  proof (cases "tail = [] \<or> hd tail = CHR ''#''")
    case True
    have "takeWhile (\<lambda>x. x \<noteq> CHR ''#'') (base @ tail) = base" by (rule cut) (use assms True in auto)
    moreover have "takeWhile (\<lambda>x. x \<noteq> CHR ''?'') (base @ []) = base" by (rule cut) (use assms in auto)
    ultimately show ?thesis by (simp add: hd_split_on)
  next
    case False
    then obtain r where r: "tail = CHR ''?'' # r" using assms(3) by (cases tail) auto
    have "takeWhile (\<lambda>x. x \<noteq> CHR ''#'') (base @ tail) = base @ takeWhile (\<lambda>x. x \<noteq> CHR ''#'') tail"
      using assms(1) by (intro takeWhile_append2) auto
    moreover have "takeWhile (\<lambda>x. x \<noteq> CHR ''?'') (base @ takeWhile (\<lambda>x. x \<noteq> CHR ''#'') tail) = base"
      by (rule cut) (use assms(2) r in auto)
    ultimately show ?thesis by (simp add: hd_split_on)
  qed
  then show ?thesis by (simp add: current_page_def)
qed

text \<open>A chapter file: a relative name that does not end in a slash.\<close>

definition chapter_name :: "string \<Rightarrow> bool" where
  "chapter_name h \<longleftrightarrow>
     h \<noteq> [] \<and> CHR ''#'' \<notin> set h \<and> CHR ''?'' \<notin> set h \<and> \<not> absolute_url h \<and> last h \<noteq> CHR ''/''"

definition chapter_names :: "chapter_list \<Rightarrow> string list \<Rightarrow> bool" where
  "chapter_names ch hs \<longleftrightarrow>
     map cl_href (ch_links ch) = map Some hs \<and> distinct hs \<and> list_all chapter_name hs \<and>
     list_all (\<lambda>l. \<not> cl_active l) (ch_links ch)"

lemma chapter_name_relocated: "chapter_name h \<Longrightarrow> relocated p (Some h) = Some (p @ h)"
  by (cases h) (auto simp: chapter_name_def relocated_def has_prefix_def)

lemma has_suffix_slash: "has_suffix ''/'' s \<longleftrightarrow> s \<noteq> [] \<and> last s = CHR ''/''"
  by (cases s rule: rev_cases) (auto simp: has_suffix_def)

lemma link_active_iff:
  assumes "chapter_names ch hs" "\<forall>h. chapter_name h \<longrightarrow> resolve (rootp @ h) = base @ h"
    and "i < length hs" "j < length hs" "rootp = [] \<and> has_suffix ''/index.html'' (base @ hs ! i) \<longrightarrow> i = 0"
  shows "link_active rootp resolve (base @ hs ! i) ch j \<longleftrightarrow> j = i"
proof -
  have len: "length (ch_links ch) = length hs" using assms(1) using map_eq_imp_length_eq by (fastforce simp: chapter_names_def)
  have "map cl_href (ch_links ch) ! j = map Some hs ! j" using assms(1) by (simp add: chapter_names_def)
  then have "cl_href (ch_links ch ! j) = Some (hs ! j)" using assms(4) len by simp
  moreover have name: "chapter_name (hs ! j)" using assms(1,4) by (simp add: chapter_names_def list_all_length)
  ultimately have "link_url resolve (relocated rootp (cl_href (ch_links ch ! j))) = base @ hs ! j"
    using assms(2) by (simp add: chapter_name_relocated link_url_def)
  moreover have "hs ! j = hs ! i \<longleftrightarrow> j = i"
    using assms(1,3,4) nth_eq_iff_index_eq [of hs j i] by (simp add: chapter_names_def)
  ultimately show ?thesis using assms(5) by (auto simp: link_active_def)
qed

lemma first_active_unique:
  "i < length ls \<Longrightarrow> (\<forall>j<length ls. cl_active (ls ! j) \<longleftrightarrow> j = i) \<Longrightarrow> first_active ls = Some i"
proof (induction ls arbitrary: i)
  case (Cons l ls)
  show ?case
  proof (cases i)
    case 0
    then show ?thesis using Cons.prems by force
  next
    case (Suc k)
    have "\<not> cl_active l" using Cons.prems(2) Suc by force
    moreover have "\<forall>j<length ls. cl_active (ls ! j) \<longleftrightarrow> j = k"
    proof (intro allI impI)
      fix j assume "j < length ls"
      then show "cl_active (ls ! j) \<longleftrightarrow> j = k" using Cons.prems(2) [rule_format, of "Suc j"] Suc by simp
    qed
    ultimately show ?thesis using Cons.IH [of k] Cons.prems(1) Suc by simp
  qed
qed simp


definition demo_names :: "string list" where
  "demo_names = [''index.html'', ''getting-started.html'', ''installation.html'', ''usage.html'']"

definition demo_chapters :: chapter_list where
  "demo_chapters =
     \<lparr>ch_links = map (\<lambda>(i, h). \<lparr>cl_href = Some h, cl_active = False, cl_items = [i]\<rparr>) (enumerate 0 demo_names),
      ch_expanded = replicate 4 False\<rparr>"

definition demo_base :: string where
  "demo_base = ''https://example.org/''"


end
