(* ===== verification/TocDebug.thy ===== *)
theory TocDebug
  imports Toc Dom
begin

text \<open>
  The debugging aid of \<open>src/docs/toc-08fdb426.js\<close>: after \<open>mdbookEnableThresholdDebug\<close> every update of the threshold
  fills a table of the values it was computed from and draws a line at the threshold. Numbers are
  rational, below the size at which \<open>toFixed\<close> changes its format. The lemmas show that the drawing leaves the threshold
  alone and that the line is where the threshold is.
\<close>

section \<open>Definitions\<close>

text \<open>\<open>toFixed(1)\<close>: the nearest tenth, the larger one of two, with the sign put in front.\<close>

definition to_fixed1 :: "rat \<Rightarrow> string" where
  "to_fixed1 x =
     (let n = nat \<lfloor>abs x * 10 + 1 / 2\<rfloor> in
      (if x < 0 then ''-'' else []) @ show_nat (n div 10) @ ''.'' @ show_nat (n mod 10))"

record toc_debug =
  g_scroll :: scroll_state
  g_thresholdDebug :: bool
  g_body :: bool \<comment> \<open>\<open>document.body\<close> exists\<close>
  g_data :: "(string \<times> string) list option" \<comment> \<open>the rows of the table, when its element exists\<close>
  g_lines :: "rat list" \<comment> \<open>\<open>top\<close> of the elements with the id of the line\<close>

definition debug_rows :: "viewport \<Rightarrow> scroll_state \<Rightarrow> rat \<Rightarrow> (string \<times> string) list" where
  "debug_rows v s new_threshold =
     (let pixelsBelow = max 0 (documentHeight v - (scrollTop v + windowHeight v));
          pixelsAbove = max 0 (defaultDownThreshold - scrollTop v);
          bottomAdd = max 0 (windowHeight v - pixelsBelow - defaultDownThreshold) in
      [(''documentHeight'', to_fixed1 (documentHeight v)), (''windowHeight'', to_fixed1 (windowHeight v)),
       (''scrollTop'', to_fixed1 (scrollTop v)), (''pixelsAbove'', to_fixed1 pixelsAbove),
       (''pixelsBelow'', to_fixed1 pixelsBelow), (''bottomAdd'', to_fixed1 bottomAdd),
       (''adjustedBottomAdd'', to_fixed1 (adjusted_bottom_add v)),
       (''scrollingDown'', if scrollTop v < lastKnownScrollPosition s then ''false'' else ''true''),
       (''threshold'', to_fixed1 new_threshold)])"

text \<open>The first line found is removed, the new one appended.\<close>

definition drawDebugLine :: "toc_debug \<Rightarrow> toc_debug" where
  "drawDebugLine g = (if \<not> g_body g then g else g\<lparr>g_lines := drop 1 (g_lines g) @ [threshold (g_scroll g)]\<rparr>)"

text \<open>
  \<open>updateThreshold\<close> with the drawing. The table goes into the body, which has to exist; the position is stored at the end.
\<close>

definition update_threshold_debug :: "viewport \<Rightarrow> toc_debug \<Rightarrow> toc_debug outcome" where
  "update_threshold_debug v g =
     (let s = updateThreshold v (g_scroll g);
          g1 = g\<lparr>g_scroll := (g_scroll g)\<lparr>threshold := threshold s\<rparr>\<rparr>;
          stored = (\<lambda>g. g\<lparr>g_scroll := s\<rparr>) in
      if \<not> g_thresholdDebug g then js_ok (stored g1)
      else if g_data g = None \<and> \<not> g_body g then js_throw JsTypeError g1
      else js_ok (stored (drawDebugLine (g1\<lparr>g_data := Some (debug_rows v (g_scroll g) (threshold s))\<rparr>))))"

definition mdbookEnableThresholdDebug :: "viewport \<Rightarrow> toc_debug \<Rightarrow> toc_debug outcome" where
  "mdbookEnableThresholdDebug v g =
     js_then (update_threshold_debug v (g\<lparr>g_thresholdDebug := True\<rparr>)) (\<lambda>g. js_ok (drawDebugLine g))"

datatype debug_event = Scrolled viewport | Enabled viewport

primrec event_view :: "debug_event \<Rightarrow> viewport" where
  "event_view (Scrolled v) = v"
| "event_view (Enabled v) = v"

primrec debug_handle :: "debug_event \<Rightarrow> toc_debug \<Rightarrow> toc_debug outcome" where
  "debug_handle (Scrolled v) g = update_threshold_debug v g"
| "debug_handle (Enabled v) g = mdbookEnableThresholdDebug v g"

definition no_debug :: "scroll_state \<Rightarrow> toc_debug" where
  "no_debug s = \<lparr>g_scroll = s, g_thresholdDebug = False, g_body = True, g_data = None, g_lines = []\<rparr>"

section \<open>Lemmas\<close>

text \<open>With a body, the line is drawn once, where the threshold is, and the table ends with it.\<close>

definition drawn :: "toc_debug \<Rightarrow> bool" where
  "drawn g \<longleftrightarrow> g_body g \<and>
     (if g_thresholdDebug g
      then g_lines g = [threshold (g_scroll g)] \<and>
        (\<exists>rows. g_data g = Some (rows @ [(''threshold'', to_fixed1 (threshold (g_scroll g)))]))
      else g_lines g = [] \<and> g_data g = None)"

lemma debug_rows_end: "\<exists>rows. debug_rows v s t = rows @ [(''threshold'', to_fixed1 t)]"
  by (simp add: debug_rows_def Let_def)

lemma debug_step:
  assumes "g_body g" "length (g_lines g) \<le> 1"
  shows "update_threshold_debug v g = js_ok (fst (update_threshold_debug v g))"
    "g_scroll (fst (update_threshold_debug v g)) = updateThreshold v (g_scroll g)"
    "g_body (fst (update_threshold_debug v g))"
    "g_thresholdDebug (fst (update_threshold_debug v g)) = g_thresholdDebug g"
    "g_thresholdDebug g \<Longrightarrow> drawn (fst (update_threshold_debug v g))"
    "\<not> g_thresholdDebug g \<Longrightarrow> g_lines (fst (update_threshold_debug v g)) = g_lines g \<and>
       g_data (fst (update_threshold_debug v g)) = g_data g"
  using assms debug_rows_end [of v "g_scroll g" "threshold (updateThreshold v (g_scroll g))"]
  by (auto simp: update_threshold_debug_def drawDebugLine_def Let_def drawn_def)

lemma drawn_short: "drawn g \<Longrightarrow> g_body g \<and> length (g_lines g) \<le> 1"
  by (auto simp: drawn_def split: if_splits)

lemma debug_handle_drawn:
  assumes "drawn g"
  shows "drawn (fst (debug_handle e g)) \<and> g_scroll (fst (debug_handle e g)) = updateThreshold (event_view e) (g_scroll g)"
proof (cases e)
  case (Scrolled v)
  then show ?thesis
    using assms drawn_short [OF assms] debug_step [of g v] by (cases "g_thresholdDebug g") (auto simp: drawn_def)
next
  case (Enabled v)
  let ?g = "g\<lparr>g_thresholdDebug := True\<rparr>" and ?h = "fst (update_threshold_debug v (g\<lparr>g_thresholdDebug := True\<rparr>))"
  have g: "g_body ?g" "length (g_lines ?g) \<le> 1" using drawn_short [OF assms] by simp_all
  have "mdbookEnableThresholdDebug v g = js_ok (drawDebugLine ?h)"
    unfolding mdbookEnableThresholdDebug_def by (subst debug_step(1) [OF g]) simp
  moreover have "drawn ?h" "g_scroll ?h = updateThreshold v (g_scroll g)" "g_thresholdDebug ?h"
    using debug_step [OF g, of v] by auto
  ultimately show ?thesis using Enabled by (auto simp: drawn_def drawDebugLine_def)
qed

interpretation debug_script: page_script debug_handle drawn
  by unfold_locales (simp add: debug_handle_drawn)

text \<open>
  Debugging leaves the sidebar alone: whatever is scrolled and whenever debugging is switched on, the threshold is the one that the
  same updates give without it, and once it is on there is exactly one line, at the threshold.
\<close>

theorem threshold_debug_transparent:
  "g_scroll (run_events debug_handle es (no_debug s)) = fold updateThreshold (map event_view es) s \<and>
   drawn (run_events debug_handle es (no_debug s))"
proof -
  have start: "drawn (no_debug s)" by (simp add: drawn_def no_debug_def)
  have "drawn g \<Longrightarrow> g_scroll (run_events debug_handle es g) = fold updateThreshold (map event_view es) (g_scroll g)" for g
    by (induction es arbitrary: g) (simp_all add: debug_handle_drawn)
  from this [OF start] debug_script.run_keeps [OF start, of es] show ?thesis by (simp add: no_debug_def)
qed

end
