(* ===== verification/Attached.thy ===== *)
theory Attached
  imports Session "HOL-Library.Sublist"
begin

text \<open>
  The attached session of the client, \<open>run_attached_session\<close> of \<open>src/src/client.rs\<close>. One turn of its loop is a
  function of the loop variables and of what the turn meets: the clock, the outcome of the writes,
  the window size, and what arrives on the channel that the reader threads fill. Times are
  nanoseconds. The lemmas show that a silent broker ends the session in bounded time, that bytes are
  passed on in order, and that only the expected session is confirmed.
\<close>

section \<open>Errors\<close>

datatype ClientRunError =
    SpawnSsh io_error
  | MissingChildStdin
  | MissingChildStdout
  | UnexpectedBootstrapEof
  | ReadBootstrap io_error
  | WriteBootstrap io_error
  | Prompt io_error
  | InstallDeclined
  | RemoteBootstrap string
  | UnexpectedBrokerEof
  | KeepaliveTimeout
  | UnexpectedBrokerMessage u8
  | BrokerError string
  | SessionBusy string
  | SessionMismatch string string \<comment> \<open>expected, actual\<close>
  | NoSharedCapabilities
  | ConnectionLostBeforeSessionKnown ClientRunError
  | ReconnectFailed string ClientRunError
  | ReconnectDetachFailed
  | CProtocol protocol_error
  | InvalidSession SessionIdError
  | InvalidSessionSelection string
  | NoSessionsForDetachConnect
  | MissingSessionForDetach
  | WaitSsh io_error
  | CopyStdin io_error
  | CopyStdout io_error
  | CTerminal io_error
  | CWindowSize io_error
  | MissingExitStatus

definition exit_code_from_status :: "ExitStatus \<Rightarrow> (u8, ClientRunError) result" where
  "exit_code_from_status status =
     (case es_code status of
        Some code \<Rightarrow> Ok (if 0 \<le> code \<and> code \<le> 255 then word_of_int code else 1)
      | None \<Rightarrow> if es_signal status \<noteq> None then Ok 1 else Err MissingExitStatus)"

text \<open>\<open>status\<close>: \<open>None\<close> for a signal, otherwise the exit code of \<open>ssh\<close>; 0 is success.\<close>

definition exit_code_with_ssh_status :: "u8 \<Rightarrow> int option \<Rightarrow> u8" where
  "exit_code_with_ssh_status code status =
     (if status = Some 0 then code
      else (case status of
              Some c \<Rightarrow> if 0 \<le> c \<and> c \<le> 255 then word_of_int c else 1
            | None \<Rightarrow> 1))"

section \<open>The loop\<close>

definition nanos :: "nat \<Rightarrow> nat" where
  "nanos seconds = seconds * 1000000000"

definition KEEPALIVE_INTERVAL :: nat where
  "KEEPALIVE_INTERVAL = nanos 15"

definition KEEPALIVE_TIMEOUT :: nat where
  "KEEPALIVE_TIMEOUT = nanos 45"

datatype AttachedEvent =
    StdinBytes "u8 list"
  | StdinEof
  | StdinError io_error
  | BrokerFrame u64 "(Frame option, protocol_error) result"

datatype received = Received AttachedEvent | TimedOut | Disconnected

record turn =
  tu_now :: nat
  tu_write :: "(unit, protocol_error) result" \<comment> \<open>writing and flushing a frame in this turn\<close>
  tu_resize :: bool \<comment> \<open>\<open>resize_pending\<close>\<close>
  tu_size :: "(WindowSize option, io_error) result" \<comment> \<open>\<open>current_window_size\<close>\<close>
  tu_received :: received
  tu_stdout :: "(unit, io_error) result"
  tu_later :: nat \<comment> \<open>the clock when a pong is handled\<close>

record attached =
  at_confirmed :: "string option"
  at_window :: "WindowSize option"
  at_stdin_open :: bool
  at_next :: nat \<comment> \<open>\<open>next_keepalive\<close>\<close>
  at_pending :: "(u64 \<times> nat) option" \<comment> \<open>\<open>pending_keepalive\<close>: nonce and deadline\<close>
  at_nonce :: u64
  at_sent :: "(msg_type \<times> body) list" \<comment> \<open>what was written to the broker\<close>
  at_stdout :: "u8 list"

text \<open>A session that ended: the exit code, or the confirmed session and the error.\<close>

type_synonym ended = "(u8, string option \<times> ClientRunError) result"

datatype progress = Going attached | Ended attached ended

definition going_on :: "progress \<Rightarrow> (attached \<Rightarrow> progress) \<Rightarrow> progress" where
  "going_on p f = (case p of Going s \<Rightarrow> f s | Ended s r \<Rightarrow> Ended s r)"

definition session_fails :: "attached \<Rightarrow> ClientRunError \<Rightarrow> progress" where
  "session_fails s e = Ended s (Err (at_confirmed s, e))"

definition send_frame :: "turn \<Rightarrow> msg_type \<Rightarrow> body \<Rightarrow> attached \<Rightarrow> progress" where
  "send_frame t ty b s =
     (case tu_write t of
        Err e \<Rightarrow> session_fails s (CProtocol e)
      | Ok _ \<Rightarrow> Going (s\<lparr>at_sent := at_sent s @ [(ty, b)]\<rparr>))"

definition send_window_size_if_changed :: "turn \<Rightarrow> attached \<Rightarrow> progress" where
  "send_window_size_if_changed t s =
     (case tu_size t of
        Err e \<Rightarrow> session_fails s (CWindowSize e)
      | Ok None \<Rightarrow> Going s
      | Ok (Some window_size) \<Rightarrow>
          if at_window s = Some window_size then Going s
          else going_on (send_frame t WINDOW_SIZE (BWindowSize window_size) s) (\<lambda>s. Going (s\<lparr>at_window := Some window_size\<rparr>)))"

definition keepalive_turn :: "bool \<Rightarrow> turn \<Rightarrow> attached \<Rightarrow> progress" where
  "keepalive_turn enabled t s =
     (if (case at_pending s of None \<Rightarrow> False | Some (_, deadline) \<Rightarrow> tu_now t \<ge> deadline)
      then session_fails s KeepaliveTimeout
      else if enabled \<and> at_pending s = None \<and> tu_now t \<ge> at_next s then
        (let s = s\<lparr>at_nonce := at_nonce s + 1\<rparr> in
         going_on (send_frame t PING (BKeepalive (at_nonce s)) s)
           (\<lambda>s. Going (s\<lparr>at_pending := Some (at_nonce s, tu_now t + KEEPALIVE_TIMEOUT)\<rparr>)))
      else Going s)"

text \<open>The frames of the broker, by type.\<close>

definition frame_attached :: "codec \<Rightarrow> string option \<Rightarrow> Frame \<Rightarrow> attached \<Rightarrow> progress" where
  "frame_attached c expected f s =
     (case decode_AttachedSession c f of
        Err e \<Rightarrow> session_fails s (CProtocol e)
      | Ok actual \<Rightarrow>
          (case expected of
             Some x \<Rightarrow> if x \<noteq> actual then session_fails s (SessionMismatch x actual)
                       else Going (s\<lparr>at_confirmed := Some actual\<rparr>)
           | None \<Rightarrow> Going (s\<lparr>at_confirmed := Some actual\<rparr>)))"

definition frame_pty_data :: "codec \<Rightarrow> turn \<Rightarrow> Frame \<Rightarrow> attached \<Rightarrow> progress" where
  "frame_pty_data c t f s =
     (case decode_PtyData c f of
        Err e \<Rightarrow> session_fails s (CProtocol e)
      | Ok bs \<Rightarrow>
          (case tu_stdout t of
             Err e \<Rightarrow> session_fails s (CopyStdout e)
           | Ok _ \<Rightarrow> Going (s\<lparr>at_stdout := at_stdout s @ bs\<rparr>)))"

definition frame_pong :: "codec \<Rightarrow> turn \<Rightarrow> Frame \<Rightarrow> attached \<Rightarrow> progress" where
  "frame_pong c t f s =
     (case decode_Keepalive c f of
        Err e \<Rightarrow> session_fails s (CProtocol e)
      | Ok nonce \<Rightarrow>
          if (case at_pending s of None \<Rightarrow> False | Some (n, _) \<Rightarrow> n = nonce)
          then Going (s\<lparr>at_pending := None, at_next := tu_later t + KEEPALIVE_INTERVAL\<rparr>)
          else Going s)"

definition frame_exit_status :: "codec \<Rightarrow> Frame \<Rightarrow> attached \<Rightarrow> progress" where
  "frame_exit_status c f s =
     (case decode_ExitStatus c f of
        Err e \<Rightarrow> session_fails s (CProtocol e)
      | Ok status \<Rightarrow>
          (case exit_code_from_status status of
             Err e \<Rightarrow> session_fails s e
           | Ok code \<Rightarrow> Ended s (Ok code)))"

definition frame_busy :: "codec \<Rightarrow> Frame \<Rightarrow> attached \<Rightarrow> progress" where
  "frame_busy c f s =
     (case decode_SessionBusy c f of
        Err e \<Rightarrow> session_fails s (CProtocol e)
      | Ok busy \<Rightarrow> session_fails s (SessionBusy busy))"

definition frame_error :: "codec \<Rightarrow> Frame \<Rightarrow> attached \<Rightarrow> progress" where
  "frame_error c f s =
     (case decode_ErrorMessage c f of
        Err e \<Rightarrow> session_fails s (CProtocol e)
      | Ok message \<Rightarrow> session_fails s (BrokerError message))"

definition handle_frame :: "codec \<Rightarrow> string option \<Rightarrow> turn \<Rightarrow> Frame \<Rightarrow> attached \<Rightarrow> progress" where
  "handle_frame c expected t f s =
     (if frame_msg_type f = ATTACHED_SESSION then frame_attached c expected f s
      else if frame_msg_type f = PTY_DATA then frame_pty_data c t f s
      else if frame_msg_type f = PONG then frame_pong c t f s
      else if frame_msg_type f = CLIENT_SHOULD_EXIT then Ended s (Ok 0)
      else if frame_msg_type f = EXIT_STATUS then frame_exit_status c f s
      else if frame_msg_type f = SESSION_BUSY then frame_busy c f s
      else if frame_msg_type f = ERROR then frame_error c f s
      else if msg_name (frame_msg_type f) = None then Going s
      else session_fails s (UnexpectedBrokerMessage (frame_msg_type f)))"

definition handle_event :: "codec \<Rightarrow> string option \<Rightarrow> u64 \<Rightarrow> turn \<Rightarrow> AttachedEvent \<Rightarrow> attached \<Rightarrow> progress" where
  "handle_event c expected attempt_id t ev s =
     (case ev of
        StdinBytes bs \<Rightarrow> if at_stdin_open s then send_frame t PTY_DATA (BPtyData bs) s else Going s
      | StdinEof \<Rightarrow> Going (s\<lparr>at_stdin_open := False\<rparr>)
      | StdinError e \<Rightarrow> session_fails s (CopyStdin e)
      | BrokerFrame event_attempt_id r \<Rightarrow>
          if event_attempt_id = attempt_id then
            (case r of
               Err e \<Rightarrow> session_fails s (CProtocol e)
             | Ok None \<Rightarrow> session_fails s UnexpectedBrokerEof
             | Ok (Some f) \<Rightarrow> handle_frame c expected t f s)
          else Going s)"

definition attached_turn :: "codec \<Rightarrow> string option \<Rightarrow> u64 \<Rightarrow> bool \<Rightarrow> turn \<Rightarrow> attached \<Rightarrow> progress" where
  "attached_turn c expected attempt_id enabled t s =
     going_on (keepalive_turn enabled t s)
       (\<lambda>s. going_on (if tu_resize t then send_window_size_if_changed t s else Going s)
          (\<lambda>s. case tu_received t of
                  TimedOut \<Rightarrow> Going s
                | Disconnected \<Rightarrow> session_fails s UnexpectedBrokerEof
                | Received ev \<Rightarrow> handle_event c expected attempt_id t ev s))"

text \<open>The turns that happen: after the last of them the session goes on, or it has ended.\<close>

fun attached_loop :: "codec \<Rightarrow> string option \<Rightarrow> u64 \<Rightarrow> bool \<Rightarrow> turn list \<Rightarrow> attached \<Rightarrow> progress" where
  "attached_loop c expected attempt_id enabled [] s = Going s"
| "attached_loop c expected attempt_id enabled (t # ts) s =
     going_on (attached_turn c expected attempt_id enabled t s) (attached_loop c expected attempt_id enabled ts)"

definition start_attached :: "nat \<Rightarrow> attached" where
  "start_attached now =
     \<lparr>at_confirmed = None, at_window = None, at_stdin_open = True, at_next = now + KEEPALIVE_INTERVAL,
      at_pending = None, at_nonce = 0, at_sent = [], at_stdout = []\<rparr>"

text \<open>\<open>t0\<close> is what the code before the loop meets.\<close>

definition run_attached_session ::
  "codec \<Rightarrow> string option \<Rightarrow> u64 \<Rightarrow> bool \<Rightarrow> turn \<Rightarrow> turn list \<Rightarrow> progress" where
  "run_attached_session c initial_session_id attempt_id enabled t0 ts =
     going_on (send_window_size_if_changed t0 (start_attached (tu_now t0)))
       (attached_loop c initial_session_id attempt_id enabled ts)"

section \<open>Lemmas\<close>

lemma going_on_simps [simp]:
  "going_on (Going s) f = f s" "going_on (Ended s r) f = Ended s r"
  by (simp_all add: going_on_def)

lemma going_on_assoc: "going_on (going_on p f) g = going_on p (\<lambda>s. going_on (f s) g)"
  by (cases p) simp_all

lemma attached_loop_append:
  "attached_loop c x i en (ts @ us) s = going_on (attached_loop c x i en ts s) (attached_loop c x i en us)"
proof (induction ts arbitrary: s)
  case (Cons t ts)
  then show ?case by (cases "attached_turn c x i en t s") simp_all
qed simp

text \<open>A predicate on the state kept by the parts of a turn is kept by the turn, ended or not.\<close>

definition progress_state :: "progress \<Rightarrow> attached" where
  "progress_state p = (case p of Going s \<Rightarrow> s | Ended s _ \<Rightarrow> s)"

lemma progress_state_simps [simp]:
  "progress_state (Going s) = s" "progress_state (Ended s r) = s"
  "progress_state (session_fails s e) = s"
  by (simp_all add: progress_state_def session_fails_def)

lemma going_on_keeps:
  "P (progress_state p) \<Longrightarrow> (\<And>s. P s \<Longrightarrow> P (progress_state (f s))) \<Longrightarrow> P (progress_state (going_on p f))"
  by (cases p) simp_all

text \<open>What a turn may do to the confirmed session.\<close>

definition confirms :: "string option \<Rightarrow> attached \<Rightarrow> bool" where
  "confirms expected s \<longleftrightarrow>
     (\<forall>x y. expected = Some x \<longrightarrow> at_confirmed s = Some y \<longrightarrow> x = y)"

lemma confirms_parts:
  "confirms x s \<Longrightarrow> confirms x (progress_state (send_frame t ty b s))"
  "confirms x s \<Longrightarrow> confirms x (progress_state (send_window_size_if_changed t s))"
  "confirms x s \<Longrightarrow> confirms x (progress_state (keepalive_turn en t s))"
  by (auto simp: confirms_def send_frame_def send_window_size_if_changed_def keepalive_turn_def going_on_def
      session_fails_def Let_def split: result.splits option.splits)

lemma confirms_frame: "confirms x s \<Longrightarrow> confirms x (progress_state (handle_frame c x t f s))"
proof -
  assume s: "confirms x s"
  have "confirms x (progress_state (frame_attached c x f s))"
    using s by (auto simp: confirms_def frame_attached_def split: result.split option.split)
  moreover have "confirms x (progress_state (frame_pty_data c t f s))"
    using s by (auto simp: confirms_def frame_pty_data_def split: result.split)
  moreover have "confirms x (progress_state (frame_pong c t f s))"
    using s by (auto simp: confirms_def frame_pong_def split: result.split)
  moreover have "confirms x (progress_state (frame_exit_status c f s))"
    using s by (auto simp: frame_exit_status_def split: result.split)
  moreover have "confirms x (progress_state (frame_busy c f s))"
    using s by (auto simp: frame_busy_def split: result.split)
  moreover have "confirms x (progress_state (frame_error c f s))"
    using s by (auto simp: frame_error_def split: result.split)
  ultimately show ?thesis using s by (simp add: handle_frame_def)
qed

lemma confirms_event: "confirms x s \<Longrightarrow> confirms x (progress_state (handle_event c x i t ev s))"
  by (auto simp: handle_event_def confirms_frame confirms_parts split: AttachedEvent.split result.split option.split)
     (simp add: confirms_def)

lemma confirms_turn: "confirms x s \<Longrightarrow> confirms x (progress_state (attached_turn c x i en t s))"
  unfolding attached_turn_def
  by (intro going_on_keeps [of "confirms x"] confirms_parts)
     (auto simp: confirms_event confirms_parts split: received.split)

lemma confirms_loop: "confirms x s \<Longrightarrow> confirms x (progress_state (attached_loop c x i en ts s))"
proof (induction ts arbitrary: s)
  case (Cons t ts)
  show ?case
    unfolding attached_loop.simps using Cons
    by (intro going_on_keeps [of "confirms x"] confirms_turn) simp_all
qed simp

text \<open>The error of a session that failed comes with the confirmed session.\<close>

definition ended_ok :: "progress \<Rightarrow> bool" where
  "ended_ok p \<longleftrightarrow> (\<forall>s cs e. p = Ended s (Err (cs, e)) \<longrightarrow> cs = at_confirmed s)"

lemma ended_ok_simps [simp]:
  "ended_ok (Going s)" "ended_ok (session_fails s e)" "ended_ok (Ended s (Ok k))"
  by (simp_all add: ended_ok_def session_fails_def)

lemma ended_ok_going_on: "ended_ok p \<Longrightarrow> (\<And>s. ended_ok (f s)) \<Longrightarrow> ended_ok (going_on p f)"
  by (cases p) simp_all

lemma ended_ok_parts:
  "ended_ok (send_frame t ty b s)"
  "ended_ok (send_window_size_if_changed t s)"
  "ended_ok (keepalive_turn en t s)"
  "ended_ok (handle_frame c x t f s)"
proof -
  show send: "ended_ok (send_frame t ty b s)" for ty b s by (simp add: send_frame_def split: result.split)
  show "ended_ok (send_window_size_if_changed t s)"
    using send by (auto simp: send_window_size_if_changed_def intro!: ended_ok_going_on split: result.split option.split)
  show "ended_ok (keepalive_turn en t s)"
    using send by (auto simp: keepalive_turn_def Let_def intro!: ended_ok_going_on)
  have "ended_ok (frame_attached c x f s)" by (simp add: frame_attached_def split: result.split option.split)
  moreover have "ended_ok (frame_pty_data c t f s)" by (simp add: frame_pty_data_def split: result.split)
  moreover have "ended_ok (frame_pong c t f s)" by (simp add: frame_pong_def split: result.split)
  moreover have "ended_ok (frame_exit_status c f s)" by (simp add: frame_exit_status_def split: result.split)
  moreover have "ended_ok (frame_busy c f s)" by (simp add: frame_busy_def split: result.split)
  moreover have "ended_ok (frame_error c f s)" by (simp add: frame_error_def split: result.split)
  ultimately show "ended_ok (handle_frame c x t f s)" by (simp add: handle_frame_def)
qed

lemma ended_ok_event: "ended_ok (handle_event c x i t ev s)"
  by (auto simp: handle_event_def ended_ok_parts split: AttachedEvent.split result.split option.split)

lemma ended_ok_turn: "ended_ok (attached_turn c x i en t s)"
  unfolding attached_turn_def
  by (intro ended_ok_going_on ended_ok_parts) (auto simp: ended_ok_parts ended_ok_event split: received.split)

lemma ended_ok_loop: "ended_ok (attached_loop c x i en ts s)"
  by (induction ts arbitrary: s) (simp_all add: ended_ok_going_on ended_ok_turn)

subsection \<open>The keepalive\<close>

definition silent :: "u64 \<Rightarrow> turn \<Rightarrow> bool" where
  "silent i t \<longleftrightarrow>
     (case tu_received t of
        Received (BrokerFrame j (Ok (Some f))) \<Rightarrow> j = i \<longrightarrow> frame_msg_type f \<noteq> PONG
      | _ \<Rightarrow> True)"

definition same_timer :: "attached \<Rightarrow> attached \<Rightarrow> bool" where
  "same_timer s s' \<longleftrightarrow> at_pending s' = at_pending s \<and> at_next s' = at_next s"

lemma timer_send: "send_frame t ty b s = Going s' \<Longrightarrow> same_timer s s'"
  by (auto simp: send_frame_def same_timer_def session_fails_def split: result.splits)

lemma timer_window: "send_window_size_if_changed t s = Going s' \<Longrightarrow> same_timer s s'"
  by (auto simp: send_window_size_if_changed_def send_frame_def going_on_def same_timer_def session_fails_def
      split: result.splits option.splits if_splits)

lemma timer_frame:
  assumes "frame_msg_type f \<noteq> PONG" "handle_frame c x t f s = Going s'"
  shows "same_timer s s'"
proof -
  have "frame_attached c x f s = Going s' \<Longrightarrow> same_timer s s'"
    by (auto simp: frame_attached_def same_timer_def session_fails_def split: result.splits option.splits if_splits)
  moreover have "frame_pty_data c t f s = Going s' \<Longrightarrow> same_timer s s'"
    by (auto simp: frame_pty_data_def same_timer_def session_fails_def split: result.splits)
  moreover have "frame_exit_status c f s \<noteq> Going s'" "frame_busy c f s \<noteq> Going s'" "frame_error c f s \<noteq> Going s'"
    by (simp_all add: frame_exit_status_def frame_busy_def frame_error_def session_fails_def split: result.split)
  moreover have "same_timer s s" by (simp add: same_timer_def)
  ultimately show ?thesis
    using assms unfolding handle_frame_def by (simp add: session_fails_def split: if_splits)
qed

lemma timer_event:
  assumes "silent i t" "tu_received t = Received ev" "handle_event c x i t ev s = Going s'"
  shows "same_timer s s'"
proof (cases ev)
  case (BrokerFrame j r)
  show ?thesis
  proof (cases "j = i \<and> (\<exists>f. r = Ok (Some f))")
    case True
    then obtain f where "j = i" "r = Ok (Some f)" by blast
    then show ?thesis
      using assms BrokerFrame timer_frame [of f c x t s s'] by (simp add: silent_def handle_event_def)
  next
    case False
    then show ?thesis
      using assms BrokerFrame
      by (auto simp: handle_event_def session_fails_def same_timer_def split: result.splits option.splits if_splits)
  qed
qed (use assms in \<open>auto simp: handle_event_def session_fails_def same_timer_def dest: timer_send split: if_splits\<close>)

lemma going_on_Going: "going_on p f = Going s' \<Longrightarrow> \<exists>s. p = Going s \<and> f s = Going s'"
  by (cases p) simp_all

lemma timer_turn:
  assumes "silent i t" "attached_turn c x i en t s = Going s'"
  shows "\<exists>s1. keepalive_turn en t s = Going s1 \<and> same_timer s1 s'"
proof -
  obtain s1 where s1: "keepalive_turn en t s = Going s1"
      "going_on (if tu_resize t then send_window_size_if_changed t s1 else Going s1)
         (\<lambda>s. case tu_received t of
                  TimedOut \<Rightarrow> Going s
                | Disconnected \<Rightarrow> session_fails s UnexpectedBrokerEof
                | Received ev \<Rightarrow> handle_event c x i t ev s) = Going s'"
    using going_on_Going assms(2) unfolding attached_turn_def by blast
  obtain s2 where s2: "(if tu_resize t then send_window_size_if_changed t s1 else Going s1) = Going s2"
      "(case tu_received t of
                  TimedOut \<Rightarrow> Going s2
                | Disconnected \<Rightarrow> session_fails s2 UnexpectedBrokerEof
                | Received ev \<Rightarrow> handle_event c x i t ev s2) = Going s'"
    using going_on_Going [OF s1(2)] by blast
  have "same_timer s1 s2" using s2(1) timer_window by (auto simp: same_timer_def split: if_splits)
  moreover have "same_timer s2 s'"
    using s2(2) timer_event [OF assms(1)]
    by (cases "tu_received t") (auto simp: session_fails_def same_timer_def)
  ultimately show ?thesis using s1(1) by (auto simp: same_timer_def)
qed

text \<open>A turn without a pong: an expired deadline ends it, a pending one stays, and a due ping sets one.\<close>

lemma silent_turn:
  assumes "silent i t" "attached_turn c x i en t s = Going s'"
  shows "at_pending s = Some (n, d) \<Longrightarrow> tu_now t < d \<and> at_pending s' = Some (n, d)"
    and "at_pending s = None \<Longrightarrow> at_next s' = at_next s \<and>
           (if en \<and> at_next s \<le> tu_now t then \<exists>n. at_pending s' = Some (n, tu_now t + KEEPALIVE_TIMEOUT)
            else at_pending s' = None)"
proof -
  obtain s1 where s1: "keepalive_turn en t s = Going s1" "same_timer s1 s'"
    using timer_turn [OF assms] by blast
  show "at_pending s = Some (n, d) \<Longrightarrow> tu_now t < d \<and> at_pending s' = Some (n, d)"
    using s1 by (auto simp: keepalive_turn_def session_fails_def same_timer_def split: if_splits)
  show "at_pending s = None \<Longrightarrow> at_next s' = at_next s \<and>
           (if en \<and> at_next s \<le> tu_now t then \<exists>n. at_pending s' = Some (n, tu_now t + KEEPALIVE_TIMEOUT)
            else at_pending s' = None)"
    using s1
    by (auto simp: keepalive_turn_def session_fails_def same_timer_def Let_def send_frame_def
        split: if_splits result.splits)
qed

definition deadline_by :: "nat \<Rightarrow> attached \<Rightarrow> bool" where
  "deadline_by B s \<longleftrightarrow> (case at_pending s of None \<Rightarrow> at_next s + KEEPALIVE_TIMEOUT \<le> B | Some (_, d) \<Rightarrow> d \<le> B)"

lemma deadline_turn:
  assumes "silent i t" "attached_turn c x i True t s = Going s'" "deadline_by B s"
    and "tu_now t + KEEPALIVE_TIMEOUT \<le> B"
  shows "deadline_by B s'" and "at_next s \<le> tu_now t \<Longrightarrow> at_pending s' \<noteq> None"
    and "at_pending s = None \<Longrightarrow> at_next s' = at_next s"
  using silent_turn [OF assms(1,2)] assms(3,4)
  by (auto simp: deadline_by_def split: option.splits if_splits)

lemma deadline_loop:
  assumes "list_all (silent i) ts" "attached_loop c x i True ts s = Going s'" "deadline_by B s"
    and "list_all (\<lambda>t. tu_now t + KEEPALIVE_TIMEOUT \<le> B) ts" "at_pending s = None \<longrightarrow> at_next s \<le> N"
  shows "deadline_by B s' \<and> (at_pending s' = None \<longrightarrow> at_next s' \<le> N)"
  using assms
proof (induction ts arbitrary: s)
  case (Cons t ts)
  obtain s1 where s1: "attached_turn c x i True t s = Going s1" "attached_loop c x i True ts s1 = Going s'"
    using going_on_Going [OF Cons.prems(2) [unfolded attached_loop.simps]] by blast
  have t: "silent i t" "tu_now t + KEEPALIVE_TIMEOUT \<le> B" using Cons.prems(1,4) by simp_all
  have "at_pending s1 = None \<longrightarrow> at_next s1 \<le> N"
  proof (cases "at_pending s")
    case None
    then show ?thesis using deadline_turn(3) [OF t(1) s1(1) Cons.prems(3) t(2)] Cons.prems(5) by simp
  next
    case (Some p)
    then show ?thesis using silent_turn(1) [OF t(1) s1(1)] by (cases p) simp
  qed
  then show ?case
    using Cons.IH [OF _ s1(2)] deadline_turn(1) [OF t(1) s1(1) Cons.prems(3) t(2)] Cons.prems by simp
qed simp

lemma pending_loop:
  assumes "list_all (silent i) ts" "attached_loop c x i en ts s = Going s'" "at_pending s = Some (n, d)"
  shows "at_pending s' = Some (n, d)"
  using assms
proof (induction ts arbitrary: s)
  case (Cons t ts)
  obtain s1 where "attached_turn c x i en t s = Going s1" "attached_loop c x i en ts s1 = Going s'"
    using going_on_Going [OF Cons.prems(2) [unfolded attached_loop.simps]] by blast
  then show ?case using Cons.IH [of s1] Cons.prems silent_turn(1) [of i t c x en s s1] by simp
qed simp

lemma silent_loop_ends:
  assumes "list_all (silent i) (ts @ t1 # us)" "at_pending s = None" "at_next s \<le> tu_now t1"
    and "list_all (\<lambda>t. tu_now t \<le> tu_now t1) ts" "tu_now t1 + KEEPALIVE_TIMEOUT \<le> tu_now t2"
  shows "\<exists>s' r. attached_loop c x i True (ts @ t1 # us @ t2 # vs) s = Ended s' r"
proof (rule ccontr)
  assume "\<not> ?thesis"
  then obtain s4 where "attached_loop c x i True (ts @ t1 # us @ t2 # vs) s = Going s4"
    by (cases "attached_loop c x i True (ts @ t1 # us @ t2 # vs) s") auto
  then obtain s1 s2 s3 s3' where g: "attached_loop c x i True ts s = Going s1"
      "attached_turn c x i True t1 s1 = Going s2" "attached_loop c x i True us s2 = Going s3"
      "attached_turn c x i True t2 s3 = Going s3'"
    unfolding attached_loop_append attached_loop.simps by (blast dest: going_on_Going)
  let ?B = "tu_now t1 + KEEPALIVE_TIMEOUT"
  have bounds: "list_all (\<lambda>t. tu_now t + KEEPALIVE_TIMEOUT \<le> ?B) ts"
    using assms(4) by (simp add: list_all_iff)
  have s1: "deadline_by ?B s1" "at_pending s1 = None \<longrightarrow> at_next s1 \<le> tu_now t1"
    using deadline_loop [OF _ g(1) _ bounds, of "tu_now t1"] assms(1-3) by (simp_all add: deadline_by_def)
  have t1: "silent i t1" using assms(1) by simp
  obtain n d where s2: "at_pending s2 = Some (n, d)" "d \<le> ?B"
  proof (cases "at_pending s1")
    case None
    then show ?thesis using silent_turn(2) [OF t1 g(2)] s1(2) that by auto
  next
    case (Some p)
    then show ?thesis using silent_turn(1) [OF t1 g(2)] s1(1) that by (cases p) (auto simp: deadline_by_def)
  qed
  have "at_pending s3 = Some (n, d)" using pending_loop [OF _ g(3) s2(1)] assms(1) by simp
  moreover have "d \<le> tu_now t2" using s2(2) assms(5) by simp
  ultimately show False using g(4) by (simp add: attached_turn_def keepalive_turn_def session_fails_def)
qed

text \<open>Turns in which nothing fails and the broker says nothing: only the keepalive can end them.\<close>

definition quiet :: "u64 \<Rightarrow> turn \<Rightarrow> bool" where
  "quiet i t \<longleftrightarrow>
     (\<exists>u. tu_write t = Ok u) \<and> (\<exists>w. tu_size t = Ok w) \<and>
     (case tu_received t of
        TimedOut \<Rightarrow> True
      | Disconnected \<Rightarrow> False
      | Received (StdinError e) \<Rightarrow> False
      | Received (BrokerFrame j r) \<Rightarrow> j \<noteq> i
      | Received _ \<Rightarrow> True)"

definition only_timeout :: "progress \<Rightarrow> bool" where
  "only_timeout p \<longleftrightarrow>
     (case p of
        Going s \<Rightarrow> at_confirmed s = None
      | Ended s r \<Rightarrow> r = Err (None, KeepaliveTimeout))"

lemma only_timeout_simps [simp]:
  "only_timeout (Going s) \<longleftrightarrow> at_confirmed s = None"
  "only_timeout (Ended s r) \<longleftrightarrow> r = Err (None, KeepaliveTimeout)"
  by (simp_all add: only_timeout_def)

lemma only_timeout_going_on:
  "only_timeout p \<Longrightarrow> (\<And>s. at_confirmed s = None \<Longrightarrow> only_timeout (f s)) \<Longrightarrow> only_timeout (going_on p f)"
  by (cases p) simp_all

lemma quiet_send: "quiet i t \<Longrightarrow> at_confirmed s = None \<Longrightarrow> only_timeout (send_frame t ty b s)"
  by (auto simp: quiet_def send_frame_def)

lemma quiet_window:
  assumes "quiet i t" "at_confirmed s = None"
  shows "only_timeout (send_window_size_if_changed t s)"
proof -
  obtain w where "tu_size t = Ok w" using assms(1) by (auto simp: quiet_def)
  then show ?thesis
    using assms quiet_send [OF assms(1)]
    by (auto simp: send_window_size_if_changed_def split: option.split intro!: only_timeout_going_on)
qed

lemma quiet_keepalive: "quiet i t \<Longrightarrow> at_confirmed s = None \<Longrightarrow> only_timeout (keepalive_turn en t s)"
  by (auto simp: keepalive_turn_def session_fails_def Let_def intro!: only_timeout_going_on quiet_send)

lemma quiet_event:
  assumes "quiet i t" "at_confirmed s = None"
  shows "only_timeout (case tu_received t of
                  TimedOut \<Rightarrow> Going s
                | Disconnected \<Rightarrow> session_fails s UnexpectedBrokerEof
                | Received ev \<Rightarrow> handle_event c x i t ev s)"
  using assms quiet_send [OF assms]
  by (auto simp: quiet_def handle_event_def split: received.splits AttachedEvent.splits)

lemma quiet_turn: "quiet i t \<Longrightarrow> at_confirmed s = None \<Longrightarrow> only_timeout (attached_turn c x i en t s)"
  unfolding attached_turn_def
  by (intro only_timeout_going_on quiet_keepalive quiet_event) (auto simp: quiet_window)

lemma quiet_loop:
  "list_all (quiet i) ts \<Longrightarrow> at_confirmed s = None \<Longrightarrow> only_timeout (attached_loop c x i en ts s)"
  by (induction ts arbitrary: s) (auto intro!: only_timeout_going_on quiet_turn)

subsection \<open>Input and output\<close>

definition pty_sent :: "(msg_type \<times> body) list \<Rightarrow> u8 list" where
  "pty_sent ms = concat (map (\<lambda>(ty, b). case b of BPtyData bs \<Rightarrow> bs | _ \<Rightarrow> []) ms)"

definition pty_output :: "codec \<Rightarrow> u64 \<Rightarrow> turn \<Rightarrow> u8 list" where
  "pty_output c i t =
     (case tu_received t of
        Received (BrokerFrame j (Ok (Some f))) \<Rightarrow>
          if j = i \<and> frame_msg_type f = PTY_DATA
          then (case decode_PtyData c f of Ok bs \<Rightarrow> bs | Err _ \<Rightarrow> []) else []
      | _ \<Rightarrow> [])"

fun stdin_input :: "turn list \<Rightarrow> u8 list" where
  "stdin_input [] = []"
| "stdin_input (t # ts) =
     (case tu_received t of
        Received (StdinBytes bs) \<Rightarrow> bs @ stdin_input ts
      | Received StdinEof \<Rightarrow> []
      | _ \<Rightarrow> stdin_input ts)"

lemma pty_sent_append [simp]: "pty_sent (xs @ ys) = pty_sent xs @ pty_sent ys"
  by (simp add: pty_sent_def)

lemma pty_sent_simps [simp]:
  "pty_sent [] = []" "pty_sent [(ty, BPtyData bs)] = bs" "pty_sent [(ty, BKeepalive n)] = []"
  "pty_sent [(ty, BWindowSize w)] = []"
  by (simp_all add: pty_sent_def)

definition same_io :: "attached \<Rightarrow> attached \<Rightarrow> bool" where
  "same_io s s' \<longleftrightarrow>
     at_stdout s' = at_stdout s \<and> pty_sent (at_sent s') = pty_sent (at_sent s) \<and> at_stdin_open s' = at_stdin_open s"

lemma same_io_refl [simp]: "same_io s s" by (simp add: same_io_def)

lemma same_io_trans: "same_io s s' \<Longrightarrow> same_io s' s'' \<Longrightarrow> same_io s s''" by (simp add: same_io_def)

lemma same_io_window: "same_io s (progress_state (send_window_size_if_changed t s))"
  by (simp add: send_window_size_if_changed_def send_frame_def same_io_def session_fails_def
      split: result.split option.split)

lemma same_io_keepalive: "same_io s (progress_state (keepalive_turn en t s))"
  by (simp add: keepalive_turn_def send_frame_def same_io_def session_fails_def Let_def split: result.split)

definition passes :: "codec \<Rightarrow> u64 \<Rightarrow> turn \<Rightarrow> attached \<Rightarrow> progress \<Rightarrow> bool" where
  "passes c i t s p \<longleftrightarrow>
     (case p of
        Ended s' r \<Rightarrow> at_stdout s' = at_stdout s \<and> pty_sent (at_sent s') = pty_sent (at_sent s)
      | Going s' \<Rightarrow>
          at_stdout s' = at_stdout s @ pty_output c i t \<and>
          pty_sent (at_sent s') = pty_sent (at_sent s) @ (if at_stdin_open s then stdin_input [t] else []) \<and>
          at_stdin_open s' = (at_stdin_open s \<and> tu_received t \<noteq> Received StdinEof))"

lemma passes_simps [simp]:
  "passes c i t s (session_fails s e)" "passes c i t s (Ended s r)"
  by (simp_all add: passes_def session_fails_def)

lemma passes_same:
  assumes "same_io s s'" "passes c i t s' p" shows "passes c i t s p"
  using assms by (cases p) (auto simp: passes_def same_io_def)

lemma passes_frame:
  assumes "tu_received t = Received (BrokerFrame i (Ok (Some f)))"
  shows "passes c i t s (handle_frame c x t f s)"
proof -
  have g: "passes c i t s (Going s')" if "same_io s s'" "frame_msg_type f \<noteq> PTY_DATA" for s'
    using that assms by (auto simp: passes_def same_io_def pty_output_def)
  have "frame_msg_type f \<noteq> PTY_DATA \<Longrightarrow> passes c i t s (frame_attached c x f s)"
    by (auto simp: frame_attached_def same_io_def intro!: g split: result.split option.split)
  moreover have "frame_msg_type f = PTY_DATA \<Longrightarrow> passes c i t s (frame_pty_data c t f s)"
    using assms by (auto simp: frame_pty_data_def pty_output_def passes_def session_fails_def split: result.split)
  moreover have "frame_msg_type f \<noteq> PTY_DATA \<Longrightarrow> passes c i t s (frame_pong c t f s)"
    by (auto simp: frame_pong_def same_io_def intro!: g split: result.split)
  moreover have "passes c i t s (frame_exit_status c f s)" "passes c i t s (frame_busy c f s)"
      "passes c i t s (frame_error c f s)"
    by (simp_all add: frame_exit_status_def frame_busy_def frame_error_def split: result.split)
  moreover have "ATTACHED_SESSION \<noteq> PTY_DATA" "PONG \<noteq> PTY_DATA" by (simp_all add: obi_consts)
  ultimately show ?thesis using g [of s] by (simp add: handle_frame_def)
qed

lemma passes_event:
  assumes "tu_received t = Received ev" shows "passes c i t s (handle_event c x i t ev s)"
proof (cases ev)
  case (BrokerFrame j r)
  show ?thesis
  proof (cases "j = i \<and> (\<exists>f. r = Ok (Some f))")
    case True
    then show ?thesis using BrokerFrame assms passes_frame by (auto simp: handle_event_def)
  next
    case False
    then show ?thesis
      using BrokerFrame assms
      by (auto simp: handle_event_def passes_def session_fails_def pty_output_def split: result.split option.split)
  qed
qed (use assms in \<open>auto simp: handle_event_def send_frame_def passes_def session_fails_def pty_output_def split: result.split\<close>)

lemma passes_turn: "passes c i t s (attached_turn c x i en t s)"
proof (cases "keepalive_turn en t s")
  case (Ended s1 r)
  then show ?thesis
    using same_io_keepalive [of s en t] by (auto simp: attached_turn_def passes_def same_io_def)
next
  case (Going s1)
  let ?w = "if tu_resize t then send_window_size_if_changed t s1 else Going s1"
  have k: "same_io s s1" using same_io_keepalive [of s en t] Going by simp
  have w: "same_io s (progress_state ?w)" using same_io_trans [OF k] same_io_window [of s1 t] by simp
  show ?thesis
  proof (cases ?w)
    case (Ended s2 r)
    then show ?thesis using Going w by (auto simp: attached_turn_def passes_def same_io_def)
  next
    case w2: (Going s2)
    have "passes c i t s2 (case tu_received t of
                  TimedOut \<Rightarrow> Going s2
                | Disconnected \<Rightarrow> session_fails s2 UnexpectedBrokerEof
                | Received ev \<Rightarrow> handle_event c x i t ev s2)"
      by (auto simp: passes_event passes_def [of c i t s2 "Going s2"] pty_output_def split: received.split)
    then show ?thesis using Going w w2 passes_same [of s s2] by (simp add: attached_turn_def)
  qed
qed

definition input_from :: "bool \<Rightarrow> turn list \<Rightarrow> u8 list" where
  "input_from op ts = (if op then stdin_input ts else [])"

definition passes_all :: "codec \<Rightarrow> u64 \<Rightarrow> turn list \<Rightarrow> attached \<Rightarrow> progress \<Rightarrow> bool" where
  "passes_all c i ts s p \<longleftrightarrow>
     (let out = at_stdout s @ concat (map (pty_output c i) ts);
          sent = pty_sent (at_sent s) @ input_from (at_stdin_open s) ts in
      case p of
        Going s' \<Rightarrow> at_stdout s' = out \<and> pty_sent (at_sent s') = sent
      | Ended s' r \<Rightarrow> prefix (at_stdout s') out \<and> prefix (pty_sent (at_sent s')) sent)"

lemma input_from_Cons:
  "input_from op (t # ts) = input_from op [t] @ input_from (op \<and> tu_received t \<noteq> Received StdinEof) ts"
  by (auto simp: input_from_def split: received.split AttachedEvent.split)

lemma passes_loop: "passes_all c i ts s (attached_loop c x i en ts s)"
proof (induction ts arbitrary: s)
  case Nil
  then show ?case by (simp add: passes_all_def input_from_def)
next
  case (Cons t ts)
  show ?case
  proof (cases "attached_turn c x i en t s")
    case (Ended s1 r)
    then show ?thesis using passes_turn [of c i t s x en] by (simp add: passes_all_def passes_def)
  next
    case (Going s1)
    have "at_stdout s1 = at_stdout s @ pty_output c i t"
      "pty_sent (at_sent s1) = pty_sent (at_sent s) @ input_from (at_stdin_open s) [t]"
      "at_stdin_open s1 = (at_stdin_open s \<and> tu_received t \<noteq> Received StdinEof)"
      using passes_turn [of c i t s x en] Going by (simp_all add: passes_def input_from_def)
    then have "passes_all c i (t # ts) s p = passes_all c i ts s1 p" for p
      by (simp add: passes_all_def input_from_Cons [of _ t ts])
    then show ?thesis using Cons.IH [of s1] Going by simp
  qed
qed

lemma run_confirms: "confirms x (progress_state (run_attached_session c x i en t0 ts))"
  unfolding run_attached_session_def
  by (intro going_on_keeps [of "confirms x"] confirms_parts confirms_loop)
     (simp add: confirms_def start_attached_def)

lemma run_ended_ok: "ended_ok (run_attached_session c x i en t0 ts)"
  unfolding run_attached_session_def by (intro ended_ok_going_on ended_ok_parts ended_ok_loop)

lemma confirmed_session_requested:
  assumes "run_attached_session c (Some x) i en t0 ts = Ended s (Err (confirmed, e))"
  shows "confirmed \<in> {None, Some x}"
proof (cases confirmed)
  case (Some y)
  then have "at_confirmed s = Some y" using run_ended_ok [of c "Some x" i en t0 ts] assms by (simp add: ended_ok_def)
  then show ?thesis using run_confirms [of "Some x" c i en t0 ts] assms Some by (simp add: confirms_def)
qed simp

section \<open>Properties\<close>

lemma start_window:
  "send_window_size_if_changed t (start_attached now) = Going s \<Longrightarrow> same_timer (start_attached now) s"
  by (rule timer_window)


definition idle_turn :: "nat \<Rightarrow> turn" where
  "idle_turn now = \<lparr>tu_now = now, tu_write = Ok (), tu_resize = False, tu_size = Ok None, tu_received = TimedOut,
     tu_stdout = Ok (), tu_later = now\<rparr>"


text \<open>
  C12. The attached session passes bytes on unchanged and in order. While it goes on, what was written
  to the standard output is the contents of the PTY data frames of this attempt, concatenated, and
  the PTY data sent to the broker is what was read from the standard input up to its end; what frames
  of an earlier attempt carry is never shown. When the session has ended, both are prefixes of these.
\<close>

theorem attached_io_faithful:
  "case run_attached_session c x i en t0 ts of
     Going s \<Rightarrow>
       at_stdout s = concat (map (pty_output c i) ts) \<and> pty_sent (at_sent s) = stdin_input ts
   | Ended s r \<Rightarrow>
       prefix (at_stdout s) (concat (map (pty_output c i) ts)) \<and> prefix (pty_sent (at_sent s)) (stdin_input ts)"
proof -
  let ?w = "send_window_size_if_changed t0 (start_attached (tu_now t0))"
  have "same_io (start_attached (tu_now t0)) (progress_state ?w)" by (rule same_io_window)
  then have w: "at_stdout (progress_state ?w) = []" "pty_sent (at_sent (progress_state ?w)) = []"
      "at_stdin_open (progress_state ?w)"
    by (simp_all add: same_io_def start_attached_def)
  show ?thesis
  proof (cases ?w)
    case (Going s)
    then show ?thesis
      using w passes_loop [of c i ts s x en]
      by (auto simp: run_attached_session_def passes_all_def input_from_def split: progress.splits)
  next
    case (Ended s r)
    then show ?thesis using w by (simp add: run_attached_session_def)
  qed
qed

text \<open>
  A client that asked for a session only ever attaches to that session: when the session it asked
  for is \<open>x\<close>, the session confirmed by the broker, at any moment and in the failure the caller reconnects
  with, is \<open>x\<close> or none.
\<close>

theorem attached_to_requested_session:
  "case run_attached_session c (Some x) i en t0 ts of
     Going s \<Rightarrow> at_confirmed s \<in> {None, Some x}
   | Ended s (Err (confirmed, e)) \<Rightarrow> confirmed = at_confirmed s \<and> confirmed \<in> {None, Some x}
   | Ended s (Ok code) \<Rightarrow> at_confirmed s \<in> {None, Some x}"
proof -
  let ?p = "run_attached_session c (Some x) i en t0 ts"
  have "at_confirmed (progress_state ?p) \<in> {None, Some x}"
    using run_confirms [of "Some x" c i en t0 ts]
    by (cases "at_confirmed (progress_state ?p)") (simp_all add: confirms_def)
  then show ?thesis
    using run_ended_ok [of c "Some x" i en t0 ts] by (auto simp: ended_ok_def split: progress.split result.split prod.split)
qed

end
