(* ===== verification/StdinThread.thy ===== *)
theory StdinThread
  imports Attached
begin

text \<open>
  The standard input of the client between attempts (\<open>AttachedIo\<close>, \<open>StdinControl\<close> and
  \<open>read_stdin_events\<close> of \<open>src/src/client.rs\<close>). A thread reads the terminal; before every reconnect the
  main thread pauses it, so that \<open>ssh\<close> can prompt, and afterwards resumes it. Both are threads with a
  program counter over one state; a section under the lock is one step, \<open>wait\<close> puts a thread to sleep until
  the next \<open>notify_all\<close> or until it wakes for no reason. The lemmas show the
  hand-over, that no wakeup is lost, that pausing returns, and what becomes of the bytes typed.
\<close>

section \<open>State\<close>

record StdinControlState =
  pause_requested :: bool
  pause_acknowledged :: bool
  reader_finished :: bool

text \<open>Where the reader thread is.\<close>

datatype reader_at =
    RTop \<comment> \<open>before \<open>wait_while_stdin_paused\<close>\<close>
  | RParked \<comment> \<open>in its \<open>wait\<close>\<close>
  | RPoll
  | RRead
  | RBatch "u8 list" \<comment> \<open>in \<open>append_pending_stdin_bytes\<close>\<close>
  | RExit \<comment> \<open>before \<open>StdinReaderFinished\<close> is dropped\<close>
  | RDone

text \<open>Where the main thread is; \<open>MIdle\<close>: outside of \<open>pause\<close> and \<open>resume\<close>.\<close>

datatype main_at =
    MIdle | MPause | MPauseWait | MPauseRaw | MPauseDiscard
  | MResumeDiscard | MResumeRaw | MResumeLock | MResumeWait

record AttachedIo =
  io_control :: StdinControlState
  io_reader :: reader_at
  io_reader_asleep :: bool
  io_main :: main_at
  io_main_asleep :: bool
  io_raw_mode :: bool \<comment> \<open>holds a guard\<close>
  io_input_paused :: bool
  io_queue :: "AttachedEvent list"
  io_resumed :: "(unit, ClientRunError) result" \<comment> \<open>what the last \<open>resume\<close> returned\<close>
  io_taken :: "u8 list" \<comment> \<open>all bytes read from the standard input\<close>
  io_sent :: "AttachedEvent list" \<comment> \<open>all events sent by the reader\<close>

text \<open>What the system calls of a step of the reader return.\<close>

record met =
  me_poll :: "(bool, io_error) result" \<comment> \<open>something to read, or the time is over\<close>
  me_pollin :: bool
  me_read :: "(u8 list, io_error) result"

definition notify_all :: "AttachedIo \<Rightarrow> AttachedIo" where
  "notify_all s = s\<lparr>io_reader_asleep := False, io_main_asleep := False\<rparr>"

abbreviation set_control :: "(StdinControlState \<Rightarrow> StdinControlState) \<Rightarrow> AttachedIo \<Rightarrow> AttachedIo" where
  "set_control f s \<equiv> s\<lparr>io_control := f (io_control s)\<rparr>"

section \<open>The reader thread\<close>

definition send_event :: "AttachedEvent \<Rightarrow> reader_at \<Rightarrow> AttachedIo \<Rightarrow> AttachedIo" where
  "send_event ev next s = s\<lparr>io_queue := io_queue s @ [ev], io_sent := io_sent s @ [ev], io_reader := next\<rparr>"

text \<open>\<open>wait_while_stdin_paused\<close>: the entry, and the loop around its \<open>wait\<close>.\<close>

definition wait_while_stdin_paused :: "AttachedIo \<Rightarrow> AttachedIo" where
  "wait_while_stdin_paused s =
     (if \<not> pause_requested (io_control s) then s\<lparr>io_reader := RPoll\<rparr>
      else (notify_all (set_control (pause_acknowledged_update (\<lambda>_. True)) s))\<lparr>io_reader := RParked, io_reader_asleep := True\<rparr>)"

definition parked_turn :: "AttachedIo \<Rightarrow> AttachedIo" where
  "parked_turn s =
     (if pause_requested (io_control s) then s\<lparr>io_reader_asleep := True\<rparr>
      else (notify_all (set_control (pause_acknowledged_update (\<lambda>_. False)) s))\<lparr>io_reader := RPoll\<rparr>)"

text \<open>\<open>wait_for_stdin_ready\<close>: one \<open>poll\<close>; it is repeated when a signal interrupts it.\<close>

definition wait_for_stdin_ready :: "met \<Rightarrow> AttachedIo \<Rightarrow> AttachedIo" where
  "wait_for_stdin_ready m s =
     (case me_poll m of
        Ok ready \<Rightarrow> s\<lparr>io_reader := if ready then RRead else RTop\<rparr>
      | Err e \<Rightarrow> if e = Interrupted then s else send_event (StdinError e) RExit s)"

definition read_stdin :: "met \<Rightarrow> AttachedIo \<Rightarrow> AttachedIo" where
  "read_stdin m s =
     (case me_read m of
        Ok bs \<Rightarrow>
          if bs = [] then send_event StdinEof RExit s
          else s\<lparr>io_taken := io_taken s @ bs, io_reader := RBatch bs\<rparr>
      | Err e \<Rightarrow> if e = Interrupted then s\<lparr>io_reader := RTop\<rparr> else send_event (StdinError e) RExit s)"

definition MAX_BATCH :: nat where
  "MAX_BATCH = 64 * 1024"

text \<open>One turn of the loop of \<open>append_pending_stdin_bytes\<close>; at its end the batch is sent.\<close>

definition append_pending_stdin_bytes :: "met \<Rightarrow> u8 list \<Rightarrow> AttachedIo \<Rightarrow> AttachedIo" where
  "append_pending_stdin_bytes m bytes s =
     (if MAX_BATCH \<le> length bytes then send_event (StdinBytes bytes) RTop s
      else
        (case me_poll m of
           Err e \<Rightarrow> if e = Interrupted then s else send_event (StdinError e) RExit s
         | Ok ready \<Rightarrow>
             if \<not> ready \<or> \<not> me_pollin m then send_event (StdinBytes bytes) RTop s
             else
               (case me_read m of
                  Ok bs \<Rightarrow>
                    if bs = [] then send_event (StdinBytes bytes) RTop s
                    else s\<lparr>io_taken := io_taken s @ bs, io_reader := RBatch (bytes @ bs)\<rparr>
                | Err e \<Rightarrow> if e = Interrupted then s else send_event (StdinError e) RExit s)))"

definition reader_finishes :: "AttachedIo \<Rightarrow> AttachedIo" where
  "reader_finishes s = (notify_all (set_control (reader_finished_update (\<lambda>_. True)) s))\<lparr>io_reader := RDone\<rparr>"

definition read_stdin_events :: "met \<Rightarrow> AttachedIo \<Rightarrow> AttachedIo" where
  "read_stdin_events m s =
     (case io_reader s of
        RTop \<Rightarrow> wait_while_stdin_paused s
      | RParked \<Rightarrow> parked_turn s
      | RPoll \<Rightarrow> wait_for_stdin_ready m s
      | RRead \<Rightarrow> read_stdin m s
      | RBatch bytes \<Rightarrow> append_pending_stdin_bytes m bytes s
      | RExit \<Rightarrow> reader_finishes s
      | RDone \<Rightarrow> s)"

section \<open>The main thread\<close>

definition pause :: "AttachedIo \<Rightarrow> AttachedIo" where
  "pause s = (if io_input_paused s then s else s\<lparr>io_main := MPause\<rparr>)"

definition resume :: "AttachedIo \<Rightarrow> AttachedIo" where
  "resume s = (if \<not> io_input_paused s then s\<lparr>io_resumed := Ok ()\<rparr> else s\<lparr>io_main := MResumeDiscard\<rparr>)"

text \<open>The loops around the two \<open>wait\<close> calls.\<close>

definition pause_wait :: "AttachedIo \<Rightarrow> AttachedIo" where
  "pause_wait s =
     (if \<not> pause_acknowledged (io_control s) \<and> \<not> reader_finished (io_control s)
      then s\<lparr>io_main := MPauseWait, io_main_asleep := True\<rparr>
      else s\<lparr>io_main := MPauseRaw\<rparr>)"

definition resume_wait :: "AttachedIo \<Rightarrow> AttachedIo" where
  "resume_wait s =
     (if pause_acknowledged (io_control s) \<and> \<not> reader_finished (io_control s)
      then s\<lparr>io_main := MResumeWait, io_main_asleep := True\<rparr>
      else s\<lparr>io_main := MIdle, io_input_paused := False, io_resumed := Ok ()\<rparr>)"

text \<open>One \<open>try_recv\<close> of \<open>discard_pending_events\<close>; \<open>None\<close>: the channel is empty.\<close>

definition discard_pending_event :: "AttachedIo \<Rightarrow> AttachedIo option" where
  "discard_pending_event s = (case io_queue s of [] \<Rightarrow> None | ev # evs \<Rightarrow> Some (s\<lparr>io_queue := evs\<rparr>))"

text \<open>A step of \<open>pause\<close> or \<open>resume\<close>; the argument is what \<open>enable_stdin_raw_mode\<close> returns, and whether with a guard.\<close>

definition main_turn :: "(bool, io_error) result \<Rightarrow> AttachedIo \<Rightarrow> AttachedIo" where
  "main_turn raw s =
     (case io_main s of
        MIdle \<Rightarrow> s
      | MPause \<Rightarrow> pause_wait (notify_all (set_control (pause_requested_update (\<lambda>_. True)) s))
      | MPauseWait \<Rightarrow> pause_wait s
      | MPauseRaw \<Rightarrow> s\<lparr>io_raw_mode := False, io_main := MPauseDiscard\<rparr>
      | MPauseDiscard \<Rightarrow>
          (case discard_pending_event s of
             Some s \<Rightarrow> s
           | None \<Rightarrow> s\<lparr>io_input_paused := True, io_main := MIdle\<rparr>)
      | MResumeDiscard \<Rightarrow>
          (case discard_pending_event s of Some s \<Rightarrow> s | None \<Rightarrow> s\<lparr>io_main := MResumeRaw\<rparr>)
      | MResumeRaw \<Rightarrow>
          (case raw of
             Err e \<Rightarrow> s\<lparr>io_main := MIdle, io_resumed := Err (CTerminal e)\<rparr>
           | Ok guard \<Rightarrow> s\<lparr>io_raw_mode := guard, io_main := MResumeLock\<rparr>)
      | MResumeLock \<Rightarrow> resume_wait (notify_all (set_control (pause_requested_update (\<lambda>_. False)) s))
      | MResumeWait \<Rightarrow> resume_wait s)"

section \<open>Both threads\<close>

text \<open>\<open>ensure_attached_io\<close>, the first time; the argument says whether the raw mode has a guard.\<close>

definition start_io :: "bool \<Rightarrow> AttachedIo" where
  "start_io raw =
     \<lparr>io_control = \<lparr>pause_requested = False, pause_acknowledged = False, reader_finished = False\<rparr>,
      io_reader = RTop, io_reader_asleep = False, io_main = MIdle, io_main_asleep = False, io_raw_mode = raw,
      io_input_paused = False, io_queue = [], io_resumed = Ok (), io_taken = [], io_sent = []\<rparr>"

text \<open>
  The steps: either thread, the calls of the main thread, an event that the attached session takes, a frame
  that a broker reader sends, and wakeups without a reason.
\<close>

inductive io_step :: "AttachedIo \<Rightarrow> AttachedIo \<Rightarrow> bool" where
  reader: "\<not> io_reader_asleep s \<Longrightarrow> io_step s (read_stdin_events m s)"
| main: "\<not> io_main_asleep s \<Longrightarrow> io_step s (main_turn raw s)"
| call_pause: "io_main s = MIdle \<Longrightarrow> io_step s (pause s)"
| call_resume: "io_main s = MIdle \<Longrightarrow> io_step s (resume s)"
| receive: "io_main s = MIdle \<Longrightarrow> \<not> io_input_paused s \<Longrightarrow> io_queue s = ev # evs \<Longrightarrow> io_step s (s\<lparr>io_queue := evs\<rparr>)"
| broker: "io_step s (s\<lparr>io_queue := io_queue s @ [BrokerFrame i r]\<rparr>)"
| reader_wakes: "io_step s (s\<lparr>io_reader_asleep := False\<rparr>)"
| main_wakes: "io_step s (s\<lparr>io_main_asleep := False\<rparr>)"

inductive io_reachable :: "AttachedIo \<Rightarrow> bool" where
  started: "io_reachable (start_io raw)"
| moved: "io_reachable s \<Longrightarrow> io_step s t \<Longrightarrow> io_reachable t"

section \<open>Invariant\<close>

primrec from_stdin :: "AttachedEvent \<Rightarrow> bool" where
  "from_stdin (StdinBytes bs) = True"
| "from_stdin StdinEof = True"
| "from_stdin (StdinError e) = True"
| "from_stdin (BrokerFrame i r) = False"

text \<open>The terminal belongs to others: the input is paused and no \<open>resume\<close> is under way.\<close>

definition released :: "AttachedIo \<Rightarrow> bool" where
  "released s \<longleftrightarrow> io_main s = MIdle \<and> io_input_paused s"

text \<open>The phases in which the pause is requested, the reader is known to rest, and the queue is known to be clean.\<close>

definition requesting :: "AttachedIo \<Rightarrow> bool" where
  "requesting s \<longleftrightarrow> released s \<or>
     io_main s \<in> {MPauseWait, MPauseRaw, MPauseDiscard, MResumeDiscard, MResumeRaw, MResumeLock}"

definition resting :: "AttachedIo \<Rightarrow> bool" where
  "resting s \<longleftrightarrow> released s \<or> io_main s \<in> {MPauseRaw, MPauseDiscard, MResumeDiscard, MResumeRaw, MResumeLock}"

definition clean :: "AttachedIo \<Rightarrow> bool" where
  "clean s \<longleftrightarrow> released s \<or> io_main s \<in> {MResumeDiscard, MResumeRaw, MResumeLock}"

definition cooked :: "AttachedIo \<Rightarrow> bool" where
  "cooked s \<longleftrightarrow> released s \<or> io_main s \<in> {MPauseDiscard, MResumeDiscard, MResumeRaw}"

lemmas phase_defs = released_def requesting_def resting_def clean_def cooked_def

definition control_inv :: "AttachedIo \<Rightarrow> bool" where
  "control_inv s \<longleftrightarrow>
     (reader_finished (io_control s) \<longleftrightarrow> io_reader s = RDone) \<and>
     (pause_acknowledged (io_control s) \<longleftrightarrow> io_reader s = RParked) \<and>
     (pause_requested (io_control s) \<longleftrightarrow> requesting s) \<and>
     (io_main s \<in> {MPause, MPauseWait, MPauseRaw, MPauseDiscard} \<longrightarrow> \<not> io_input_paused s) \<and>
     (io_main s \<in> {MResumeDiscard, MResumeRaw, MResumeLock, MResumeWait} \<longrightarrow> io_input_paused s) \<and>
     (resting s \<longrightarrow> io_reader s \<in> {RParked, RDone}) \<and>
     (cooked s \<longrightarrow> \<not> io_raw_mode s) \<and>
     (clean s \<longrightarrow> \<not> list_ex from_stdin (io_queue s))"

text \<open>A thread sleeps only while the condition that it waits for does not hold: no wakeup is lost.\<close>

definition sleep_inv :: "AttachedIo \<Rightarrow> bool" where
  "sleep_inv s \<longleftrightarrow>
     (io_reader_asleep s \<longrightarrow> io_reader s = RParked \<and> pause_requested (io_control s)) \<and>
     (io_main_asleep s \<longrightarrow> \<not> reader_finished (io_control s) \<and>
        (io_main s = MPauseWait \<and> \<not> pause_acknowledged (io_control s) \<or>
         io_main s = MResumeWait \<and> pause_acknowledged (io_control s)))"

lemmas reader_defs =
  wait_while_stdin_paused_def parked_turn_def wait_for_stdin_ready_def read_stdin_def append_pending_stdin_bytes_def
  reader_finishes_def notify_all_def send_event_def

lemmas main_defs =
  pause_def resume_def pause_wait_def resume_wait_def discard_pending_event_def notify_all_def

text \<open>What a step of the reader leaves alone.\<close>

lemma reader_keeps:
  "io_main (read_stdin_events m s) = io_main s"
  "io_input_paused (read_stdin_events m s) = io_input_paused s"
  "io_raw_mode (read_stdin_events m s) = io_raw_mode s"
  "pause_requested (io_control (read_stdin_events m s)) = pause_requested (io_control s)"
  unfolding read_stdin_events_def reader_defs by (auto split: reader_at.split result.split)

lemma reader_phases:
  "released (read_stdin_events m s) = released s" "requesting (read_stdin_events m s) = requesting s"
  "resting (read_stdin_events m s) = resting s" "clean (read_stdin_events m s) = clean s"
  "cooked (read_stdin_events m s) = cooked s"
  by (simp_all add: phase_defs reader_keeps)

text \<open>A reader at rest does not move while the pause is requested.\<close>

lemma reader_rests:
  "io_reader s \<in> {RParked, RDone} \<Longrightarrow> pause_requested (io_control s) \<Longrightarrow>
    io_reader (read_stdin_events m s) = io_reader s \<and> io_queue (read_stdin_events m s) = io_queue s"
  by (auto simp: read_stdin_events_def parked_turn_def)

lemma reader_flags:
  "(reader_finished (io_control s) \<longleftrightarrow> io_reader s = RDone) \<Longrightarrow> (pause_acknowledged (io_control s) \<longleftrightarrow> io_reader s = RParked) \<Longrightarrow>
   (reader_finished (io_control (read_stdin_events m s)) \<longleftrightarrow> io_reader (read_stdin_events m s) = RDone) \<and>
   (pause_acknowledged (io_control (read_stdin_events m s)) \<longleftrightarrow> io_reader (read_stdin_events m s) = RParked)"
  unfolding read_stdin_events_def reader_defs by (auto split: reader_at.split result.split)

lemma control_inv_reader: "control_inv s \<Longrightarrow> control_inv (read_stdin_events m s)"
proof -
  assume inv: "control_inv s"
  have "resting s \<Longrightarrow> requesting s" "clean s \<Longrightarrow> resting s" by (auto simp: phase_defs)
  then have "resting s \<Longrightarrow> io_reader (read_stdin_events m s) = io_reader s \<and> io_queue (read_stdin_events m s) = io_queue s"
    "clean s \<Longrightarrow> io_queue (read_stdin_events m s) = io_queue s"
    using inv reader_rests [of s m] unfolding control_inv_def by blast+
  then show ?thesis
    using inv reader_flags [of s m] unfolding control_inv_def reader_keeps reader_phases by simp
qed

lemma control_inv_main: "control_inv s \<Longrightarrow> control_inv (main_turn raw s)"
  by (cases "io_main s"; cases raw)
    (auto simp: control_inv_def phase_defs main_turn_def main_defs split: list.split)

lemma control_inv_step: "io_step s t \<Longrightarrow> control_inv s \<Longrightarrow> control_inv t"
proof (induction rule: io_step.induct)
  case (reader s m)
  then show ?case by (simp add: control_inv_reader)
next
  case (main s raw)
  then show ?case by (simp add: control_inv_main)
qed (auto simp: control_inv_def phase_defs main_defs)

lemma sleep_inv_reader:
  assumes "control_inv s" "sleep_inv s" "\<not> io_reader_asleep s"
  shows "sleep_inv (read_stdin_events m s)"
proof -
  have "reader_finished (io_control s) \<longleftrightarrow> io_reader s = RDone" "pause_acknowledged (io_control s) \<longleftrightarrow> io_reader s = RParked"
    using assms(1) unfolding control_inv_def by blast+
  then show ?thesis
    using assms(2,3)
    by (cases "io_reader s"; cases "me_poll m"; cases "me_read m") (auto simp: sleep_inv_def read_stdin_events_def reader_defs)
qed

lemma sleep_inv_main: "sleep_inv s \<Longrightarrow> \<not> io_main_asleep s \<Longrightarrow> sleep_inv (main_turn raw s)"
  by (cases "io_main s"; cases raw) (auto simp: sleep_inv_def main_turn_def main_defs split: list.split)

lemma sleep_inv_step: "io_step s t \<Longrightarrow> control_inv s \<Longrightarrow> sleep_inv s \<Longrightarrow> sleep_inv t"
proof (induction rule: io_step.induct)
  case (reader s m)
  then show ?case by (simp add: sleep_inv_reader)
next
  case (main s raw)
  then show ?case by (simp add: sleep_inv_main)
qed (auto simp: sleep_inv_def main_defs)

lemma io_invariant: "io_reachable s \<Longrightarrow> control_inv s \<and> sleep_inv s"
proof (induction rule: io_reachable.induct)
  case (started raw)
  show ?case by (simp add: start_io_def control_inv_def sleep_inv_def phase_defs)
next
  case (moved s t)
  then show ?case using control_inv_step sleep_inv_step by blast
qed

section \<open>The bytes typed\<close>

primrec held_by :: "reader_at \<Rightarrow> u8 list" where
  "held_by RTop = []"
| "held_by RParked = []"
| "held_by RPoll = []"
| "held_by RRead = []"
| "held_by (RBatch bytes) = bytes"
| "held_by RExit = []"
| "held_by RDone = []"

primrec event_bytes :: "AttachedEvent \<Rightarrow> u8 list" where
  "event_bytes (StdinBytes bs) = bs"
| "event_bytes StdinEof = []"
| "event_bytes (StdinError e) = []"
| "event_bytes (BrokerFrame i r) = []"

primrec is_stdin_error :: "AttachedEvent \<Rightarrow> bool" where
  "is_stdin_error (StdinBytes bs) = False"
| "is_stdin_error StdinEof = False"
| "is_stdin_error (StdinError e) = True"
| "is_stdin_error (BrokerFrame i r) = False"

definition bytes_sent :: "AttachedIo \<Rightarrow> u8 list" where
  "bytes_sent s = concat (map event_bytes (io_sent s)) @ held_by (io_reader s)"

text \<open>
  What is read is sent on in order. An error ends the reader; when it comes during coalescing, the
  bytes already read are dropped with it.
\<close>

definition bytes_inv :: "AttachedIo \<Rightarrow> bool" where
  "bytes_inv s \<longleftrightarrow>
     prefix (bytes_sent s) (io_taken s) \<and>
     (if list_ex is_stdin_error (io_sent s) then io_reader s \<in> {RExit, RDone} else bytes_sent s = io_taken s)"

definition queue_inv :: "AttachedIo \<Rightarrow> bool" where
  "queue_inv s \<longleftrightarrow> suffix (filter from_stdin (io_queue s)) (io_sent s)"

lemma bytes_inv_reader: "bytes_inv s \<Longrightarrow> bytes_inv (read_stdin_events m s)"
  by (cases "io_reader s"; cases "me_poll m"; cases "me_read m")
    (auto simp: bytes_inv_def bytes_sent_def read_stdin_events_def reader_defs split: if_splits,
      (metis append_assoc prefixI prefix_order.order_refl)+)

lemma queue_inv_reader: "queue_inv s \<Longrightarrow> queue_inv (read_stdin_events m s)"
  by (cases "io_reader s"; cases "me_poll m"; cases "me_read m")
    (auto simp: queue_inv_def read_stdin_events_def reader_defs)

lemma main_turn_keeps:
  "io_sent (main_turn raw s) = io_sent s" "io_taken (main_turn raw s) = io_taken s" "io_reader (main_turn raw s) = io_reader s"
  "suffix (io_queue (main_turn raw s)) (io_queue s)"
  unfolding main_turn_def main_defs by (auto simp: suffix_ConsI split: main_at.split result.split list.split)

lemma suffix_filter: "suffix xs ys \<Longrightarrow> suffix (filter P xs) (filter P ys)"
  by (auto simp: suffix_def)

lemma queue_inv_shorter:
  assumes "queue_inv s" "suffix (io_queue t) (io_queue s)" "io_sent t = io_sent s"
  shows "queue_inv t"
  using assms suffix_filter [OF assms(2)] suffix_order.order_trans unfolding queue_inv_def by metis

lemma bytes_inv_step: "io_step s t \<Longrightarrow> bytes_inv s \<and> queue_inv s \<Longrightarrow> bytes_inv t \<and> queue_inv t"
proof (induction rule: io_step.induct)
  case (reader s m)
  then show ?case by (simp add: bytes_inv_reader queue_inv_reader)
next
  case (main s raw)
  then show ?case
    using queue_inv_shorter [of s "main_turn raw s"] by (auto simp: main_turn_keeps bytes_inv_def bytes_sent_def split: if_splits)
next
  case (receive s ev evs)
  then show ?case
    using queue_inv_shorter [of s "s\<lparr>io_queue := evs\<rparr>"] by (auto simp: bytes_inv_def bytes_sent_def suffix_ConsI split: if_splits)
qed (auto simp: bytes_inv_def bytes_sent_def queue_inv_def main_defs)

lemma io_bytes: "io_reachable s \<Longrightarrow> bytes_inv s \<and> queue_inv s"
proof (induction rule: io_reachable.induct)
  case (started raw)
  show ?case by (simp add: start_io_def bytes_inv_def bytes_sent_def queue_inv_def)
next
  case (moved s t)
  then show ?case using bytes_inv_step by blast
qed

section \<open>Pausing returns\<close>

definition uninterrupted :: "met \<Rightarrow> bool" where
  "uninterrupted m \<longleftrightarrow> me_poll m \<noteq> Err Interrupted \<and> me_read m \<noteq> Err Interrupted"

text \<open>The reader alone.\<close>

primrec reader_run :: "met list \<Rightarrow> AttachedIo \<Rightarrow> AttachedIo" where
  "reader_run [] s = s"
| "reader_run (m # ms) s = reader_run ms (if io_reader_asleep s then s else read_stdin_events m s)"

text \<open>How many steps the reader takes at most until it rests.\<close>

primrec to_rest :: "reader_at \<Rightarrow> nat" where
  "to_rest RTop = 1"
| "to_rest RParked = 0"
| "to_rest RPoll = MAX_BATCH + 4"
| "to_rest RRead = MAX_BATCH + 3"
| "to_rest (RBatch bytes) = 2 + (MAX_BATCH - length bytes)"
| "to_rest RExit = 1"
| "to_rest RDone = 0"

lemma to_rest_bound: "to_rest r \<le> MAX_BATCH + 4"
  by (cases r) auto

lemma to_rest_zero: "to_rest r = 0 \<longleftrightarrow> r = RParked \<or> r = RDone"
  by (cases r) auto

lemma to_rest_step:
  assumes "pause_requested (io_control s)" "uninterrupted m"
  shows "to_rest (io_reader (read_stdin_events m s)) \<le> to_rest (io_reader s) - 1"
  using assms
  by (cases "io_reader s"; cases "me_poll m"; cases "me_read m")
    (auto simp: uninterrupted_def read_stdin_events_def reader_defs neq_Nil_conv MAX_BATCH_def)

lemma reader_run_reachable: "io_reachable s \<Longrightarrow> io_reachable (reader_run ms s)"
  by (induction ms arbitrary: s) (auto intro: io_reachable.moved io_step.reader)

lemma reader_run_main: "io_main (reader_run ms s) = io_main s"
  by (induction ms arbitrary: s) (simp_all add: reader_keeps)

lemma reader_run_rests:
  "io_reachable s \<Longrightarrow> pause_requested (io_control s) \<Longrightarrow> list_all uninterrupted ms \<Longrightarrow>
    to_rest (io_reader (reader_run ms s)) \<le> to_rest (io_reader s) - length ms"
proof (induction ms arbitrary: s)
  case (Cons m ms)
  show ?case
  proof (cases "io_reader_asleep s")
    case True
    then have "io_reader s = RParked" using io_invariant [OF Cons.prems(1)] by (auto simp: sleep_inv_def)
    then show ?thesis using True Cons.IH [of s] Cons.prems by simp
  next
    case False
    let ?t = "read_stdin_events m s"
    have "io_reachable ?t" using Cons.prems(1) False by (auto intro: io_reachable.moved io_step.reader)
    then have "to_rest (io_reader (reader_run ms ?t)) \<le> to_rest (io_reader ?t) - length ms"
      using Cons.IH [of ?t] Cons.prems reader_keeps(4) by simp
    then show ?thesis using False to_rest_step [of s m] Cons.prems by auto
  qed
qed simp

text \<open>A resumed reader leaves its \<open>wait\<close> and does not come back.\<close>

lemma reader_run_leaves:
  "io_reachable s \<Longrightarrow> io_main s = MResumeWait \<Longrightarrow> ms \<noteq> [] \<or> io_reader s \<noteq> RParked \<Longrightarrow> io_reader (reader_run ms s) \<noteq> RParked"
proof (induction ms arbitrary: s)
  case (Cons m ms)
  have req: "\<not> pause_requested (io_control s)"
    using io_invariant [OF Cons.prems(1)] Cons.prems(2) by (auto simp: control_inv_def phase_defs)
  then have awake: "\<not> io_reader_asleep s" using io_invariant [OF Cons.prems(1)] by (auto simp: sleep_inv_def)
  have "io_reader (read_stdin_events m s) \<noteq> RParked"
    using req by (cases "io_reader s"; cases "me_poll m"; cases "me_read m") (auto simp: read_stdin_events_def reader_defs)
  then show ?case
    using Cons.IH [of "read_stdin_events m s"] Cons.prems awake
    by (auto simp: reader_keeps intro: io_reachable.moved io_step.reader)
qed simp

text \<open>For witnesses: a pause that has just been requested, and one that has returned.\<close>

definition typed :: met where
  "typed = \<lparr>me_poll = Ok True, me_pollin = True, me_read = Ok [120]\<rparr>"

definition pausing_io :: AttachedIo where
  "pausing_io = main_turn (Ok True) (pause (start_io True))"

definition paused_io :: AttachedIo where
  "paused_io = (main_turn (Ok True) ^^ 3) (read_stdin_events typed pausing_io)"

lemma pausing_io_eq: "pausing_io = (start_io True)\<lparr>io_control := \<lparr>pause_requested = True, pause_acknowledged = False,
    reader_finished = False\<rparr>, io_main := MPauseWait, io_main_asleep := True\<rparr>"
  by (simp add: pausing_io_def main_turn_def main_defs start_io_def)

lemma pausing_io_reachable: "io_reachable pausing_io"
  unfolding pausing_io_def
  by (rule io_reachable.moved [OF io_reachable.moved [OF io_reachable.started io_step.call_pause] io_step.main])
    (simp_all add: start_io_def pause_def)

lemma paused_io_eq: "paused_io = (start_io False)\<lparr>io_control := \<lparr>pause_requested = True, pause_acknowledged = True,
    reader_finished = False\<rparr>, io_reader := RParked, io_reader_asleep := True, io_input_paused := True\<rparr>"
  by (simp add: paused_io_def pausing_io_eq numeral_3_eq_3 read_stdin_events_def reader_defs main_turn_def main_defs start_io_def)

lemma paused_io_reachable: "io_reachable paused_io"
proof -
  let ?s = "read_stdin_events typed pausing_io" and ?step = "main_turn (Ok True)"
  have s: "io_reachable ?s"
    by (rule io_reachable.moved [OF pausing_io_reachable io_step.reader]) (simp add: pausing_io_eq start_io_def)
  have step: "io_reachable t \<Longrightarrow> \<not> io_main_asleep t \<Longrightarrow> io_reachable (?step t)" for t
    by (blast intro: io_reachable.moved io_step.main)
  have "\<not> io_main_asleep ?s" "\<not> io_main_asleep (?step ?s)" "\<not> io_main_asleep (?step (?step ?s))"
    by (simp_all add: pausing_io_eq read_stdin_events_def reader_defs main_turn_def main_defs start_io_def)
  then show ?thesis using s step by (simp add: paused_io_def numeral_3_eq_3)
qed

section \<open>Properties\<close>

text \<open>
  C14. While the input is paused, the terminal belongs to others. In every reachable state in which a
  pause has returned and no resume has been called, the terminal is out of raw mode, the reader holds no bytes, no
  input event is left in the queue, and whatever happens next, no byte is taken from the standard input. So
  \<open>ssh\<close> gets all that the user types at its prompts, and nothing typed before reaches the next session.
\<close>

theorem input_handed_over:
  assumes "io_reachable s" and "released s" and "io_step s t"
  shows "\<not> io_raw_mode s \<and> held_by (io_reader s) = [] \<and> \<not> list_ex from_stdin (io_queue s) \<and>
    io_taken t = io_taken s \<and> io_sent t = io_sent s"
proof -
  have phases: "requesting s" "resting s" "cooked s" "clean s" using assms(2) by (auto simp: phase_defs)
  then have inv: "\<not> io_raw_mode s" "io_reader s \<in> {RParked, RDone}" "\<not> list_ex from_stdin (io_queue s)" "pause_requested (io_control s)"
    using io_invariant [OF assms(1)] unfolding control_inv_def by blast+
  have "io_taken (read_stdin_events m s) = io_taken s" "io_sent (read_stdin_events m s) = io_sent s" for m
    using inv(2,4) by (auto simp: read_stdin_events_def parked_turn_def)
  with assms(3) have "io_taken t = io_taken s \<and> io_sent t = io_sent s"
    by cases (simp_all add: main_turn_keeps main_defs)
  then show ?thesis using inv by auto
qed

theorem input_handed_over_witness:
  "\<not> io_raw_mode paused_io \<and> \<not> list_ex from_stdin (io_queue paused_io) \<and>
    io_taken (read_stdin_events typed (paused_io\<lparr>io_reader_asleep := False\<rparr>)) = io_taken (paused_io\<lparr>io_reader_asleep := False\<rparr>)"
proof -
  let ?s = "paused_io\<lparr>io_reader_asleep := False\<rparr>"
  have "io_reachable ?s" by (rule io_reachable.moved [OF paused_io_reachable io_step.reader_wakes])
  moreover have "released ?s" by (simp add: released_def paused_io_eq start_io_def)
  moreover have "io_step ?s (read_stdin_events typed ?s)" by (rule io_step.reader) simp
  ultimately show ?thesis using input_handed_over [of ?s "read_stdin_events typed ?s"] by simp
qed

text \<open>
  C15. Pausing and resuming return; no wakeup is lost. When the main thread waits for the reader to pause, the reader, whose
  system calls are not interrupted, rests within 65540 steps of its own, whatever the terminal sends;
  the main thread is then awake and goes on. When it waits for the reader to resume, one step of the reader is enough.
\<close>

theorem pause_and_resume_return:
  assumes "io_reachable s" and "list_all uninterrupted ms" and "MAX_BATCH + 4 \<le> length ms"
  shows "(io_main s = MPauseWait \<longrightarrow>
      \<not> io_main_asleep (reader_run ms s) \<and> io_main (main_turn raw (reader_run ms s)) = MPauseRaw) \<and>
    (io_main s = MResumeWait \<longrightarrow>
      \<not> io_main_asleep (reader_run ms s) \<and> released (main_turn raw (reader_run ms s)) = False \<and>
      io_main (main_turn raw (reader_run ms s)) = MIdle)"
proof (intro conjI impI)
  let ?t = "reader_run ms s"
  have t: "control_inv ?t" "sleep_inv ?t" using io_invariant [OF reader_run_reachable [OF assms(1)]] by blast+
  have main: "io_main ?t = io_main s" by (rule reader_run_main)
  {
    assume s: "io_main s = MPauseWait"
    then have "pause_requested (io_control s)" using io_invariant [OF assms(1)] by (auto simp: control_inv_def phase_defs)
    from reader_run_rests [OF assms(1) this assms(2)] to_rest_bound [of "io_reader s"] assms(3)
    have "to_rest (io_reader ?t) = 0" by simp
    then have "io_reader ?t = RParked \<or> io_reader ?t = RDone" by (simp add: to_rest_zero)
    then have "pause_acknowledged (io_control ?t) \<or> reader_finished (io_control ?t)"
      using t(1) unfolding control_inv_def by blast
    then show "\<not> io_main_asleep ?t" "io_main (main_turn raw ?t) = MPauseRaw"
      using t(2) s main by (auto simp: sleep_inv_def main_turn_def pause_wait_def)
  }
  {
    assume s: "io_main s = MResumeWait"
    have "ms \<noteq> []" using assms(3) by auto
    then have "io_reader ?t \<noteq> RParked" using reader_run_leaves [OF assms(1) s] by blast
    then have "\<not> pause_acknowledged (io_control ?t)" using t(1) unfolding control_inv_def by blast
    then show "\<not> io_main_asleep ?t" "released (main_turn raw ?t) = False" "io_main (main_turn raw ?t) = MIdle"
      using t(2) s main by (auto simp: sleep_inv_def main_turn_def resume_wait_def released_def)
  }
qed

theorem pause_and_resume_return_witness:
  "io_main (main_turn (Ok True) (reader_run (replicate 65540 typed) pausing_io)) = MPauseRaw"
  using pause_and_resume_return [OF pausing_io_reachable, of "replicate 65540 typed" "Ok True"]
  by (simp add: pausing_io_eq MAX_BATCH_def uninterrupted_def typed_def list_all_iff)

end
