(* ===== verification/Handshake.thy ===== *)
theory Handshake
  imports Attached Bootstrap Cli
begin

text \<open>
  The start of a connection in \<open>src/src/client.rs\<close>: waiting for the remote bootstrap, the exchange of
  capabilities, the choice of a session and the first request. The functions work on the streams of
  the \<open>ssh\<close> process and on the terminal. A \<open>String\<close> is its UTF-8 bytes. Flushing a pipe and the
  standard error does nothing and does not fail; what is printed on the standard error is left out.
\<close>

section \<open>Streams\<close>

text \<open>\<open>cn_stdin\<close> are the lines that the user types; at the end of input \<open>read_line\<close> yields no bytes.\<close>

record conn =
  cn_in :: reader
  cn_out :: writer
  cn_stdin :: "(string, io_error) result list"
  cn_stdout :: string

definition bind_io ::
  "('a, 'e) result \<times> 's \<Rightarrow> ('a \<Rightarrow> 's \<Rightarrow> ('b, 'e) result \<times> 's) \<Rightarrow> ('b, 'e) result \<times> 's" where
  "bind_io p f = (case p of (Ok a, cn) \<Rightarrow> f a cn | (Err e, cn) \<Rightarrow> (Err e, cn))"

definition send_body :: "codec \<Rightarrow> msg_type \<Rightarrow> body \<Rightarrow> conn \<Rightarrow> (unit, ClientRunError) result \<times> conn" where
  "send_body c ty b cn =
     (case write_body c ty 0 b (cn_out cn) of (res, w) \<Rightarrow> (map_err CProtocol res, cn\<lparr>cn_out := w\<rparr>))"

definition read_line :: "conn \<Rightarrow> (string, io_error) result \<times> conn" where
  "read_line cn =
     (case cn_stdin cn of
        [] \<Rightarrow> (Ok [], cn)
      | l # ls \<Rightarrow> (l, cn\<lparr>cn_stdin := ls\<rparr>))"

section \<open>Bootstrap\<close>

text \<open>
  \<open>String::from_utf8_lossy\<close>: every byte sequence that is not UTF-8 is replaced by U+FFFD.
  \<open>utf8_step\<close> is the length of the first character and whether it is complete.
\<close>

definition second_ok :: "nat \<Rightarrow> nat \<Rightarrow> bool" where
  "second_ok a b \<longleftrightarrow>
     is_cont b \<and> (a = 224 \<longrightarrow> 160 \<le> b) \<and> (a = 237 \<longrightarrow> b \<le> 159) \<and> (a = 240 \<longrightarrow> 144 \<le> b) \<and> (a = 244 \<longrightarrow> b \<le> 143)"

definition utf8_step :: "nat \<Rightarrow> nat list \<Rightarrow> nat \<times> bool" where
  "utf8_step a bs =
     (let at = (\<lambda>i P. i < length bs \<and> P (bs ! i)) in
      if a < 128 then (1, True)
      else if a < 194 \<or> 244 < a then (1, False)
      else if \<not> at 0 (second_ok a) then (1, False)
      else if a < 224 then (2, True)
      else if \<not> at 1 is_cont then (2, False)
      else if a < 240 then (3, True)
      else if \<not> at 2 is_cont then (3, False)
      else (4, True))"

lemma utf8_step_pos: "0 < fst (utf8_step a bs)"
  by (simp add: utf8_step_def Let_def)

function from_utf8_lossy :: "nat list \<Rightarrow> nat list" where
  "from_utf8_lossy [] = []"
| "from_utf8_lossy (a # bs) =
     (let (n, complete) = utf8_step a bs in
      (if complete then take n (a # bs) else [239, 191, 189]) @ from_utf8_lossy (drop n (a # bs)))"
  by pat_completeness auto
termination
proof (relation "measure length")
  fix a bs n complete and x :: "nat \<times> bool"
  assume "x = utf8_step a bs" "(n, complete) = x"
  then have "0 < n" using utf8_step_pos [of a bs] by (metis fst_conv)
  then show "(drop n (a # bs), a # bs) \<in> measure length" by simp
qed simp

fun read_line_bytes :: "u8 list \<Rightarrow> reader \<Rightarrow> (u8 list option, io_error) result \<times> reader" where
  "read_line_bytes bytes [] = (Ok (if bytes = [] then None else Some bytes), [])"
| "read_line_bytes bytes (Byte b # r) =
     (if b = 10 then (Ok (Some (bytes @ [b])), r) else read_line_bytes (bytes @ [b]) r)"
| "read_line_bytes bytes (Fail e # r) = (Err e, r)"

definition read_line_lossy :: "conn \<Rightarrow> (string option, ClientRunError) result \<times> conn" where
  "read_line_lossy cn =
     (case read_line_bytes [] (cn_in cn) of
        (Err e, r) \<Rightarrow> (Err (ReadBootstrap e), cn\<lparr>cn_in := r\<rparr>)
      | (Ok l, r) \<Rightarrow> (Ok (map_option (\<lambda>bytes. map char_of (from_utf8_lossy (map unat bytes))) l), cn\<lparr>cn_in := r\<rparr>))"

definition affirmative :: "string \<Rightarrow> bool" where
  "affirmative answer \<longleftrightarrow> trim answer \<in> {'''', ''y'', ''Y'', ''yes'', ''YES'', ''Yes''}"

definition confirm_install :: "conn \<Rightarrow> (bool, ClientRunError) result \<times> conn" where
  "confirm_install cn =
     (case read_line cn of
        (Err e, cn) \<Rightarrow> (Err (Prompt e), cn)
      | (Ok answer, cn) \<Rightarrow>
          (Ok (affirmative answer), cn))"

definition trim_newlines :: "string \<Rightarrow> string" where
  "trim_newlines l = rev (dropWhile (\<lambda>ch. ch = CHR 0x0D \<or> ch = CHR 0x0A) (rev l))"

definition bytes_of :: "string \<Rightarrow> u8 list" where
  "bytes_of s = map (\<lambda>ch. word_of_nat (of_char ch)) s"

text \<open>A line of the bootstrap: done with a result, or the loop goes on.\<close>

definition bootstrap_line :: "string \<Rightarrow> conn \<Rightarrow> ((unit, ClientRunError) result option) \<times> conn" where
  "bootstrap_line line cn =
     (if line = READY_MARKER then (Some (Ok ()), cn)
      else if line = INSTALL_REQUIRED_MARKER then
        (case confirm_install cn of
           (Err e, cn) \<Rightarrow> (Some (Err e), cn)
         | (Ok yes, cn) \<Rightarrow>
             if yes then
               (case write_all (cn_out cn) (bytes_of (INSTALL_OK_MARKER @ [CHR 0x0A])) of
                  (Err e, w) \<Rightarrow> (Some (Err (WriteBootstrap e)), cn\<lparr>cn_out := w\<rparr>)
                | (Ok _, w) \<Rightarrow> (None, cn\<lparr>cn_out := w\<rparr>))
             else (Some (Err InstallDeclined), cn))
      else
        (case strip_prefix ''OBI-ERROR '' line of
           Some message \<Rightarrow> (Some (Err (RemoteBootstrap message)), cn)
         | None \<Rightarrow>
             if take 4 line = ''OBI-'' then (Some (Err (RemoteBootstrap line)), cn) else (None, cn)))"

lemma read_line_bytes_consumes:
  "read_line_bytes bytes r = (Ok (Some l), r') \<Longrightarrow> r \<noteq> [] \<Longrightarrow> length r' < length r"
proof (induction bytes r arbitrary: l rule: read_line_bytes.induct)
  case (2 bytes b r)
  show ?case
  proof (cases "b = 10 \<or> r = []")
    case True
    then show ?thesis using "2.prems" by (auto split: if_splits)
  next
    case False
    then show ?thesis using "2.IH" [of l] "2.prems" by (simp add: less_SucI)
  qed
qed simp_all

lemma read_line_lossy_consumes:
  assumes "read_line_lossy cn = (Ok (Some l), cn')"
  shows "length (cn_in cn') < length (cn_in cn)"
proof -
  obtain bs r where r: "read_line_bytes [] (cn_in cn) = (Ok (Some bs), r)" "cn' = cn\<lparr>cn_in := r\<rparr>"
    using assms by (auto simp: read_line_lossy_def split: prod.splits result.splits)
  then have "cn_in cn \<noteq> []" by auto
  then show ?thesis using read_line_bytes_consumes [OF r(1)] r(2) by simp
qed

lemma bootstrap_line_in: "bootstrap_line line cn = (res, cn') \<Longrightarrow> cn_in cn' = cn_in cn"
  by (auto simp: bootstrap_line_def confirm_install_def read_line_def
      split: if_splits prod.splits result.splits list.splits option.splits simp del: write_all.simps)

function wait_for_bootstrap :: "conn \<Rightarrow> (unit, ClientRunError) result \<times> conn" where
  "wait_for_bootstrap cn =
     (case read_line_lossy cn of
        (Err e, cn1) \<Rightarrow> (Err e, cn1)
      | (Ok None, cn1) \<Rightarrow> (Err UnexpectedBootstrapEof, cn1)
      | (Ok (Some line), cn1) \<Rightarrow>
          (case bootstrap_line (trim_newlines line) cn1 of
             (Some res, cn2) \<Rightarrow> (res, cn2)
           | (None, cn2) \<Rightarrow> wait_for_bootstrap cn2))"
  by pat_completeness auto
termination
  by (relation "measure (\<lambda>cn. length (cn_in cn))")
     (auto dest!: read_line_lossy_consumes [OF sym] bootstrap_line_in [OF sym])

section \<open>Frames of the broker\<close>

function read_expected_broker_frame :: "msg_type \<Rightarrow> conn \<Rightarrow> (Frame, ClientRunError) result \<times> conn" where
  "read_expected_broker_frame expected cn =
     (case read_frame (cn_in cn) of
        (Err e, r) \<Rightarrow> (Err (CProtocol e), cn\<lparr>cn_in := r\<rparr>)
      | (Ok None, r) \<Rightarrow> (Err UnexpectedBrokerEof, cn\<lparr>cn_in := r\<rparr>)
      | (Ok (Some f), r) \<Rightarrow>
          if frame_msg_type f = expected then (Ok f, cn\<lparr>cn_in := r\<rparr>)
          else if msg_name (frame_msg_type f) = None then read_expected_broker_frame expected (cn\<lparr>cn_in := r\<rparr>)
          else (Err (UnexpectedBrokerMessage (frame_msg_type f)), cn\<lparr>cn_in := r\<rparr>))"
  by pat_completeness auto
termination
  by (relation "measure (\<lambda>(_, cn). length (cn_in cn))") (auto dest!: read_frame_consumes [OF sym])

declare wait_for_bootstrap.simps [simp del] read_expected_broker_frame.simps [simp del]

text \<open>\<open>?\<close> on a decoded body.\<close>

definition decoded :: "('a, protocol_error) result \<Rightarrow> conn \<Rightarrow> ('a, ClientRunError) result \<times> conn" where
  "decoded res cn = (map_err CProtocol res, cn)"

definition exchange_capabilities :: "codec \<Rightarrow> conn \<Rightarrow> (string list, ClientRunError) result \<times> conn" where
  "exchange_capabilities c cn =
     bind_io (send_body c CAPABILITIES (BCapabilities DEFAULT_CAPABILITIES) cn) (\<lambda>_ cn.
     bind_io (read_expected_broker_frame CAPABILITIES cn) (\<lambda>f cn.
     bind_io (decoded (decode_Capabilities c f) cn) (\<lambda>peer cn.
       let shared = intersection DEFAULT_CAPABILITIES peer in
       if shared = [] then (Err NoSharedCapabilities, cn) else (Ok shared, cn))))"

section \<open>Selection\<close>

datatype InitialClientSelection = SelectAttach string | NewAlreadySent

definition write_initial_window_size ::
  "codec \<Rightarrow> WindowSize option \<Rightarrow> conn \<Rightarrow> (unit, ClientRunError) result \<times> conn" where
  "write_initial_window_size c initial_window_size cn =
     (case initial_window_size of
        None \<Rightarrow> (Ok (), cn)
      | Some window_size \<Rightarrow> send_body c INITIAL_WINDOW_SIZE (BWindowSize window_size) cn)"

definition send_new_session ::
  "codec \<Rightarrow> WindowSize option \<Rightarrow> conn \<Rightarrow> (unit, ClientRunError) result \<times> conn" where
  "send_new_session c initial_window_size cn =
     bind_io (write_initial_window_size c initial_window_size cn) (\<lambda>_.
       send_body c NEW_SESSION BNewSessionRequest)"

definition request_session_list ::
  "codec \<Rightarrow> bool \<Rightarrow> conn \<Rightarrow> (SessionInfo list, ClientRunError) result \<times> conn" where
  "request_session_list c continue_after_response cn =
     bind_io (send_body c SESSION_LIST_REQUEST (BSessionListRequest continue_after_response) cn) (\<lambda>_ cn.
     bind_io (read_expected_broker_frame SESSION_LIST cn) (\<lambda>f cn.
     bind_io (decoded (decode_SessionList c f) cn) (\<lambda>list cn.
       (map_err InvalidSession (collect_results (map from_record list)), cn))))"

definition prompt_answer :: "conn \<Rightarrow> (string, ClientRunError) result \<times> conn" where
  "prompt_answer cn =
     (case read_line cn of (Err e, cn) \<Rightarrow> (Err (Prompt e), cn) | (Ok answer, cn) \<Rightarrow> (Ok (trim answer), cn))"

definition prompt_detach_connect_selection ::
  "SessionInfo list \<Rightarrow> conn \<Rightarrow> (string, ClientRunError) result \<times> conn" where
  "prompt_detach_connect_selection sessions cn =
     bind_io (prompt_answer cn) (\<lambda>answer cn.
       (case parse_usize answer of
          None \<Rightarrow> (Err (InvalidSessionSelection answer), cn)
        | Some selector \<Rightarrow>
            if selector = 0 \<or> length sessions \<le> selector - 1 then (Err (InvalidSessionSelection answer), cn)
            else (Ok (info_id (sessions ! (selector - 1))), cn)))"

definition select_detach_connect_session :: "codec \<Rightarrow> conn \<Rightarrow> (string, ClientRunError) result \<times> conn" where
  "select_detach_connect_session c cn =
     bind_io (request_session_list c True cn) (\<lambda>sessions cn.
       (case auto_select_existing sessions of
          ExNone \<Rightarrow> (Err NoSessionsForDetachConnect, cn)
        | ExAttach session_id \<Rightarrow> (Ok session_id, cn)
        | ExPrompt \<Rightarrow> prompt_detach_connect_selection sessions cn))"

definition prompt_session_selection ::
  "codec \<Rightarrow> SessionInfo list \<Rightarrow> WindowSize option \<Rightarrow> conn \<Rightarrow>
     (InitialClientSelection, ClientRunError) result \<times> conn" where
  "prompt_session_selection c sessions initial_window_size cn =
     bind_io (prompt_answer cn) (\<lambda>answer cn.
       if answer = ''n'' then
         bind_io (send_new_session c initial_window_size cn) (\<lambda>_ cn. (Ok NewAlreadySent, cn))
       else
         (case parse_usize answer of
            None \<Rightarrow> (Err (InvalidSessionSelection answer), cn)
          | Some selector \<Rightarrow>
              let selectable = filter is_selectable sessions in
              if selector = 0 then (Err (InvalidSessionSelection answer), cn)
              else if length selectable \<le> selector - 1 then (Err (InvalidSessionSelection answer), cn)
              else (Ok (SelectAttach (info_id (selectable ! (selector - 1)))), cn)))"

definition select_session ::
  "codec \<Rightarrow> WindowSize option \<Rightarrow> conn \<Rightarrow> (InitialClientSelection, ClientRunError) result \<times> conn" where
  "select_session c initial_window_size cn =
     bind_io (request_session_list c True cn) (\<lambda>sessions cn.
       (case auto_select sessions of
          SelNewSession \<Rightarrow>
            bind_io (send_new_session c initial_window_size cn) (\<lambda>_ cn. (Ok NewAlreadySent, cn))
        | SelAttach session_id \<Rightarrow> (Ok (SelectAttach session_id), cn)
        | SelPrompt \<Rightarrow> prompt_session_selection c sessions initial_window_size cn))"

section \<open>The first request\<close>

datatype InitialActionResult =
    InitialControl u8
  | InitialDetachedForConnect string
  | InitialAttached "string option"

text \<open>\<open>display_time\<close> formats a time in the time zone of the client.\<close>

definition initial_list ::
  "codec \<Rightarrow> (SystemTime \<Rightarrow> string) \<Rightarrow> conn \<Rightarrow> (InitialActionResult, ClientRunError) result \<times> conn" where
  "initial_list c display_time cn =
     bind_io (request_session_list c False cn) (\<lambda>sessions cn.
       (Ok (InitialControl 0), cn\<lparr>cn_stdout := cn_stdout cn @ render_session_table display_time sessions False\<rparr>))"

definition initial_detach ::
  "codec \<Rightarrow> ClientArgs \<Rightarrow> conn \<Rightarrow> (InitialActionResult, ClientRunError) result \<times> conn" where
  "initial_detach c args cn =
     (case ca_session args of
        None \<Rightarrow> (Err MissingSessionForDetach, cn)
      | Some session_id \<Rightarrow>
          bind_io (send_body c DETACH (BDetachSessionRequest session_id) cn) (\<lambda>_ cn. (Ok (InitialControl 0), cn)))"

definition initial_detach_connect ::
  "codec \<Rightarrow> ClientArgs \<Rightarrow> conn \<Rightarrow> (InitialActionResult, ClientRunError) result \<times> conn" where
  "initial_detach_connect c args cn =
     bind_io (case ca_session args of
                Some session_id \<Rightarrow> (Ok session_id, cn)
              | None \<Rightarrow> select_detach_connect_session c cn) (\<lambda>session_id cn.
     bind_io (send_body c DETACH (BDetachSessionRequest session_id) cn) (\<lambda>_ cn.
       (Ok (InitialDetachedForConnect session_id), cn)))"

definition initial_attach ::
  "codec \<Rightarrow> ClientArgs \<Rightarrow> WindowSize option \<Rightarrow> conn \<Rightarrow> (InitialActionResult, ClientRunError) result \<times> conn" where
  "initial_attach c args initial_window_size cn =
     bind_io (case ca_session args of
                Some session_id \<Rightarrow> (Ok (SelectAttach session_id), cn)
              | None \<Rightarrow> select_session c initial_window_size cn) (\<lambda>selection cn.
       (case selection of
          NewAlreadySent \<Rightarrow> (Ok (InitialAttached None), cn)
        | SelectAttach session_id \<Rightarrow>
            bind_io (write_initial_window_size c initial_window_size cn) (\<lambda>_ cn.
            bind_io (send_body c ATTACH_SESSION (BAttachSessionRequest session_id) cn) (\<lambda>_ cn.
              (Ok (InitialAttached (Some session_id)), cn)))))"

definition initial_new ::
  "codec \<Rightarrow> WindowSize option \<Rightarrow> conn \<Rightarrow> (InitialActionResult, ClientRunError) result \<times> conn" where
  "initial_new c initial_window_size cn =
     bind_io (send_new_session c initial_window_size cn) (\<lambda>_ cn. (Ok (InitialAttached None), cn))"

text \<open>A function of the client stops with an error, or with a panic of an \<open>unreachable!\<close> or \<open>expect\<close>.\<close>

datatype client_stop = Raised ClientRunError | Panicked

definition raising :: "('a, ClientRunError) result \<times> 's \<Rightarrow> ('a, client_stop) result \<times> 's" where
  "raising p = (map_err Raised (fst p), snd p)"

definition handle_initial_action ::
  "codec \<Rightarrow> (SystemTime \<Rightarrow> string) \<Rightarrow> ClientArgs \<Rightarrow> WindowSize option \<Rightarrow> conn \<Rightarrow>
     (InitialActionResult, client_stop) result \<times> conn" where
  "handle_initial_action c display_time args initial_window_size cn =
     (case ca_action args of
        List \<Rightarrow> raising (initial_list c display_time cn)
      | Detach \<Rightarrow> raising (initial_detach c args cn)
      | DetachConnect \<Rightarrow> raising (initial_detach_connect c args cn)
      | Attach \<Rightarrow> raising (initial_attach c args initial_window_size cn)
      | New \<Rightarrow> raising (initial_new c initial_window_size cn)
      | Version \<Rightarrow> (Err Panicked, cn))"

section \<open>Lemmas\<close>

subsection \<open>Lines of the bootstrap\<close>

lemma lossy_ascii: "a < 128 \<Longrightarrow> from_utf8_lossy (a # bs) = a # from_utf8_lossy bs"
  by (simp add: utf8_step_def)

lemma lossy_head: "\<not> a < 128 \<Longrightarrow> \<exists>h t. from_utf8_lossy (a # bs) = h # t \<and> \<not> h < 128"
  using utf8_step_pos [of a bs]
  by (cases "utf8_step a bs") (auto simp: take_Cons' split: if_splits)

lemma lossy_ascii_prefix:
  "list_all (\<lambda>a. a < 128) p \<Longrightarrow> take (length p) (from_utf8_lossy bs) = p \<Longrightarrow> take (length p) bs = p"
proof (induction p arbitrary: bs)
  case (Cons a p)
  then obtain b bs' where bs: "bs = b # bs'" by (cases bs) simp_all
  show ?case
  proof (cases "b < 128")
    case True
    then show ?thesis using Cons bs by (auto simp: lossy_ascii simp del: from_utf8_lossy.simps)
  next
    case False
    then show ?thesis using lossy_head [of b bs'] Cons.prems bs by (auto simp del: from_utf8_lossy.simps)
  qed
qed simp

lemma lossy_all_ascii: "list_all (\<lambda>a. a < 128) bs \<Longrightarrow> from_utf8_lossy bs = bs"
  by (induction bs) (simp_all add: lossy_ascii del: from_utf8_lossy.simps(2))

definition line_text :: "u8 list \<Rightarrow> string" where
  "line_text bytes = map char_of (from_utf8_lossy (map unat bytes))"

lemma read_line_bytes_line: "10 \<notin> set l \<Longrightarrow> read_line_bytes bs (reader_of l @ Byte 10 # r) = (Ok (Some (bs @ l @ [10])), r)"
  by (induction l arbitrary: bs) auto

lemma read_line_lossy_line:
  "10 \<notin> set l \<Longrightarrow> cn_in cn = reader_of l @ Byte 10 # r \<Longrightarrow>
     read_line_lossy cn = (Ok (Some (line_text (l @ [10]))), cn\<lparr>cn_in := r\<rparr>)"
  by (simp add: read_line_lossy_def read_line_bytes_line line_text_def)

lemma trim_newlines_prefix: "prefix (trim_newlines l) l"
proof -
  have "suffix (dropWhile P (rev l)) (rev l)" for P by (rule suffix_dropWhile)
  then show ?thesis by (metis rev_rev_ident suffix_to_prefix trim_newlines_def)
qed

text \<open>Lines that the bootstrap ignores, such as those of a login banner.\<close>

definition noise :: "u8 list \<Rightarrow> bool" where
  "noise l \<longleftrightarrow> 10 \<notin> set l \<and> take 4 l \<noteq> bytes_of ''OBI-''"

definition stream_lines :: "u8 list list \<Rightarrow> reader" where
  "stream_lines ls = concat (map (\<lambda>l. reader_of l @ [Byte 10]) ls)"

lemma lossy_bytes: "\<forall>x\<in>set bs. x < 256 \<Longrightarrow> \<forall>x\<in>set (from_utf8_lossy bs). x < 256"
proof (induction bs rule: from_utf8_lossy.induct)
  case (2 a bs)
  obtain n k where n: "utf8_step a bs = (n, k)" by fastforce
  have "\<forall>x\<in>set (from_utf8_lossy (drop n (a # bs))). x < 256"
    using "2.IH" [OF n [symmetric] refl] "2.prems" by (meson in_set_dropD)
  moreover have "\<forall>x\<in>set (take n (a # bs)). x < 256" using "2.prems" by (meson in_set_takeD)
  ultimately show ?case by (auto simp: n simp del: take.simps drop.simps)
qed simp

lemma take_of_prefix: "prefix xs ys \<Longrightarrow> take (length p) xs = p \<Longrightarrow> take (length p) ys = p"
  by (metis append_eq_conv_conj append.assoc append_take_drop_id prefix_def)

lemma line_text_prefix:
  assumes "list_all (\<lambda>a. a < 128) p" "take (length p) (line_text bs) = map char_of p"
  shows "take (length p) (map unat bs) = p"
proof -
  let ?l = "from_utf8_lossy (map unat bs)"
  have "unat b < 256" for b :: u8 using unsigned_less [of b] by simp
  then have "\<forall>x\<in>set ?l. x < 256" by (intro lossy_bytes) auto
  then have "map of_char (line_text bs) = ?l" by (auto simp: line_text_def map_idI)
  then have "take (length p) ?l = map of_char (map char_of p :: string)" using assms(2) by (metis take_map)
  also have "\<dots> = p" using assms(1) by (induction p) simp_all
  finally show ?thesis by (rule lossy_ascii_prefix [OF assms(1)])
qed

lemma OBI_bytes: "''OBI-'' = map char_of [79, 66, 73, 45 :: nat]" "bytes_of ''OBI-'' = [79, 66, 73, 45]"
  by code_simp+

lemma noise_text:
  assumes "noise l" shows "take 4 (trim_newlines (line_text (l @ [10]))) \<noteq> ''OBI-''"
proof
  let ?p = "[79, 66, 73, 45 :: nat]"
  assume "take 4 (trim_newlines (line_text (l @ [10]))) = ''OBI-''"
  moreover have four: "length (map char_of ?p :: string) = 4" "length ?p = 4" by simp_all
  ultimately have "take (length ?p) (line_text (l @ [10])) = map char_of ?p"
    using take_of_prefix [OF trim_newlines_prefix, of "map char_of ?p" "line_text (l @ [10])"]
    unfolding four OBI_bytes(1) by blast
  from line_text_prefix [OF _ this] have t: "take 4 (map unat l @ [10]) = ?p"
    unfolding four by simp
  show False
  proof (cases "4 \<le> length l")
    case True
    then have "map unat (take 4 l) = ?p" using t by (simp add: take_map)
    then have "map word_of_nat (map unat (take 4 l)) = (map word_of_nat ?p :: u8 list)" by (rule arg_cong)
    then have "take 4 l = [79, 66, 73, 45]" by (simp add: o_def)
    then show False using assms by (simp add: noise_def OBI_bytes(2))
  next
    case False
    then have "10 \<in> set (take 4 (map unat l @ [10]))" by simp
    then show False unfolding t by simp
  qed
qed

lemma bootstrap_noise: "take 4 line \<noteq> ''OBI-'' \<Longrightarrow> bootstrap_line line cn = (None, cn)"
proof -
  assume l: "take 4 line \<noteq> ''OBI-''"
  have "take 4 READY_MARKER = ''OBI-''" "take 4 INSTALL_REQUIRED_MARKER = ''OBI-''"
    "take 4 (''OBI-ERROR '' @ m) = ''OBI-''" for m
    by (simp_all add: obi_consts)
  then have "line \<noteq> READY_MARKER" "line \<noteq> INSTALL_REQUIRED_MARKER" "strip_prefix ''OBI-ERROR '' line \<noteq> Some m" for m
    using l by (auto simp: strip_prefix_Some_iff)
  then show ?thesis using l by (simp add: bootstrap_line_def split: option.split)
qed

lemma wait_line:
  assumes "10 \<notin> set l" "cn_in cn = reader_of l @ Byte 10 # r"
  shows "wait_for_bootstrap cn =
     (case bootstrap_line (trim_newlines (line_text (l @ [10]))) (cn\<lparr>cn_in := r\<rparr>) of
        (Some res, cn2) \<Rightarrow> (res, cn2)
      | (None, cn2) \<Rightarrow> wait_for_bootstrap cn2)"
  by (subst wait_for_bootstrap.simps) (simp add: read_line_lossy_line [OF assms])

lemma wait_noise:
  "list_all noise ls \<Longrightarrow> cn_in cn = stream_lines ls @ r \<Longrightarrow> wait_for_bootstrap cn = wait_for_bootstrap (cn\<lparr>cn_in := r\<rparr>)"
proof (induction ls arbitrary: cn)
  case (Cons l ls)
  then have l: "noise l" "cn_in cn = reader_of l @ Byte 10 # (stream_lines ls @ r)"
    by (simp_all add: stream_lines_def)
  have "wait_for_bootstrap cn = wait_for_bootstrap (cn\<lparr>cn_in := stream_lines ls @ r\<rparr>)"
    using wait_line [OF _ l(2)] l(1) bootstrap_noise [OF noise_text [OF l(1)]]
    by (simp add: noise_def)
  also have "\<dots> = wait_for_bootstrap (cn\<lparr>cn_in := r\<rparr>)"
    using Cons by simp
  finally show ?case .
next
  case Nil
  then show ?case by (cases cn) (simp add: stream_lines_def)
qed

text \<open>A marker line, with a line feed or with a carriage return before it.\<close>

definition marker_bytes :: "string \<Rightarrow> bool \<Rightarrow> u8 list" where
  "marker_bytes m cr = bytes_of m @ (if cr then [13] else [])"

definition marker_line :: "string \<Rightarrow> bool \<Rightarrow> reader" where
  "marker_line m cr = reader_of (marker_bytes m cr) @ [Byte 10]"

lemma marker_text:
  assumes "list_all (\<lambda>ch. of_char ch < (128 :: nat)) m"
  shows "line_text (marker_bytes m cr @ [10]) = m @ (if cr then [CHR 0x0D] else []) @ [CHR 0x0A]"
proof -
  have m: "map unat (bytes_of m) = map of_char m"
    using assms by (induction m) (simp_all add: bytes_of_def unat_of_nat)
  let ?l = "map of_char m @ (if cr then [13] else []) @ [10 :: nat]"
  have "map unat (marker_bytes m cr @ [10]) = ?l" by (simp add: marker_bytes_def m)
  moreover have "from_utf8_lossy ?l = ?l" using assms by (intro lossy_all_ascii) (auto simp: list_all_iff)
  moreover have "char_of (13 :: nat) = CHR 0x0D" "char_of (10 :: nat) = CHR 0x0A" by code_simp+
  ultimately show ?thesis by (simp add: line_text_def o_def)
qed

lemma marker_texts:
  "trim_newlines (line_text (marker_bytes READY_MARKER cr @ [10])) = READY_MARKER"
  "trim_newlines (line_text (marker_bytes INSTALL_REQUIRED_MARKER cr @ [10])) = INSTALL_REQUIRED_MARKER"
  "10 \<notin> set (marker_bytes READY_MARKER cr)"
  "10 \<notin> set (marker_bytes INSTALL_REQUIRED_MARKER cr)"
  by (simp_all add: marker_text obi_consts trim_newlines_def)
     (simp_all add: marker_bytes_def bytes_of_def)

lemma wait_ready:
  "cn_in cn = marker_line READY_MARKER cr @ r \<Longrightarrow> wait_for_bootstrap cn = (Ok (), cn\<lparr>cn_in := r\<rparr>)"
  using wait_line [OF marker_texts(3), of cn cr r]
  by (simp add: marker_texts(1) bootstrap_line_def marker_line_def)

lemma wait_install:
  assumes "cn_in cn = marker_line INSTALL_REQUIRED_MARKER cr @ r" "wr_budget (cn_out cn) = None"
    and "cn_stdin cn = Ok answer # answers"
  shows "wait_for_bootstrap cn =
     (if affirmative answer then
        wait_for_bootstrap (cn\<lparr>cn_in := r, cn_stdin := answers,
          cn_out := (cn_out cn)\<lparr>wr_out := wr_out (cn_out cn) @ bytes_of (INSTALL_OK_MARKER @ [CHR 0x0A])\<rparr>\<rparr>)
      else (Err InstallDeclined, cn\<lparr>cn_in := r, cn_stdin := answers\<rparr>))"
proof -
  have "INSTALL_REQUIRED_MARKER \<noteq> READY_MARKER" by (simp add: obi_consts)
  then show ?thesis
    using wait_line [OF marker_texts(4), of cn cr r] assms
    by (simp add: marker_texts(2) bootstrap_line_def marker_line_def confirm_install_def read_line_def
       )
qed

subsection \<open>Requests\<close>

lemma bind_io_Ok:
  "bind_io p f = (Ok b, cn') \<longleftrightarrow> (\<exists>a cn. p = (Ok a, cn) \<and> f a cn = (Ok b, cn'))"
  by (auto simp: bind_io_def split: prod.splits result.splits)

text \<open>The last thing written between two states is a message.\<close>

definition asks :: "codec \<Rightarrow> msg_type \<Rightarrow> body \<Rightarrow> conn \<Rightarrow> conn \<Rightarrow> bool" where
  "asks c ty b cn cn' \<longleftrightarrow>
     (\<exists>f w. from_body c ty 0 b = Ok f \<and> wr_out (cn_out cn') = wr_out (cn_out cn) @ w @ frame_bytes f)"

definition extends_out :: "conn \<Rightarrow> conn \<Rightarrow> bool" where
  "extends_out cn cn' \<longleftrightarrow> prefix (wr_out (cn_out cn)) (wr_out (cn_out cn'))"

lemma extends_out_refl [simp]: "extends_out cn cn" by (simp add: extends_out_def)

lemma extends_out_trans [trans]: "extends_out cn cn1 \<Longrightarrow> extends_out cn1 cn2 \<Longrightarrow> extends_out cn cn2"
  by (auto simp: extends_out_def)

lemma asks_extends: "asks c ty b cn cn' \<Longrightarrow> extends_out cn cn'"
  by (auto simp: asks_def extends_out_def)

lemma extends_asks: "extends_out cn cn1 \<Longrightarrow> asks c ty b cn1 cn' \<Longrightarrow> asks c ty b cn cn'"
  by (auto simp: asks_def extends_out_def prefix_def)

lemma send_body_asks: "send_body c ty b cn = (Ok u, cn') \<Longrightarrow> asks c ty b cn cn'"
  by (cases u) (auto simp: send_body_def asks_def write_body_def split: prod.splits result.splits dest!: write_to_Ok)

lemma send_body_in: "send_body c ty b cn = (res, cn') \<Longrightarrow> cn_in cn' = cn_in cn"
  by (auto simp: send_body_def split: prod.splits)

lemma read_expected_broker_frame_out:
  "read_expected_broker_frame ty cn = (res, cn') \<Longrightarrow> cn_out cn' = cn_out cn"
proof (induction ty cn rule: read_expected_broker_frame.induct)
  case (1 ty cn)
  show ?case
    using "1.prems" "1.IH" by (subst (asm) read_expected_broker_frame.simps)
      (auto split: prod.splits result.splits option.splits if_splits)
qed

lemma window_extends: "write_initial_window_size c ws cn = (Ok u, cn') \<Longrightarrow> extends_out cn cn'"
  by (auto simp: write_initial_window_size_def split: option.splits dest!: send_body_asks asks_extends)

lemma send_new_session_asks: "send_new_session c ws cn = (Ok u, cn') \<Longrightarrow> asks c NEW_SESSION BNewSessionRequest cn cn'"
  by (auto simp: send_new_session_def bind_io_Ok dest!: window_extends send_body_asks intro: extends_asks)

text \<open>The sessions that a list request yields are those of the list frame the broker sent.\<close>

definition listed :: "codec \<Rightarrow> conn \<Rightarrow> SessionInfo list \<Rightarrow> bool" where
  "listed c cn sessions \<longleftrightarrow>
     (\<exists>cn1 f cn2 records.
        cn_in cn1 = cn_in cn \<and> read_expected_broker_frame SESSION_LIST cn1 = (Ok f, cn2) \<and>
        decode_SessionList c f = Ok records \<and> map from_record records = map Ok sessions)"

lemma request_session_list_Ok:
  assumes "request_session_list c k cn = (Ok sessions, cn')"
  shows "listed c cn sessions" and "extends_out cn cn'"
proof -
  obtain u cn1 f cn2 list where r: "send_body c SESSION_LIST_REQUEST (BSessionListRequest k) cn = (Ok u, cn1)"
      "read_expected_broker_frame SESSION_LIST cn1 = (Ok f, cn2)" "decode_SessionList c f = Ok list"
      "collect_results (map from_record list) = Ok sessions" "cn' = cn2"
    using assms by (auto simp: request_session_list_def bind_io_Ok decoded_def)
  show "listed c cn sessions"
    using r(2-4) send_body_in [OF r(1)] by (auto simp: listed_def collect_results_Ok_iff)
  show "extends_out cn cn'"
    using asks_extends [OF send_body_asks [OF r(1)]] read_expected_broker_frame_out [OF r(2)] r(5)
    by (simp add: extends_out_def)
qed

lemma prompt_answer_out: "prompt_answer cn = (res, cn') \<Longrightarrow> cn_out cn' = cn_out cn \<and> cn_in cn' = cn_in cn"
  by (auto simp: prompt_answer_def read_line_def split: prod.splits result.splits list.splits)

lemma prompt_session_selection_Ok:
  assumes "prompt_session_selection c sessions ws cn = (Ok sel, cn')"
  shows "case sel of
           NewAlreadySent \<Rightarrow> asks c NEW_SESSION BNewSessionRequest cn cn'
         | SelectAttach i \<Rightarrow> extends_out cn cn' \<and> (\<exists>s\<in>set sessions. is_selectable s \<and> info_id s = i)"
proof -
  obtain answer cn1 where p: "prompt_answer cn = (Ok answer, cn1)"
    using assms by (auto simp: prompt_session_selection_def bind_io_Ok)
  then have e: "extends_out cn cn1" using prompt_answer_out by (simp add: extends_out_def)
  show ?thesis
  proof (cases "answer = ''n''")
    case True
    then show ?thesis
      using assms p e by (auto simp: prompt_session_selection_def bind_io_Ok intro: extends_asks send_new_session_asks)
  next
    case False
    then obtain n where n: "0 < n" "n - 1 < length (filter is_selectable sessions)"
        "sel = SelectAttach (info_id (filter is_selectable sessions ! (n - 1)))" "cn' = cn1"
      using assms p by (auto simp: prompt_session_selection_def bind_io_def Let_def split: option.splits if_splits)
    then have "filter is_selectable sessions ! (n - 1) \<in> set (filter is_selectable sessions)" by (intro nth_mem)
    then show ?thesis using n(3,4) e by auto
  qed
qed

lemma select_session_Ok:
  assumes "select_session c ws cn = (Ok sel, cn')"
  shows "case sel of
           NewAlreadySent \<Rightarrow> asks c NEW_SESSION BNewSessionRequest cn cn'
         | SelectAttach i \<Rightarrow> extends_out cn cn' \<and>
             (\<exists>sessions. listed c cn sessions \<and> (\<exists>s\<in>set sessions. is_selectable s \<and> info_id s = i))"
proof -
  obtain sessions cn1 where l: "request_session_list c True cn = (Ok sessions, cn1)"
    using assms by (auto simp: select_session_def bind_io_Ok)
  note r = request_session_list_Ok [OF l]
  show ?thesis
  proof (cases "auto_select sessions")
    case SelNewSession
    then show ?thesis
      using assms l r(2)
      by (auto simp: select_session_def bind_io_Ok intro: extends_asks send_new_session_asks)
  next
    case (SelAttach i)
    then obtain s where s: "filter is_selectable sessions = [s]" "info_id s = i"
      by (auto simp: auto_select_def split: list.splits if_splits)
    have "s \<in> set (filter is_selectable sessions)" unfolding s(1) by simp
    then have "\<exists>sessions. listed c cn sessions \<and> (\<exists>s\<in>set sessions. is_selectable s \<and> info_id s = i)"
      using r(1) s(2) by auto
    moreover have "sel = SelectAttach i" "cn' = cn1" using assms l SelAttach by (simp_all add: select_session_def bind_io_def)
    ultimately show ?thesis using r by auto
  next
    case SelPrompt
    then have "prompt_session_selection c sessions ws cn1 = (Ok sel, cn')"
      using assms l by (simp add: select_session_def bind_io_def)
    from prompt_session_selection_Ok [OF this] show ?thesis
      using r by (auto split: InitialClientSelection.splits intro: extends_asks extends_out_trans)
  qed
qed

text \<open>The broker's list, read from this stream, has a session that no client is attached to.\<close>

definition listed_free :: "codec \<Rightarrow> conn \<Rightarrow> string \<Rightarrow> bool" where
  "listed_free c cn i \<longleftrightarrow>
     (\<exists>cn1 f cn2 records r.
        cn_in cn1 = cn_in cn \<and> read_expected_broker_frame SESSION_LIST cn1 = (Ok f, cn2) \<and>
        decode_SessionList c f = Ok records \<and> r \<in> set records \<and> rec_session_id r = i \<and> \<not> rec_attached r)"

lemma from_record_Ok:
  "from_record r = Ok s \<Longrightarrow> info_id s = rec_session_id r \<and> (is_selectable s \<longleftrightarrow> \<not> rec_attached r)"
  by (auto simp: from_record_def session_id_new_def is_selectable_def is_free_def split: result.splits if_splits)

lemma listed_free:
  assumes "listed c cn sessions" "s \<in> set sessions" "is_selectable s"
  shows "listed_free c cn (info_id s)"
proof -
  obtain cn1 f cn2 records where l: "cn_in cn1 = cn_in cn" "read_expected_broker_frame SESSION_LIST cn1 = (Ok f, cn2)"
      "decode_SessionList c f = Ok records" "map from_record records = map Ok sessions"
    using assms(1) by (auto simp: listed_def)
  have "Ok s \<in> set (map from_record records)" using assms(2) unfolding l(4) by simp
  then obtain r where r: "r \<in> set records" "from_record r = Ok s" by (auto dest: sym)
  show ?thesis
    unfolding listed_free_def using l(1-3) r(1) from_record_Ok [OF r(2)] assms(3) by fastforce
qed

lemma initial_attach_Ok:
  assumes "initial_attach c args ws cn = (Ok res, cn')"
  shows "case res of
           InitialAttached (Some i) \<Rightarrow>
             asks c ATTACH_SESSION (BAttachSessionRequest i) cn cn' \<and>
             (if ca_session args = None then listed_free c cn i else ca_session args = Some i)
         | InitialAttached None \<Rightarrow> ca_session args = None \<and> asks c NEW_SESSION BNewSessionRequest cn cn'
         | _ \<Rightarrow> False"
proof -
  obtain sel cn1 where s: "(case ca_session args of Some i \<Rightarrow> (Ok (SelectAttach i), cn) | None \<Rightarrow> select_session c ws cn) =
      (Ok sel, cn1)"
    using assms by (auto simp: initial_attach_def bind_io_Ok)
  have chosen: "case sel of
      NewAlreadySent \<Rightarrow> ca_session args = None \<and> asks c NEW_SESSION BNewSessionRequest cn cn1
    | SelectAttach i \<Rightarrow> extends_out cn cn1 \<and> (if ca_session args = None then listed_free c cn i else ca_session args = Some i)"
  proof (cases "ca_session args")
    case None
    then have "select_session c ws cn = (Ok sel, cn1)" using s by simp
    from select_session_Ok [OF this] show ?thesis
      using None by (auto split: InitialClientSelection.splits dest: listed_free)
  next
    case (Some i)
    then show ?thesis using s by auto
  qed
  show ?thesis
  proof (cases sel)
    case NewAlreadySent
    then show ?thesis using assms s chosen by (auto simp: initial_attach_def bind_io_Ok)
  next
    case (SelectAttach i)
    then obtain u cn2 where w: "write_initial_window_size c ws cn1 = (Ok u, cn2)"
        "send_body c ATTACH_SESSION (BAttachSessionRequest i) cn2 = (Ok (), cn')" "res = InitialAttached (Some i)"
      using assms s by (auto simp: initial_attach_def bind_io_Ok)
    have "extends_out cn cn2" using SelectAttach chosen window_extends [OF w(1)] by (auto intro: extends_out_trans)
    then show ?thesis using SelectAttach chosen send_body_asks [OF w(2)] w(3) by (auto intro: extends_asks)
  qed
qed

lemma select_detach_connect_extends:
  assumes "select_detach_connect_session c cn = (Ok i, cn')"
  shows "extends_out cn cn'"
proof -
  obtain sessions cn1 where l: "request_session_list c True cn = (Ok sessions, cn1)"
      "(case auto_select_existing sessions of
          ExNone \<Rightarrow> (Err NoSessionsForDetachConnect, cn1)
        | ExAttach session_id \<Rightarrow> (Ok session_id, cn1)
        | ExPrompt \<Rightarrow> prompt_detach_connect_selection sessions cn1) = (Ok i, cn')"
    using assms by (auto simp: select_detach_connect_session_def bind_io_Ok)
  have "prompt_detach_connect_selection sessions cn1 = (Ok i, cn') \<Longrightarrow> cn_out cn' = cn_out cn1"
    by (auto simp: prompt_detach_connect_selection_def bind_io_Ok dest!: prompt_answer_out split: option.splits if_splits)
  then have "cn_out cn' = cn_out cn1" using l(2) by (auto split: ExistingSelection.splits)
  then show ?thesis using request_session_list_Ok(2) [OF l(1)] by (simp add: extends_out_def)
qed

lemma initial_detach_connect_Ok:
  assumes "initial_detach_connect c args cn = (Ok res, cn')"
  shows "\<exists>i. res = InitialDetachedForConnect i \<and> asks c DETACH (BDetachSessionRequest i) cn cn' \<and>
           (\<forall>j. ca_session args = Some j \<longrightarrow> i = j)"
  using assms
  by (auto simp: initial_detach_connect_def bind_io_Ok split: option.splits
      dest!: send_body_asks select_detach_connect_extends intro: extends_asks)

section \<open>Properties\<close>

text \<open>
  The client finds the start of the protocol behind anything the remote side prints. After any
  number of lines that do not begin with \<open>OBI-\<close>, whatever bytes they hold, the ready marker ends the
  wait with success and the stream is left exactly behind its line, so that no byte of the first frame
  is lost. The install marker is answered with \<open>OBI-INSTALL-OK\<close> exactly when the user agrees, and the wait
  goes on; otherwise the wait ends with \<open>InstallDeclined\<close> and nothing is sent.
\<close>

theorem bootstrap_dialogue:
  assumes "list_all noise ls" and "wr_budget (cn_out cn) = None"
  shows "wait_for_bootstrap (cn\<lparr>cn_in := stream_lines ls @ marker_line READY_MARKER cr @ r\<rparr>) = (Ok (), cn\<lparr>cn_in := r\<rparr>) \<and>
    wait_for_bootstrap (cn\<lparr>cn_stdin := Ok answer # answers,
                           cn_in := stream_lines ls @ marker_line INSTALL_REQUIRED_MARKER cr @ r\<rparr>) =
      (if affirmative answer then
         wait_for_bootstrap (cn\<lparr>cn_in := r, cn_stdin := answers,
           cn_out := (cn_out cn)\<lparr>wr_out := wr_out (cn_out cn) @ bytes_of (INSTALL_OK_MARKER @ [CHR 0x0A])\<rparr>\<rparr>)
       else (Err InstallDeclined, cn\<lparr>cn_in := r, cn_stdin := answers\<rparr>))" (is "?ready \<and> ?install = ?answered")
proof
  show ?ready
    using wait_noise [OF assms(1), of "cn\<lparr>cn_in := stream_lines ls @ marker_line READY_MARKER cr @ r\<rparr>"]
      wait_ready [of "cn\<lparr>cn_in := marker_line READY_MARKER cr @ r\<rparr>"]
    by simp
  let ?cn = "cn\<lparr>cn_stdin := Ok answer # answers, cn_in := marker_line INSTALL_REQUIRED_MARKER cr @ r\<rparr>"
  have "?install = wait_for_bootstrap ?cn"
    by (subst wait_noise [OF assms(1)]) (simp_all)
  also have "\<dots> = ?answered"
    using wait_install [of ?cn cr r answer answers] assms(2) by (cases cn) simp
  finally show "?install = ?answered" .
qed

definition demo_conn :: conn where
  "demo_conn = \<lparr>cn_in = [], cn_out = empty_writer, cn_stdin = [], cn_stdout = []\<rparr>"

theorem bootstrap_dialogue_witness:
  "wait_for_bootstrap (demo_conn\<lparr>cn_in := stream_lines [[200, 72, 105], []] @ marker_line READY_MARKER True @ [Byte 1]\<rparr>) =
     (Ok (), demo_conn\<lparr>cn_in := [Byte 1]\<rparr>)"
  using bootstrap_dialogue [of "[[200, 72, 105], []]" demo_conn True "[Byte 1]" "[]" "[]"]
  by (simp add: noise_def OBI_bytes(2) demo_conn_def empty_writer_def)


definition demo_detach_args :: ClientArgs where
  "demo_detach_args = \<lparr>ca_action = Detach, ca_session = Some ''p'', ca_ssh_args = [], ca_destination = ''host''\<rparr>"

definition demo_codec :: codec where
  "demo_codec = \<lparr>cbor_enc = (\<lambda>b. case b of BDetachSessionRequest i \<Rightarrow> Some (bytes_of i) | _ \<Rightarrow> None),
     cbor_dec = (\<lambda>k bs. None)\<rparr>"


end
