(* ===== verification/Reconnect.thy ===== *)
theory Reconnect
  imports Handshake
begin

text \<open>
  One connection attempt and the reconnect loop of the client: \<open>run_client\<close>, \<open>run_client_attempt\<close>
  and the delays of \<open>src/src/client.rs\<close>. What an \<open>ssh\<close> process does is a function of its
  command line. The loop is stated over a function that makes an attempt; the locale
  \<open>session_attempts\<close> says what it relies on, and \<open>run_client_attempt\<close> interprets it. Durations are in
  nanoseconds. The pause of the terminal input between attempts is left out.
\<close>

section \<open>Delays\<close>

definition RECONNECT_INITIAL_DELAY :: nat where
  "RECONNECT_INITIAL_DELAY = nanos 1"

definition RECONNECT_MAX_DELAY :: nat where
  "RECONNECT_MAX_DELAY = nanos 120"

definition RECONNECT_SLEEP_QUANTUM :: nat where
  "RECONNECT_SLEEP_QUANTUM = nanos 1"

definition duration_max :: nat where
  "duration_max = nanos (2 ^ 64 - 1) + 999999999"

definition duration_saturating_mul :: "nat \<Rightarrow> nat \<Rightarrow> nat" where
  "duration_saturating_mul d n = min (d * n) duration_max"

definition duration_saturating_add :: "nat \<Rightarrow> nat \<Rightarrow> nat" where
  "duration_saturating_add d e = min (d + e) duration_max"

definition checked_shl_one :: "u32 \<Rightarrow> u32 option" where
  "checked_shl_one n = (if unat n < 32 then Some (push_bit (unat n) 1) else None)"

definition reconnect_delay_for_attempt :: "u32 \<Rightarrow> nat" where
  "reconnect_delay_for_attempt attempt =
     (let multiplier = (case checked_shl_one (saturating_sub_word attempt 1) of None \<Rightarrow> - 1 | Some m \<Rightarrow> m) in
      min (duration_saturating_mul RECONNECT_INITIAL_DELAY (unat multiplier)) RECONNECT_MAX_DELAY)"

definition next_reconnect_delay :: "u32 \<Rightarrow> nat \<times> u32" where
  "next_reconnect_delay attempts =
     (let attempts = saturating_add_word attempts 1 in (reconnect_delay_for_attempt attempts, attempts))"

record ReconnectDeadline =
  suspend_aware :: "nat option"
  monotonic :: nat

definition with_now :: "nat \<Rightarrow> nat option \<Rightarrow> nat \<Rightarrow> ReconnectDeadline" where
  "with_now delay aware instant =
     \<lparr>suspend_aware = map_option (\<lambda>now. duration_saturating_add now delay) aware, monotonic = instant + delay\<rparr>"

definition remaining_at :: "ReconnectDeadline \<Rightarrow> nat option \<Rightarrow> nat \<Rightarrow> nat" where
  "remaining_at deadline aware instant =
     (case (suspend_aware deadline, aware) of
        (Some d, Some now) \<Rightarrow> d - now
      | _ \<Rightarrow> monotonic deadline - instant)"

text \<open>
  The loop of \<open>sleep_for_reconnect\<close> on the clock readings of its turns: the sleeps it makes, or \<open>None\<close>
  when it has not returned within these readings.
\<close>

fun sleep_loop :: "ReconnectDeadline \<Rightarrow> (nat option \<times> nat) list \<Rightarrow> nat list option" where
  "sleep_loop deadline [] = None"
| "sleep_loop deadline ((aware, instant) # readings) =
     (let remaining = remaining_at deadline aware instant in
      if remaining = 0 then Some []
      else map_option ((#) (min remaining RECONNECT_SLEEP_QUANTUM)) (sleep_loop deadline readings))"

definition sleep_for_reconnect :: "nat \<Rightarrow> nat option \<times> nat \<Rightarrow> (nat option \<times> nat) list \<Rightarrow> nat list option" where
  "sleep_for_reconnect delay start readings = sleep_loop (with_now delay (fst start) (snd start)) readings"

section \<open>Which errors are retried\<close>

definition is_ambiguous_disconnect :: "ClientRunError \<Rightarrow> bool" where
  "is_ambiguous_disconnect e =
     (case e of
        UnexpectedBrokerEof \<Rightarrow> True
      | KeepaliveTimeout \<Rightarrow> True
      | CProtocol (Io _) \<Rightarrow> True
      | CProtocol TruncatedHeader \<Rightarrow> True
      | CProtocol (TruncatedPayload _ _) \<Rightarrow> True
      | _ \<Rightarrow> False)"

definition is_retryable_reconnect_error :: "ClientRunError \<Rightarrow> bool" where
  "is_retryable_reconnect_error e \<longleftrightarrow>
     is_ambiguous_disconnect e \<or>
     (case e of
        SpawnSsh _ \<Rightarrow> True
      | MissingChildStdin \<Rightarrow> True
      | MissingChildStdout \<Rightarrow> True
      | UnexpectedBootstrapEof \<Rightarrow> True
      | ReadBootstrap _ \<Rightarrow> True
      | WriteBootstrap _ \<Rightarrow> True
      | WaitSsh _ \<Rightarrow> True
      | ReconnectDetachFailed \<Rightarrow> True
      | _ \<Rightarrow> False)"

definition reconnect_busy_session :: "ClientRunError \<Rightarrow> string option \<Rightarrow> bool \<Rightarrow> string option" where
  "reconnect_busy_session e known reconnecting =
     (case e of
        SessionBusy session_id \<Rightarrow> if reconnecting \<and> known = Some session_id then Some session_id else None
      | _ \<Rightarrow> None)"

definition reconnect_detach_args :: "ClientArgs \<Rightarrow> string \<Rightarrow> ClientArgs" where
  "reconnect_detach_args args session_id = args\<lparr>ca_action := Detach, ca_session := Some session_id\<rparr>"

definition reconnect_attach_args :: "ClientArgs \<Rightarrow> string \<Rightarrow> ClientArgs" where
  "reconnect_attach_args args session_id = args\<lparr>ca_action := Attach, ca_session := Some session_id\<rparr>"

section \<open>One attempt\<close>

datatype ClientAttemptResult =
    AttemptControl u8
  | AttemptDetachedForConnect string u8
  | AttemptAttached ended

text \<open>
  An \<open>ssh\<close> process and the terminal: whether it starts and its pipes are there, what its streams
  hold, the window size, \<open>ensure_attached_io\<close>, the turns of the attached session, and the exit status of the process,
  which may depend on whether it was killed.
\<close>

record ssh_process =
  sp_spawn :: "(unit, io_error) result"
  sp_stdin :: bool
  sp_stdout :: bool
  sp_conn :: conn
  sp_window :: "(WindowSize option, io_error) result"
  sp_attached_io :: "(unit, ClientRunError) result"
  sp_start :: turn
  sp_turns :: "turn list"
  sp_wait :: "bool \<Rightarrow> (int option, io_error) result"

type_synonym ssh = "string list \<Rightarrow> ssh_process"

text \<open>What the attempt takes from its surroundings.\<close>

record client_env =
  ce_codec :: codec
  ce_display_time :: "SystemTime \<Rightarrow> string"
  ce_script :: string
  ce_version :: string
  ce_term :: "string option"

definition server_args_for_action :: "ClientArgs \<Rightarrow> string list" where
  "server_args_for_action args = []"

definition ssh_words :: "client_env \<Rightarrow> ClientArgs \<Rightarrow> string list" where
  "ssh_words env args =
     ssh_command_args args
       (remote_shell_command (ce_script env) (ce_version env) (server_args_for_action args)
          (terminal_type_from_env (ce_term env)))"

definition initial_window_size :: "ClientArgs \<Rightarrow> string list \<Rightarrow> ssh_process \<Rightarrow> (WindowSize option, ClientRunError) result" where
  "initial_window_size args capabilities p =
     (if ca_action args \<in> {Attach, New} \<and> CAP_INITIAL_WINDOW_SIZE_V1 \<in> set capabilities
      then map_err CWindowSize (sp_window p) else Ok None)"

text \<open>The client up to its first request: the shared capabilities and the result of the request.\<close>

definition open_connection ::
  "client_env \<Rightarrow> ClientArgs \<Rightarrow> ssh_process \<Rightarrow> (string list \<times> InitialActionResult, client_stop) result" where
  "open_connection env args p =
     (case sp_spawn p of
        Err e \<Rightarrow> Err (Raised (SpawnSsh e))
      | Ok _ \<Rightarrow>
          if \<not> sp_stdin p then Err (Raised MissingChildStdin)
          else if \<not> sp_stdout p then Err (Raised MissingChildStdout)
          else
            (case wait_for_bootstrap (sp_conn p) of
               (Err e, _) \<Rightarrow> Err (Raised e)
             | (Ok _, cn) \<Rightarrow>
                 (case exchange_capabilities (ce_codec env) cn of
                    (Err e, _) \<Rightarrow> Err (Raised e)
                  | (Ok capabilities, cn) \<Rightarrow>
                      (case initial_window_size args capabilities p of
                         Err e \<Rightarrow> Err (Raised e)
                       | Ok window_size \<Rightarrow>
                           (case handle_initial_action (ce_codec env) (ce_display_time env) args window_size cn of
                              (Err e, _) \<Rightarrow> Err e
                            | (Ok action, _) \<Rightarrow> Ok (capabilities, action))))))"

definition attached_attempt ::
  "client_env \<Rightarrow> string list \<Rightarrow> string option \<Rightarrow> u64 \<Rightarrow> ssh_process \<Rightarrow> (ClientAttemptResult, client_stop) result option" where
  "attached_attempt env capabilities session_id attempt_id p =
     (case sp_attached_io p of
        Err e \<Rightarrow> Some (Err (Raised e))
      | Ok _ \<Rightarrow>
          (case run_attached_session (ce_codec env) session_id attempt_id (CAP_KEEPALIVE_V1 \<in> set capabilities)
                  (sp_start p) (sp_turns p) of
             Going _ \<Rightarrow> None
           | Ended _ r \<Rightarrow>
               (case sp_wait p (case r of Err (_, KeepaliveTimeout) \<Rightarrow> True | _ \<Rightarrow> False) of
                  Err e \<Rightarrow> Some (Err (Raised (WaitSsh e)))
                | Ok status \<Rightarrow>
                    Some (Ok (AttemptAttached
                      (case r of Ok code \<Rightarrow> Ok (exit_code_with_ssh_status code status) | Err failure \<Rightarrow> Err failure))))))"

definition run_client_attempt ::
  "client_env \<Rightarrow> ClientArgs \<Rightarrow> u64 \<Rightarrow> ssh \<Rightarrow> (ClientAttemptResult, client_stop) result option" where
  "run_client_attempt env args attempt_id ssh =
     (let p = ssh (ssh_words env args) in
      case open_connection env args p of
        Err e \<Rightarrow> Some (Err e)
      | Ok (capabilities, action) \<Rightarrow>
          (case action of
             InitialControl code \<Rightarrow>
               (case sp_wait p False of
                  Err e \<Rightarrow> Some (Err (Raised (WaitSsh e)))
                | Ok status \<Rightarrow> Some (Ok (AttemptControl (exit_code_with_ssh_status code status))))
           | InitialDetachedForConnect session_id \<Rightarrow>
               (case sp_wait p False of
                  Err e \<Rightarrow> Some (Err (Raised (WaitSsh e)))
                | Ok status \<Rightarrow>
                    Some (Ok (AttemptDetachedForConnect session_id (exit_code_with_ssh_status 0 status))))
           | InitialAttached session_id \<Rightarrow> attached_attempt env capabilities session_id attempt_id p))"

section \<open>The reconnect loop\<close>

type_synonym 'p attempt = "ClientArgs \<Rightarrow> u64 \<Rightarrow> 'p \<Rightarrow> (ClientAttemptResult, client_stop) result option"

text \<open>The variables of the loop, and the delays slept so far.\<close>

record reconnect =
  rc_args :: ClientArgs
  rc_known :: "string option"
  rc_attempts :: u32
  rc_recovering :: bool
  rc_attempt_id :: u64
  rc_slept :: "nat list"

datatype client_progress =
    Again reconnect
  | Waiting
  | Finished "(u8, client_stop) result"

definition detach_stale_client_for_reconnect ::
  "'p attempt \<Rightarrow> ClientArgs \<Rightarrow> string \<Rightarrow> 'p \<Rightarrow> (unit, client_stop) result option" where
  "detach_stale_client_for_reconnect attempt args session_id p =
     (case attempt (reconnect_detach_args args session_id) 0 p of
        None \<Rightarrow> None
      | Some (Err e) \<Rightarrow> Some (Err e)
      | Some (Ok (AttemptControl code)) \<Rightarrow>
          Some (if code = 0 then Ok () else Err (Raised ReconnectDetachFailed))
      | Some (Ok _) \<Rightarrow> Some (Err Panicked))"

definition back_off :: "reconnect \<Rightarrow> reconnect" where
  "back_off st =
     (let (delay, attempts) = next_reconnect_delay (rc_attempts st) in
      st\<lparr>rc_attempts := attempts, rc_slept := rc_slept st @ [delay]\<rparr>)"

definition busy_round :: "'p attempt \<Rightarrow> ClientArgs \<Rightarrow> string \<Rightarrow> 'p \<Rightarrow> reconnect \<Rightarrow> client_progress" where
  "busy_round attempt args session_id p st =
     (case detach_stale_client_for_reconnect attempt args session_id p of
        None \<Rightarrow> Waiting
      | Some (Err Panicked) \<Rightarrow> Finished (Err Panicked)
      | Some (Err (Raised source)) \<Rightarrow>
          if is_retryable_reconnect_error source
          then Again ((back_off st)\<lparr>rc_args := reconnect_attach_args args session_id\<rparr>)
          else Finished (Err (Raised (ReconnectFailed session_id source)))
      | Some (Ok _) \<Rightarrow> Again ((back_off st)\<lparr>rc_args := reconnect_attach_args args session_id\<rparr>))"

definition lost_round :: "ClientArgs \<Rightarrow> string option \<Rightarrow> ClientRunError \<Rightarrow> reconnect \<Rightarrow> client_progress" where
  "lost_round args confirmed e st =
     (case (case confirmed of Some s \<Rightarrow> Some s | None \<Rightarrow> rc_known st) of
        None \<Rightarrow> Finished (Err (Raised (ConnectionLostBeforeSessionKnown e)))
      | Some session_id \<Rightarrow>
          Again ((back_off (st\<lparr>rc_attempts := (if confirmed \<noteq> None then 0 else rc_attempts st),
                               rc_recovering := True, rc_known := Some session_id\<rparr>))
                 \<lparr>rc_args := reconnect_attach_args args session_id\<rparr>))"

definition attached_round :: "'p attempt \<Rightarrow> ClientArgs \<Rightarrow> 'p \<Rightarrow> ended \<Rightarrow> reconnect \<Rightarrow> client_progress" where
  "attached_round attempt args p r st =
     (case r of
        Ok exit_code \<Rightarrow> Finished (Ok exit_code)
      | Err (confirmed, e) \<Rightarrow>
          (case reconnect_busy_session e (rc_known st) (rc_recovering st) of
             Some session_id \<Rightarrow> busy_round attempt args session_id p st
           | None \<Rightarrow>
               if is_ambiguous_disconnect e then lost_round args confirmed e st
               else Finished (Err (Raised e))))"

text \<open>A round has the surroundings of the attempt and those of the detach request that may follow.\<close>

definition client_round :: "'p attempt \<Rightarrow> ClientArgs \<Rightarrow> 'p \<times> 'p \<Rightarrow> reconnect \<Rightarrow> client_progress" where
  "client_round attempt args ps st0 =
     (let st = st0\<lparr>rc_attempt_id := saturating_add_word (rc_attempt_id st0) 1\<rparr> in
      case attempt (rc_args st) (rc_attempt_id st) (fst ps) of
        None \<Rightarrow> Waiting
      | Some (Err Panicked) \<Rightarrow> Finished (Err Panicked)
      | Some (Err (Raised e)) \<Rightarrow>
          if rc_recovering st \<and> is_retryable_reconnect_error e
          then (case rc_known st of None \<Rightarrow> Finished (Err Panicked) | Some session_id \<Rightarrow> Again (back_off st))
          else Finished (Err (Raised e))
      | Some (Ok (AttemptAttached r)) \<Rightarrow> attached_round attempt args (snd ps) r st
      | Some (Ok _) \<Rightarrow> Finished (Err Panicked))"

fun client_loop :: "'p attempt \<Rightarrow> ClientArgs \<Rightarrow> ('p \<times> 'p) list \<Rightarrow> reconnect \<Rightarrow> client_progress" where
  "client_loop attempt args [] st = Again st"
| "client_loop attempt args (ps # pss) st =
     (case client_round attempt args ps st of
        Again st' \<Rightarrow> client_loop attempt args pss st'
      | p \<Rightarrow> p)"

definition start_loop :: "ClientArgs \<Rightarrow> bool \<Rightarrow> reconnect" where
  "start_loop initial_args recovering =
     \<lparr>rc_args = initial_args, rc_known = ca_session initial_args, rc_attempts = 0, rc_recovering = recovering,
      rc_attempt_id = 0, rc_slept = []\<rparr>"

definition run_client ::
  "'p attempt \<Rightarrow> ClientArgs \<Rightarrow> 'p \<Rightarrow> ('p \<times> 'p) list \<Rightarrow> client_progress" where
  "run_client attempt args first rounds =
     (if ca_action args = Version then Finished (Ok 0)
      else if ca_action args \<in> {List, Detach} then
        (case attempt args 0 first of
           None \<Rightarrow> Waiting
         | Some (Err e) \<Rightarrow> Finished (Err e)
         | Some (Ok (AttemptControl code)) \<Rightarrow> Finished (Ok code)
         | Some (Ok _) \<Rightarrow> Finished (Err Panicked))
      else if ca_action args = DetachConnect then
        (case attempt args 0 first of
           None \<Rightarrow> Waiting
         | Some (Err e) \<Rightarrow> Finished (Err e)
         | Some (Ok (AttemptDetachedForConnect session_id exit_code)) \<Rightarrow>
             if exit_code \<noteq> 0 then Finished (Ok exit_code)
             else client_loop attempt args rounds (start_loop (reconnect_attach_args args session_id) True)
         | Some (Ok _) \<Rightarrow> Finished (Err Panicked))
      else client_loop attempt args rounds (start_loop args False))"

section \<open>Lemmas\<close>

subsection \<open>Delays\<close>

lemma unat_shl_one: "n < 32 \<Longrightarrow> unat (2 ^ n :: u32) = 2 ^ n"
proof -
  assume "n < 32"
  then have "(2 :: nat) ^ n < 2 ^ 32" by (intro power_strict_increasing) simp_all
  then have "unat (word_of_nat (2 ^ n) :: u32) = 2 ^ n" by (simp only: unat_of_nat) simp
  then show ?thesis by simp
qed

lemma reconnect_delay_nat:
  assumes "1 \<le> n" "n < 2 ^ 32"
  shows "reconnect_delay_for_attempt (word_of_nat n) = nanos (min (2 ^ (n - 1)) 120)"
proof -
  have u: "unat (saturating_sub_word (word_of_nat n) (1 :: u32)) = n - 1"
    using assms by (simp add: unat_saturating_sub_word unat_of_nat)
  show ?thesis
  proof (cases "n - 1 < 32")
    case True
    then have "reconnect_delay_for_attempt (word_of_nat n) = min (min (nanos 1 * 2 ^ (n - 1)) duration_max) (nanos 120)"
      by (simp add: reconnect_delay_for_attempt_def checked_shl_one_def u unat_shl_one duration_saturating_mul_def
          RECONNECT_INITIAL_DELAY_def RECONNECT_MAX_DELAY_def)
    also have "\<dots> = min (nanos 1 * 2 ^ (n - 1)) (nanos 120)"
      by (simp add: duration_max_def nanos_def min_def)
    finally show ?thesis by (simp add: nanos_def min_def)
  next
    case False
    then have "(2 :: nat) ^ 32 \<le> 2 ^ (n - 1)" by (intro power_increasing) simp_all
    then have "min (2 ^ (n - 1)) 120 = (120 :: nat)" by simp
    moreover have "unat (- 1 :: u32) = 4294967295" by (simp add: unsigned_minus_1_eq_mask mask_eq_exp_minus_1)
    ultimately show ?thesis
      using False by (simp add: reconnect_delay_for_attempt_def checked_shl_one_def u duration_saturating_mul_def
          RECONNECT_INITIAL_DELAY_def RECONNECT_MAX_DELAY_def duration_max_def nanos_def)
  qed
qed

subsection \<open>Sleeping\<close>

text \<open>
  A clock that advances while the thread sleeps, by at least the time slept: \<open>thread::sleep\<close> does not
  return early.
\<close>

definition sleeps_fully :: "nat \<Rightarrow> (nat \<Rightarrow> nat) \<Rightarrow> bool" where
  "sleeps_fully deadline clock \<longleftrightarrow>
     (\<forall>k. clock k + min (deadline - clock k) RECONNECT_SLEEP_QUANTUM \<le> clock (Suc k))"

lemma sleeps_fully_progress:
  "sleeps_fully d clock \<Longrightarrow> d - clock (j + k) \<le> d - clock j - k * RECONNECT_SLEEP_QUANTUM"
proof (induction k)
  case (Suc k)
  have "clock (j + k) + min (d - clock (j + k)) RECONNECT_SLEEP_QUANTUM \<le> clock (j + Suc k)"
    using Suc.prems by (simp add: sleeps_fully_def)
  then show ?case using Suc.IH [OF Suc.prems] by simp
qed simp

lemma sleep_loop_returns:
  assumes "\<exists>k<length readings. remaining_at d (fst (readings ! k)) (snd (readings ! k)) = 0"
  shows "sleep_loop d readings \<noteq> None"
  using assms
proof (induction readings)
  case (Cons p readings)
  obtain aware instant where p: "p = (aware, instant)" by fastforce
  obtain k where k: "k < length (p # readings)" "remaining_at d (fst ((p # readings) ! k)) (snd ((p # readings) ! k)) = 0"
    using Cons.prems by blast
  show ?case
  proof (cases k)
    case 0
    then show ?thesis using k p by simp
  next
    case (Suc j)
    then have "sleep_loop d readings \<noteq> None" using Cons.IH k by auto
    then show ?thesis using p by (auto simp: Let_def)
  qed
qed simp

lemma sleep_loop_Some:
  "sleep_loop d readings = Some ss \<Longrightarrow>
     length ss < length readings \<and>
     remaining_at d (fst (readings ! length ss)) (snd (readings ! length ss)) = 0 \<and>
     (\<forall>s\<in>set ss. 0 < s \<and> s \<le> RECONNECT_SLEEP_QUANTUM)"
proof (induction d readings arbitrary: ss rule: sleep_loop.induct)
  case (2 d aware instant readings)
  have q: "0 < RECONNECT_SLEEP_QUANTUM" by (simp add: RECONNECT_SLEEP_QUANTUM_def nanos_def)
  show ?case
  proof (cases "remaining_at d aware instant = 0")
    case True
    then show ?thesis using "2.prems" by simp
  next
    case False
    then obtain ts where ts: "sleep_loop d readings = Some ts" "ss = min (remaining_at d aware instant) RECONNECT_SLEEP_QUANTUM # ts"
      using "2.prems" by (auto simp: Let_def)
    then show ?thesis using "2.IH" [OF refl False ts(1)] False q by simp
  qed
qed simp

subsection \<open>Results of an attempt\<close>

definition fits :: "ClientAction \<Rightarrow> (ClientAttemptResult, client_stop) result \<Rightarrow> bool" where
  "fits action res =
     (case res of
        Err e \<Rightarrow> e \<noteq> Panicked
      | Ok (AttemptControl _) \<Rightarrow> action \<in> {List, Detach}
      | Ok (AttemptDetachedForConnect _ _) \<Rightarrow> action = DetachConnect
      | Ok (AttemptAttached _) \<Rightarrow> action \<in> {Attach, New})"

lemma fits_simps [simp]:
  "fits action (Err e) \<longleftrightarrow> e \<noteq> Panicked"
  "fits action (Ok (AttemptControl code)) \<longleftrightarrow> action \<in> {List, Detach}"
  "fits action (Ok (AttemptDetachedForConnect s code)) \<longleftrightarrow> action = DetachConnect"
  "fits action (Ok (AttemptAttached r)) \<longleftrightarrow> action \<in> {Attach, New}"
  by (simp_all add: fits_def)

definition action_fits :: "ClientAction \<Rightarrow> InitialActionResult \<Rightarrow> bool" where
  "action_fits action res =
     (case res of
        InitialControl _ \<Rightarrow> action \<in> {List, Detach}
      | InitialDetachedForConnect _ \<Rightarrow> action = DetachConnect
      | InitialAttached _ \<Rightarrow> action \<in> {Attach, New})"

lemma raising_Err [simp]: "raising p = (Err e, cn) \<longleftrightarrow> (\<exists>x. p = (Err x, cn) \<and> e = Raised x)"
  by (cases p, cases "fst p") (auto simp: raising_def)

lemma raising_Ok [simp]: "raising p = (Ok a, cn) \<longleftrightarrow> p = (Ok a, cn)"
  by (cases p, cases "fst p") (auto simp: raising_def)

lemma handle_initial_action_fits:
  assumes "ca_action args \<noteq> Version" "handle_initial_action c dt args ws cn = (res, cn')"
  shows "case res of Err e \<Rightarrow> e \<noteq> Panicked | Ok a \<Rightarrow> action_fits (ca_action args) a"
proof (cases res)
  case (Ok a)
  show ?thesis
  proof (cases "ca_action args")
    case Attach
    then have "initial_attach c args ws cn = (Ok a, cn')" using assms Ok by (simp add: handle_initial_action_def)
    from initial_attach_Ok [OF this] show ?thesis
      using Attach Ok by (auto simp: action_fits_def split: InitialActionResult.splits)
  next
    case DetachConnect
    then have "initial_detach_connect c args cn = (Ok a, cn')" using assms Ok by (simp add: handle_initial_action_def)
    from initial_detach_connect_Ok [OF this] show ?thesis
      using DetachConnect Ok by (auto simp: action_fits_def)
  qed (use assms Ok in \<open>auto simp: handle_initial_action_def initial_new_def initial_list_def initial_detach_def
      bind_io_Ok action_fits_def split: option.splits\<close>)
next
  case (Err e)
  then show ?thesis using assms by (auto simp: handle_initial_action_def split: ClientAction.splits)
qed

lemma open_connection_fits:
  assumes "ca_action args \<noteq> Version" "open_connection env args p = res"
  shows "case res of Err e \<Rightarrow> e \<noteq> Panicked | Ok (caps, a) \<Rightarrow> action_fits (ca_action args) a"
  using assms(2) unfolding open_connection_def
  by (auto split: result.splits prod.splits if_splits dest!: handle_initial_action_fits [OF assms(1)])

lemma attached_attempt_fits: "attached_attempt env caps s i p = Some res \<Longrightarrow> action \<in> {Attach, New} \<Longrightarrow> fits action res"
  by (auto simp: attached_attempt_def split: result.splits progress.splits)

lemma run_client_attempt_fits:
  assumes "ca_action args \<noteq> Version" "run_client_attempt env args i ssh = Some res"
  shows "fits (ca_action args) res"
proof (cases "open_connection env args (ssh (ssh_words env args))")
  case (Err e)
  then show ?thesis using open_connection_fits [OF assms(1) Err] assms(2) by (auto simp: run_client_attempt_def)
next
  case (Ok ca)
  obtain caps a where ca: "ca = (caps, a)" by fastforce
  have a: "action_fits (ca_action args) a" using open_connection_fits [OF assms(1) Ok] ca by simp
  show ?thesis
    using assms(2) Ok ca a
    by (auto simp: run_client_attempt_def action_fits_def split: InitialActionResult.splits result.splits
        intro: attached_attempt_fits)
qed

lemma open_connection_session:
  assumes "open_connection env args p = Ok (caps, InitialAttached i)" "ca_action args = Attach" "ca_session args = Some x"
  shows "i = Some x"
proof -
  obtain ws cn cn' where "handle_initial_action (ce_codec env) (ce_display_time env) args ws cn = (Ok (InitialAttached i), cn')"
    using assms(1) unfolding open_connection_def by (auto split: result.splits prod.splits if_splits)
  then have "initial_attach (ce_codec env) args ws cn = (Ok (InitialAttached i), cn')"
    using assms(2) by (simp add: handle_initial_action_def)
  from initial_attach_Ok [OF this] show ?thesis using assms(3) by (auto split: option.splits)
qed

lemma run_client_attempt_session:
  assumes "ca_action args = Attach" "ca_session args = Some x"
    and "run_client_attempt env args i ssh = Some (Ok (AttemptAttached (Err (confirmed, e))))"
  shows "confirmed \<in> {None, Some x}"
proof -
  let ?p = "ssh (ssh_words env args)"
  obtain caps j where o: "open_connection env args ?p = Ok (caps, InitialAttached j)"
      "attached_attempt env caps j i ?p = Some (Ok (AttemptAttached (Err (confirmed, e))))"
    using assms(3) by (auto simp: run_client_attempt_def Let_def split: result.splits InitialActionResult.splits prod.splits)
  have "j = Some x" using open_connection_session [OF o(1) assms(1,2)] .
  then obtain s where "run_attached_session (ce_codec env) (Some x) i (CAP_KEEPALIVE_V1 \<in> set caps)
      (sp_start ?p) (sp_turns ?p) = Ended s (Err (confirmed, e))"
    using o(2) by (auto simp: attached_attempt_def split: result.splits progress.splits)
  then show ?thesis by (rule confirmed_session_requested)
qed

subsection \<open>The loop over attempts\<close>

definition loop_inv :: "ClientArgs \<Rightarrow> reconnect \<Rightarrow> bool" where
  "loop_inv args st \<longleftrightarrow>
     ca_action (rc_args st) \<in> {Attach, New} \<and>
     (rc_recovering st \<longrightarrow> (\<exists>s. rc_known st = Some s \<and> rc_args st = reconnect_attach_args args s)) \<and>
     (\<forall>x. ca_action args = Attach \<and> ca_session args = Some x \<longrightarrow>
        rc_known st = Some x \<and> rc_args st = args)"

lemma back_off_simps [simp]:
  "rc_args (back_off st) = rc_args st" "rc_known (back_off st) = rc_known st"
  "rc_recovering (back_off st) = rc_recovering st"
  by (simp_all add: back_off_def next_reconnect_delay_def Let_def)

lemma reconnect_attach_args_simps [simp]:
  "ca_action (reconnect_attach_args args s) = Attach" "ca_session (reconnect_attach_args args s) = Some s"
  by (simp_all add: reconnect_attach_args_def)

lemma reconnect_attach_args_same:
  "ca_action args = Attach \<Longrightarrow> ca_session args = Some x \<Longrightarrow> reconnect_attach_args args x = args"
  by (simp add: reconnect_attach_args_def)

lemma loop_inv_start:
  "ca_action args \<in> {Attach, New} \<Longrightarrow> loop_inv args (start_loop args False)"
  "ca_action args = DetachConnect \<Longrightarrow> loop_inv args (start_loop (reconnect_attach_args args s) True)"
  by (auto simp: loop_inv_def start_loop_def)

lemma busy_session_known:
  "reconnect_busy_session e known recovering = Some s \<Longrightarrow> recovering \<and> known = Some s"
  by (auto simp: reconnect_busy_session_def split: ClientRunError.splits if_splits)

text \<open>What the loop relies on: results fit the action, and only the requested session is confirmed.\<close>

locale session_attempts =
  fixes attempt :: "'p attempt"
  assumes attempt_fits: "ca_action a \<noteq> Version \<Longrightarrow> attempt a i p = Some res \<Longrightarrow> fits (ca_action a) res"
    and attempt_session: "ca_action a = Attach \<Longrightarrow> ca_session a = Some x \<Longrightarrow>
      attempt a i p = Some (Ok (AttemptAttached (Err (confirmed, e)))) \<Longrightarrow> confirmed \<in> {None, Some x}"
begin

lemma detach_no_panic: "detach_stale_client_for_reconnect attempt args s p \<noteq> Some (Err Panicked)"
proof -
  have "ca_action (reconnect_detach_args args s) = Detach" by (simp add: reconnect_detach_args_def)
  then show ?thesis
    using attempt_fits [of "reconnect_detach_args args s" 0 p]
    by (auto simp: detach_stale_client_for_reconnect_def fits_def
        split: option.splits result.splits ClientAttemptResult.splits)
qed

lemma busy_round_no_panic: "busy_round attempt args s p st \<noteq> Finished (Err Panicked)"
  using detach_no_panic [of args s p]
  by (auto simp: busy_round_def split: option.splits result.splits client_stop.splits)

lemma attached_round_no_panic: "attached_round attempt args p r st \<noteq> Finished (Err Panicked)"
  using busy_round_no_panic
  by (auto simp: attached_round_def lost_round_def split: option.splits result.splits prod.splits)

lemma client_round_no_panic:
  assumes "loop_inv args st" shows "client_round attempt args ps st \<noteq> Finished (Err Panicked)"
proof -
  have a: "ca_action (rc_args st) \<in> {Attach, New}" "rc_recovering st \<Longrightarrow> rc_known st \<noteq> None"
    using assms by (auto simp: loop_inv_def)
  have f: "attempt (rc_args st) i (fst ps) = Some res \<Longrightarrow> fits (ca_action (rc_args st)) res" for i res
    using attempt_fits [of "rc_args st" i "fst ps" res] a(1) by auto
  show ?thesis
  proof (cases "attempt (rc_args st) (saturating_add_word (rc_attempt_id st) 1) (fst ps)")
    case None
    then show ?thesis by (simp add: client_round_def)
  next
    case (Some res)
    then show ?thesis
      using f [OF Some] a attached_round_no_panic
      by (auto simp: client_round_def Let_def fits_def split: result.splits client_stop.splits ClientAttemptResult.splits option.splits)
  qed
qed

lemma busy_round_keeps:
  assumes "busy_round attempt args s p st = Again st'"
  shows "st' = (back_off st)\<lparr>rc_args := reconnect_attach_args args s\<rparr>"
  using assms by (auto simp: busy_round_def split: option.splits result.splits client_stop.splits if_splits)

lemma attached_round_keeps:
  assumes inv: "loop_inv args st" and r: "attached_round attempt args p r st = Again st'"
    and conf: "\<And>confirmed e x. r = Err (confirmed, e) \<Longrightarrow> ca_action (rc_args st) = Attach \<Longrightarrow>
                 ca_session (rc_args st) = Some x \<Longrightarrow> confirmed \<in> {None, Some x}"
  shows "loop_inv args st' \<and> rc_recovering st' \<and> (rc_recovering st \<longrightarrow> rc_known st' = rc_known st)"
proof -
  obtain confirmed e where e: "r = Err (confirmed, e)"
    using r by (auto simp: attached_round_def split: result.splits)
  show ?thesis
  proof (cases "reconnect_busy_session e (rc_known st) (rc_recovering st)")
    case (Some s)
    then have st': "st' = (back_off st)\<lparr>rc_args := reconnect_attach_args args s\<rparr>"
      using r e busy_round_keeps by (simp add: attached_round_def)
    then show ?thesis
      using busy_session_known [OF Some] inv by (auto simp: loop_inv_def reconnect_attach_args_same)
  next
    case None
    then have l: "lost_round args confirmed e st = Again st'"
      using r e by (auto simp: attached_round_def split: if_splits)
    then obtain s where s: "(case confirmed of Some s \<Rightarrow> Some s | None \<Rightarrow> rc_known st) = Some s"
        "rc_known st' = Some s" "rc_recovering st'" "rc_args st' = reconnect_attach_args args s"
      by (auto simp: lost_round_def split: option.splits)
    have same: "s = x" if "ca_action (rc_args st) = Attach" "ca_session (rc_args st) = Some x" "rc_known st = Some x" for x
      using conf [OF e that(1,2)] that(3) s(1) by auto
    have "rc_recovering st \<longrightarrow> rc_known st' = rc_known st"
      using inv same s(2) by (auto simp: loop_inv_def)
    moreover have "loop_inv args st'"
      using inv same s by (auto simp: loop_inv_def reconnect_attach_args_same)
    ultimately show ?thesis using s(3) by simp
  qed
qed

lemma client_round_keeps:
  assumes inv: "loop_inv args st" and r: "client_round attempt args ps st = Again st'"
  shows "loop_inv args st' \<and> rc_recovering st' \<and> (rc_recovering st \<longrightarrow> rc_known st' = rc_known st)"
proof -
  let ?st = "st\<lparr>rc_attempt_id := saturating_add_word (rc_attempt_id st) 1\<rparr>"
  have i: "loop_inv args ?st" using inv by (simp add: loop_inv_def)
  show ?thesis
  proof (cases "attempt (rc_args ?st) (rc_attempt_id ?st) (fst ps)")
    case None
    then show ?thesis using r by (simp add: client_round_def)
  next
    case (Some res)
    show ?thesis
    proof (cases "\<exists>q. res = Ok (AttemptAttached q)")
      case True
      then obtain q where q: "res = Ok (AttemptAttached q)" by blast
      then have "attached_round attempt args (snd ps) q ?st = Again st'" using r Some by (simp add: client_round_def)
      moreover have "confirmed \<in> {None, Some x}"
        if "q = Err (confirmed, e)" "ca_action (rc_args ?st) = Attach" "ca_session (rc_args ?st) = Some x" for confirmed e x
        using attempt_session [OF that(2,3)] Some q that(1) by blast
      ultimately show ?thesis using attached_round_keeps [OF i, of "snd ps" q st'] by auto
    next
      case False
      then have "st' = back_off ?st" "rc_recovering st"
        using r Some by (auto simp: client_round_def Let_def split: result.splits client_stop.splits ClientAttemptResult.splits
            option.splits if_splits)
      then show ?thesis using i by (simp add: loop_inv_def)
    qed
  qed
qed

lemma client_loop_no_panic: "loop_inv args st \<Longrightarrow> client_loop attempt args pss st \<noteq> Finished (Err Panicked)"
proof (induction pss arbitrary: st)
  case (Cons ps pss)
  then show ?case
    using client_round_no_panic [OF Cons.prems, of ps] client_round_keeps [OF Cons.prems, of ps]
    by (cases "client_round attempt args ps st") auto
qed simp

lemma client_loop_keeps:
  assumes "loop_inv args st" "client_loop attempt args pss st = Again st'"
  shows "loop_inv args st' \<and> (rc_recovering st \<longrightarrow> rc_recovering st' \<and> rc_known st' = rc_known st)"
  using assms
proof (induction pss arbitrary: st)
  case (Cons ps pss)
  obtain st1 where st1: "client_round attempt args ps st = Again st1" "client_loop attempt args pss st1 = Again st'"
    using Cons.prems(2) by (cases "client_round attempt args ps st") auto
  from client_round_keeps [OF Cons.prems(1) st1(1)] Cons.IH [OF _ st1(2)] show ?case by auto
qed simp

lemma run_client_no_panic: "run_client attempt args first pss \<noteq> Finished (Err Panicked)"
proof -
  have f: "attempt args 0 first = Some res \<Longrightarrow> ca_action args \<noteq> Version \<Longrightarrow> fits (ca_action args) res" for res
    by (rule attempt_fits)
  have l: "client_loop attempt args pss (start_loop args False) \<noteq> Finished (Err Panicked)"
    if "ca_action args \<in> {Attach, New}"
    using client_loop_no_panic [OF loop_inv_start(1) [OF that]] .
  have d: "client_loop attempt args pss (start_loop (reconnect_attach_args args s) True) \<noteq> Finished (Err Panicked)"
    if "ca_action args = DetachConnect" for s
    using client_loop_no_panic [OF loop_inv_start(2) [OF that]] .
  show ?thesis
    using f l d
    by (cases "ca_action args")
       (auto simp: run_client_def split: option.splits result.splits ClientAttemptResult.splits if_splits)
qed

lemma run_client_inv:
  assumes "run_client attempt args first pss = Again st" shows "loop_inv args st"
proof (cases "ca_action args = DetachConnect")
  case True
  then obtain s where "client_loop attempt args pss (start_loop (reconnect_attach_args args s) True) = Again st"
    using assms by (auto simp: run_client_def split: option.splits result.splits ClientAttemptResult.splits if_splits)
  from client_loop_keeps [OF loop_inv_start(2) [OF True] this] show ?thesis ..
next
  case False
  then have "ca_action args \<in> {Attach, New}" "client_loop attempt args pss (start_loop args False) = Again st"
    using assms by (cases "ca_action args"; auto simp: run_client_def split: option.splits result.splits ClientAttemptResult.splits)+
  from client_loop_keeps [OF loop_inv_start(1) [OF this(1)] this(2)] show ?thesis ..
qed

lemma client_loop_append:
  "client_loop attempt args (pss @ qss) st =
     (case client_loop attempt args pss st of Again st' \<Rightarrow> client_loop attempt args qss st' | p \<Rightarrow> p)"
  by (induction pss arbitrary: st) (auto split: client_progress.split)

lemma run_client_append:
  assumes "run_client attempt args first pss = Again st"
  shows "run_client attempt args first (pss @ qss) = client_loop attempt args qss st"
  using assms
  by (auto simp: run_client_def client_loop_append split: option.splits result.splits ClientAttemptResult.splits if_splits)

lemma run_client_sticks:
  assumes "run_client attempt args first pss = Again st" "rc_recovering st"
    and "run_client attempt args first (pss @ qss) = Again st'"
  shows "rc_recovering st' \<and> (\<exists>s. rc_known st = Some s \<and> rc_known st' = Some s \<and> rc_args st' = reconnect_attach_args args s)"
proof -
  have "client_loop attempt args qss st = Again st'" using assms(3) run_client_append [OF assms(1)] by simp
  from client_loop_keeps [OF run_client_inv [OF assms(1)] this] show ?thesis
    using assms(2) run_client_inv [OF assms(1)] by (auto simp: loop_inv_def)
qed

end

interpretation client: session_attempts "run_client_attempt env" for env
  by unfold_locales (rule run_client_attempt_fits, assumption+, rule run_client_attempt_session, assumption+)

subsection \<open>Retries\<close>

lemma saturating_add_one:
  "m + 1 < 2 ^ LENGTH('l) \<Longrightarrow> saturating_add_word (word_of_nat m) (1 :: 'l::len word) = word_of_nat (m + 1)"
proof -
  assume m: "m + 1 < 2 ^ LENGTH('l)"
  then have "unat (word_of_nat (m + 1) :: 'l word) = m + 1" "unat (word_of_nat m :: 'l word) = m"
    by (simp_all only: unat_of_nat) simp_all
  with m show ?thesis by (simp add: word_unat_eq_iff unat_saturating_add_word del: of_nat_add of_nat_Suc)
qed

definition slept_delays :: "nat \<Rightarrow> nat \<Rightarrow> nat list" where
  "slept_delays n k = map (\<lambda>j. nanos (min (2 ^ j) 120)) [n..<n + k]"

lemma slept_delays_Suc: "slept_delays n (Suc k) = slept_delays n 1 @ slept_delays (n + 1) k"
  using upt_rec [of n "n + Suc k"] by (simp add: slept_delays_def)

lemma back_off_count:
  assumes "rc_attempts st = word_of_nat n" "n + 1 < 2 ^ 32"
  shows "back_off st = st\<lparr>rc_attempts := word_of_nat (n + 1), rc_slept := rc_slept st @ slept_delays n 1\<rparr>"
  using assms reconnect_delay_nat [of "n + 1"]
  by (simp add: back_off_def next_reconnect_delay_def saturating_add_one [of n] slept_delays_def
      del: of_nat_add of_nat_Suc)

lemma retry_loop:
  assumes "\<And>k. k < length pss \<Longrightarrow>
      \<exists>e. attempt (rc_args st) (word_of_nat (m + k + 1)) (fst (pss ! k)) = Some (Err (Raised e)) \<and>
          is_retryable_reconnect_error e"
    and "rc_recovering st" "rc_known st = Some s" "rc_attempt_id st = word_of_nat m" "rc_attempts st = word_of_nat n"
    and "m + length pss < 2 ^ 64" "n + length pss < 2 ^ 32"
  shows "client_loop attempt args pss st =
    Again (st\<lparr>rc_attempt_id := word_of_nat (m + length pss), rc_attempts := word_of_nat (n + length pss),
              rc_slept := rc_slept st @ slept_delays n (length pss)\<rparr>)"
  using assms
proof (induction pss arbitrary: st m n)
  case Nil
  then show ?case by (cases st) (simp add: slept_delays_def)
next
  case (Cons ps pss)
  let ?st = "st\<lparr>rc_attempt_id := word_of_nat (m + 1)\<rparr>"
  let ?st1 = "?st\<lparr>rc_attempts := word_of_nat (n + 1), rc_slept := rc_slept st @ slept_delays n 1\<rparr>"
  obtain e where e: "attempt (rc_args st) (word_of_nat (m + 1)) (fst ps) = Some (Err (Raised e))"
      "is_retryable_reconnect_error e"
    using Cons.prems(1) [of 0] by auto
  have id: "saturating_add_word (rc_attempt_id st) 1 = word_of_nat (m + 1)"
    using saturating_add_one [of m, where 'l = 64] Cons.prems(4,6) by simp
  have "client_round attempt args ps st = Again (back_off ?st)"
    using e Cons.prems(2,3) unfolding client_round_def Let_def id by simp
  also have "back_off ?st = ?st1" using back_off_count [of ?st n] Cons.prems(5,7) by simp
  finally have "client_loop attempt args (ps # pss) st = client_loop attempt args pss ?st1" by simp
  also have "\<dots> = Again (?st1\<lparr>rc_attempt_id := word_of_nat (m + 1 + length pss), rc_attempts := word_of_nat (n + 1 + length pss),
              rc_slept := rc_slept ?st1 @ slept_delays (n + 1) (length pss)\<rparr>)"
  proof (rule Cons.IH)
    fix k assume "k < length pss"
    then show "\<exists>e. attempt (rc_args ?st1) (word_of_nat (m + 1 + k + 1)) (fst (pss ! k)) = Some (Err (Raised e)) \<and>
        is_retryable_reconnect_error e"
      using Cons.prems(1) [of "Suc k"] by (simp add: add.commute add.left_commute)
  qed (use Cons.prems in simp_all)
  also have "rc_slept ?st1 @ slept_delays (n + 1) (length pss) = rc_slept st @ slept_delays n (length (ps # pss))"
    by (simp add: slept_delays_Suc [of n "length pss"])
  finally show ?case by (simp add: add.commute add.left_commute)
qed

text \<open>Connections that are lost before the broker confirms the known session are retried, too.\<close>

lemma lost_loop:
  assumes "\<And>k. k < length pss \<Longrightarrow>
      attempt (rc_args st) (word_of_nat (m + k + 1)) (fst (pss ! k)) = Some (Ok (AttemptAttached (Err (None, e))))"
    and "is_ambiguous_disconnect e" "rc_known st = Some s" "rc_args st = reconnect_attach_args args s"
    and "rc_attempt_id st = word_of_nat m" "rc_attempts st = word_of_nat n"
    and "m + length pss < 2 ^ 64" "n + length pss < 2 ^ 32"
  shows "\<exists>st'. client_loop attempt args pss st = Again st' \<and> rc_slept st' = rc_slept st @ slept_delays n (length pss)"
  using assms(1,3-)
proof (induction pss arbitrary: st m n)
  case Nil
  then show ?case by (simp add: slept_delays_def)
next
  case (Cons ps pss)
  let ?st = "st\<lparr>rc_attempt_id := word_of_nat (m + 1), rc_recovering := True\<rparr>"
  let ?st1 = "?st\<lparr>rc_attempts := word_of_nat (n + 1), rc_slept := rc_slept st @ slept_delays n 1\<rparr>"
  have a: "attempt (rc_args st) (word_of_nat (m + 1)) (fst ps) = Some (Ok (AttemptAttached (Err (None, e))))"
    using Cons.prems(1) [of 0] by simp
  have id: "saturating_add_word (rc_attempt_id st) 1 = word_of_nat (m + 1)"
    using saturating_add_one [of m, where 'l = 64] Cons.prems(4,6) by simp
  have busy: "reconnect_busy_session e k r = None" for k r
    using assms(2) by (auto simp: reconnect_busy_session_def is_ambiguous_disconnect_def split: ClientRunError.splits)
  have "back_off ?st = ?st1" using back_off_count [of ?st n] Cons.prems(5,7) by simp
  then have "client_round attempt args ps st = Again ?st1"
    using a assms(2) Cons.prems(2,3) unfolding client_round_def Let_def id
    by (cases st) (simp add: attached_round_def busy lost_round_def)
  then have "client_loop attempt args (ps # pss) st = client_loop attempt args pss ?st1" by simp
  moreover have "\<exists>st'. client_loop attempt args pss ?st1 = Again st' \<and>
      rc_slept st' = rc_slept ?st1 @ slept_delays (n + 1) (length pss)"
  proof (rule Cons.IH)
    fix k assume "k < length pss"
    then show "attempt (rc_args ?st1) (word_of_nat (m + 1 + k + 1)) (fst (pss ! k)) = Some (Ok (AttemptAttached (Err (None, e))))"
      using Cons.prems(1) [of "Suc k"] by (simp add: add.commute add.left_commute)
  qed (use Cons.prems in simp_all)
  moreover have "rc_slept ?st1 @ slept_delays (n + 1) (length pss) = rc_slept st @ slept_delays n (length (ps # pss))"
    by (simp add: slept_delays_Suc [of n "length pss"])
  ultimately show ?case by simp
qed

subsection \<open>A conversation\<close>

text \<open>
  A server that becomes ready at once, offers the capabilities of the client, attaches it to the session
  it asks for and then sends one more frame or ends the stream; and one that cannot be started.
\<close>

definition talk_codec :: codec where
  "talk_codec =
     \<lparr>cbor_enc = (\<lambda>b. Some []),
      cbor_dec = (\<lambda>k bs. case k of
          KCapabilities \<Rightarrow> Some (BCapabilities DEFAULT_CAPABILITIES)
        | KAttachedSession \<Rightarrow> Some (BAttachedSession ''abcdefgh'')
        | KExitStatus \<Rightarrow> Some (BExitStatus \<lparr>es_code = Some 3, es_signal = None\<rparr>)
        | _ \<Rightarrow> None)\<rparr>"

definition talk_env :: client_env where
  "talk_env = \<lparr>ce_codec = talk_codec, ce_display_time = (\<lambda>_. []), ce_script = ''true'', ce_version = ''0'', ce_term = None\<rparr>"

definition talk_args :: ClientArgs where
  "talk_args = \<lparr>ca_action = Attach, ca_session = Some ''abcdefgh'', ca_ssh_args = [], ca_destination = ''host''\<rparr>"

definition reply_frame :: "msg_type \<Rightarrow> Frame" where
  "reply_frame ty = \<lparr>frame_msg_type = ty, frame_flags = 0, frame_payload = []\<rparr>"

definition heard :: "u64 \<Rightarrow> (Frame option, protocol_error) result \<Rightarrow> turn" where
  "heard i r = (idle_turn 0)\<lparr>tu_received := Received (BrokerFrame i r)\<rparr>"

definition talk_process :: "(unit, io_error) result \<Rightarrow> u64 \<Rightarrow> Frame option \<Rightarrow> ssh_process" where
  "talk_process spawn i final =
     \<lparr>sp_spawn = spawn, sp_stdin = True, sp_stdout = True,
      sp_conn = demo_conn\<lparr>cn_in := marker_line READY_MARKER False @ reader_of (frame_bytes (reply_frame CAPABILITIES))\<rparr>,
      sp_window = Ok None, sp_attached_io = Ok (), sp_start = idle_turn 0,
      sp_turns = [heard i (Ok (Some (reply_frame ATTACHED_SESSION))), heard i (Ok final)],
      sp_wait = (\<lambda>_. Ok (Some 0))\<rparr>"

lemma talk_send: "wr_budget (cn_out cn) = None \<Longrightarrow>
    send_body talk_codec ty b cn = (Ok (), cn\<lparr>cn_out := (cn_out cn)\<lparr>wr_out := wr_out (cn_out cn) @ frame_bytes (reply_frame ty)\<rparr>\<rparr>)"
  by (simp add: send_body_def write_body_def from_body_def talk_codec_def frame_new_def write_to_no_budget frame_ok_def
      reply_frame_def)

lemma talk_read:
  assumes "cn_in cn = reader_of (frame_bytes (reply_frame CAPABILITIES)) @ r"
  shows "read_expected_broker_frame CAPABILITIES cn = (Ok (reply_frame CAPABILITIES), cn\<lparr>cn_in := r\<rparr>)"
  by (subst read_expected_broker_frame.simps)
     (simp add: assms read_frame_bytes frame_ok_def reply_frame_def)

lemma talk_open:
  "open_connection talk_env talk_args (talk_process (Ok ()) i final) =
     Ok (DEFAULT_CAPABILITIES, InitialAttached (Some ''abcdefgh''))"
proof -
  let ?bs = "reader_of (frame_bytes (reply_frame CAPABILITIES))"
  have w: "wait_for_bootstrap (demo_conn\<lparr>cn_in := marker_line READY_MARKER False @ ?bs\<rparr>) = (Ok (), demo_conn\<lparr>cn_in := ?bs\<rparr>)"
    by (subst wait_ready) simp_all
  have caps: "decode_Capabilities talk_codec (reply_frame CAPABILITIES) = Ok DEFAULT_CAPABILITIES"
    by (simp add: decode_Capabilities_def decode_as_def decode_body_def talk_codec_def)
  have "DEFAULT_CAPABILITIES \<noteq> []" by (simp add: DEFAULT_CAPABILITIES_def)
  then have "\<exists>cn. exchange_capabilities talk_codec (demo_conn\<lparr>cn_in := ?bs\<rparr>) = (Ok DEFAULT_CAPABILITIES, cn) \<and>
      wr_budget (cn_out cn) = None"
    by (simp add: exchange_capabilities_def talk_send demo_conn_def empty_writer_def bind_io_def
        talk_read [where r = "[]"] decoded_def caps Let_def)
  then obtain cn where x: "exchange_capabilities talk_codec (demo_conn\<lparr>cn_in := ?bs\<rparr>) = (Ok DEFAULT_CAPABILITIES, cn)"
      "wr_budget (cn_out cn) = None" by blast
  show ?thesis
    using x(2)
    by (simp add: open_connection_def talk_process_def talk_env_def w x(1) initial_window_size_def
        handle_initial_action_def talk_args_def initial_attach_def bind_io_def write_initial_window_size_def talk_send raising_def)
qed

lemma talk_turn:
  assumes "at_next s = nanos 15" "at_pending s = None"
  shows "attached_turn c x i en (heard i (Ok r)) s =
     (case r of None \<Rightarrow> session_fails s UnexpectedBrokerEof | Some f \<Rightarrow> handle_frame c x (heard i (Ok r)) f s)"
  using assms
  by (simp add: attached_turn_def keepalive_turn_def heard_def idle_turn_def nanos_def handle_event_def split: option.split)

lemma talk_frames:
  "handle_frame talk_codec (Some ''abcdefgh'') t (reply_frame ATTACHED_SESSION) s = Going (s\<lparr>at_confirmed := Some ''abcdefgh''\<rparr>)"
  "handle_frame talk_codec (Some ''abcdefgh'') t (reply_frame EXIT_STATUS) s = Ended s (Ok 3)"
  by (simp_all add: handle_frame_def frame_attached_def frame_exit_status_def reply_frame_def decode_AttachedSession_def
      decode_ExitStatus_def decode_as_def decode_body_def talk_codec_def exit_code_from_status_def obi_consts)

lemma talk_attached:
  "run_attached_session talk_codec (Some ''abcdefgh'') i en (idle_turn 0)
     [heard i (Ok (Some (reply_frame ATTACHED_SESSION))), heard i (Ok final)] =
   (let s = (start_attached 0)\<lparr>at_confirmed := Some ''abcdefgh''\<rparr> in
    going_on (case final of None \<Rightarrow> session_fails s UnexpectedBrokerEof
              | Some f \<Rightarrow> handle_frame talk_codec (Some ''abcdefgh'') (heard i (Ok final)) f s) Going)"
proof -
  have "attached_loop c x i en [] = Going" for c x i en by (rule ext) simp
  moreover have "send_window_size_if_changed (idle_turn 0) s = Going s" for s
    by (simp add: send_window_size_if_changed_def idle_turn_def)
  moreover have "at_next (start_attached 0) = nanos 15" "at_pending (start_attached 0) = None" "tu_now (idle_turn 0) = 0"
    by (simp_all add: start_attached_def KEEPALIVE_INTERVAL_def idle_turn_def)
  ultimately show ?thesis
    by (simp add: run_attached_session_def talk_turn talk_frames(1) Let_def)
qed

lemma talk_attempts:
  "run_client_attempt talk_env talk_args i (\<lambda>_. talk_process (Ok ()) i None) =
     Some (Ok (AttemptAttached (Err (Some ''abcdefgh'', UnexpectedBrokerEof))))"
  "run_client_attempt talk_env talk_args i (\<lambda>_. talk_process (Ok ()) i (Some (reply_frame EXIT_STATUS))) =
     Some (Ok (AttemptAttached (Ok 3)))"
  "run_client_attempt talk_env talk_args i (\<lambda>_. talk_process (Err NotFound) i None) = Some (Err (Raised (SpawnSsh NotFound)))"
proof -
  have p: "sp_attached_io (talk_process sp i final) = Ok ()" "sp_start (talk_process sp i final) = idle_turn 0"
    "sp_turns (talk_process sp i final) = [heard i (Ok (Some (reply_frame ATTACHED_SESSION))), heard i (Ok final)]"
    "sp_wait (talk_process sp i final) b = Ok (Some 0)" "ce_codec talk_env = talk_codec" for sp final b
    by (simp_all add: talk_process_def talk_env_def)
  show "run_client_attempt talk_env talk_args i (\<lambda>_. talk_process (Ok ()) i None) =
     Some (Ok (AttemptAttached (Err (Some ''abcdefgh'', UnexpectedBrokerEof))))"
    by (simp add: run_client_attempt_def talk_open attached_attempt_def p talk_attached session_fails_def)
  show "run_client_attempt talk_env talk_args i (\<lambda>_. talk_process (Ok ()) i (Some (reply_frame EXIT_STATUS))) =
     Some (Ok (AttemptAttached (Ok 3)))"
    by (simp add: run_client_attempt_def talk_open attached_attempt_def p talk_attached talk_frames exit_code_with_ssh_status_def)
  show "run_client_attempt talk_env talk_args i (\<lambda>_. talk_process (Err NotFound) i None) = Some (Err (Raised (SpawnSsh NotFound)))"
    by (simp add: run_client_attempt_def open_connection_def talk_process_def)
qed

definition talk_round :: "ssh_process \<Rightarrow> ssh \<times> ssh" where
  "talk_round p = (\<lambda>_. p, \<lambda>_. p)"

definition talk_rounds :: "(ssh \<times> ssh) list" where
  "talk_rounds = [talk_round (talk_process (Ok ()) 1 None), talk_round (talk_process (Err NotFound) 2 None)]"

section \<open>Properties\<close>


text \<open>
  C11. Once the client recovers a session it stays with it: if after some rounds of the loop it is
  recovering, then after any further rounds it still recovers the same session, and the next attempt
  is an attach request for that session on the same destination.
\<close>

theorem reconnect_keeps_session:
  assumes "run_client (run_client_attempt env) args first pss = Again st" and "rc_recovering st"
    and "run_client (run_client_attempt env) args first (pss @ qss) = Again st'"
  shows "rc_recovering st' \<and>
    (\<exists>s. rc_known st = Some s \<and> rc_known st' = Some s \<and> rc_args st' = reconnect_attach_args args s)"
  using assms by (rule client.run_client_sticks)

theorem reconnect_keeps_session_witness:
  "\<exists>st. run_client (run_client_attempt talk_env) talk_args (\<lambda>_. talk_process (Ok ()) 0 None) talk_rounds = Again st \<and>
     rc_recovering st \<and> rc_known st = Some ''abcdefgh'' \<and> rc_args st = talk_args"
proof -
  let ?A = "run_client_attempt talk_env" and ?p = "talk_round (talk_process (Ok ()) 1 None)"
  have args: "ca_action talk_args = Attach" "reconnect_attach_args talk_args ''abcdefgh'' = talk_args"
    by (simp_all add: talk_args_def reconnect_attach_args_def)
  have id: "saturating_add_word (0 :: u64) 1 = 1" "saturating_add_word (1 :: u64) 1 = 2"
    by (simp_all add: saturating_add_word_def)
  obtain st1 where st1: "client_round ?A talk_args ?p (start_loop talk_args False) = Again st1"
      "rc_recovering st1" "rc_known st1 = Some ''abcdefgh''" "rc_args st1 = talk_args" "rc_attempt_id st1 = 1"
    using talk_attempts(1) [of 1]
    by (simp add: client_round_def Let_def start_loop_def id talk_round_def attached_round_def reconnect_busy_session_def
        is_ambiguous_disconnect_def lost_round_def args back_off_def next_reconnect_delay_def)
  have "client_round ?A talk_args (talk_round (talk_process (Err NotFound) 2 None)) st1 =
      Again (back_off (st1\<lparr>rc_attempt_id := 2\<rparr>))"
    using st1(2-5) talk_attempts(3) [of 2]
    by (simp add: client_round_def id talk_round_def is_retryable_reconnect_error_def)
  then obtain st where run: "run_client ?A talk_args (\<lambda>_. talk_process (Ok ()) 0 None) [?p] = Again st1"
      "run_client ?A talk_args (\<lambda>_. talk_process (Ok ()) 0 None) ([?p] @ [talk_round (talk_process (Err NotFound) 2 None)]) = Again st"
    using st1(1) args(1) by (simp add: run_client_def)
  from reconnect_keeps_session [OF run(1) st1(2) run(2)] st1(3) run(2) args(2)
  show ?thesis by (auto simp: talk_rounds_def)
qed

text \<open>
  C9. A lost connection is retried until it works. If a confirmed session is lost by an ambiguous
  disconnect, any number of attempts then fail in a retryable way, and the next one attaches and ends
  with an exit code, the client exits with that code. Before each retry it sleeps; the delays are 1, 2,
  4, ..., 64 seconds and then 120 seconds each time.
\<close>

theorem reconnect_until_success:
  assumes "ca_action args \<in> {Attach, New}"
    and "run_client_attempt env args 1 (fst p0) = Some (Ok (AttemptAttached (Err (Some s, e0))))"
    and "is_ambiguous_disconnect e0"
    and "\<forall>k<length pss. \<exists>e.
           run_client_attempt env (reconnect_attach_args args s) (word_of_nat (1 + k + 1)) (fst (pss ! k)) =
             Some (Err (Raised e)) \<and> is_retryable_reconnect_error e"
    and "run_client_attempt env (reconnect_attach_args args s) (word_of_nat (1 + length pss + 1)) (fst pn) =
           Some (Ok (AttemptAttached (Ok code)))"
    and "1 + length pss < 2 ^ 32"
  shows "run_client (run_client_attempt env) args first (p0 # pss @ [pn]) = Finished (Ok code) \<and>
    (\<exists>st. run_client (run_client_attempt env) args first (p0 # pss) = Again st \<and>
       rc_slept st = map (\<lambda>k. nanos (min (2 ^ k) 120)) [0..<1 + length pss])"
proof -
  define A where "A = run_client_attempt env"
  define B where "B = reconnect_attach_args args s"
  note asm = assms [folded A_def B_def]
  let ?st0 = "start_loop args False"
  let ?st1 = "?st0\<lparr>rc_attempt_id := word_of_nat 1, rc_attempts := word_of_nat 1, rc_recovering := True, rc_known := Some s,
                rc_args := B, rc_slept := slept_delays 0 1\<rparr>"
  let ?st2 = "?st1\<lparr>rc_attempt_id := word_of_nat (1 + length pss), rc_attempts := word_of_nat (1 + length pss),
                rc_slept := slept_delays 0 1 @ slept_delays 1 (length pss)\<rparr>"
  have run: "run_client A args first qss = client_loop A args qss ?st0" for qss
    using asm(1) by (auto simp: run_client_def)
  have busy: "reconnect_busy_session e0 k r = None" for k r
    using asm(3) by (auto simp: reconnect_busy_session_def is_ambiguous_disconnect_def split: ClientRunError.splits)
  have id: "saturating_add_word (rc_attempt_id ?st0) 1 = word_of_nat 1"
    using saturating_add_one [of 0, where 'l = 64] by (simp add: start_loop_def)
  have first: "client_round A args p0 ?st0 = Again ?st1"
    unfolding client_round_def Let_def id
    using asm(2,3) back_off_count [of "?st0\<lparr>rc_attempt_id := 1, rc_attempts := 0, rc_recovering := True, rc_known := Some s\<rparr>" 0]
    by (simp add: attached_round_def busy lost_round_def start_loop_def B_def)
  have "client_loop A args pss ?st1 = Again ?st2"
    using retry_loop [of pss A ?st1 1 s 1 args] asm(4,6) by simp
  then have loop: "client_loop A args (p0 # pss) ?st0 = Again ?st2" using first by simp
  have id2: "saturating_add_word (rc_attempt_id ?st2) 1 = word_of_nat (1 + length pss + 1)"
    using saturating_add_one [of "1 + length pss", where 'l = 64] asm(6) by (simp del: of_nat_add of_nat_Suc)
  have "client_round A args pn ?st2 = Finished (Ok code)"
    unfolding client_round_def Let_def id2 using asm(5) by (simp add: attached_round_def del: of_nat_add of_nat_Suc)
  then have "client_loop A args ((p0 # pss) @ [pn]) ?st0 = Finished (Ok code)"
    unfolding A_def client.client_loop_append using loop by (simp add: A_def)
  moreover have "rc_slept ?st2 = map (\<lambda>k. nanos (min (2 ^ k) 120)) [0..<1 + length pss]"
    using slept_delays_Suc [of 0 "length pss"] by (simp add: slept_delays_def)
  ultimately show ?thesis using loop run unfolding A_def by auto
qed

theorem reconnect_until_success_witness:
  "run_client (run_client_attempt talk_env) talk_args (\<lambda>_. talk_process (Ok ()) 0 None)
     (talk_rounds @ [talk_round (talk_process (Ok ()) 3 (Some (reply_frame EXIT_STATUS)))]) = Finished (Ok 3)"
proof -
  have args: "ca_action talk_args \<in> {Attach, New}" "reconnect_attach_args talk_args ''abcdefgh'' = talk_args"
    by (simp_all add: talk_args_def reconnect_attach_args_def)
  have "\<forall>k<length [talk_round (talk_process (Err NotFound) 2 None)]. \<exists>e.
      run_client_attempt talk_env (reconnect_attach_args talk_args ''abcdefgh'') (word_of_nat (1 + k + 1))
        (fst ([talk_round (talk_process (Err NotFound) 2 None)] ! k)) = Some (Err (Raised e)) \<and>
      is_retryable_reconnect_error e"
    using talk_attempts(3) [of 2] by (simp add: args talk_round_def is_retryable_reconnect_error_def)
  then show ?thesis
    using reconnect_until_success [of talk_args talk_env "talk_round (talk_process (Ok ()) 1 None)" "''abcdefgh''"
        UnexpectedBrokerEof "[talk_round (talk_process (Err NotFound) 2 None)]"
        "talk_round (talk_process (Ok ()) 3 (Some (reply_frame EXIT_STATUS)))" 3 "\<lambda>_. talk_process (Ok ()) 0 None"]
      talk_attempts(1) [of 1] talk_attempts(2) [of 3] args
    by (simp add: talk_round_def talk_rounds_def is_ambiguous_disconnect_def)
qed

text \<open>
  The delay before reconnect attempt \<open>n\<close> is \<open>2 ^ (n - 1)\<close> seconds, at most 120 seconds, for every value of the
  32 bit counter, also where the shift of the multiplier would overflow; the first eight delays are
  those that the documentation lists.
\<close>

theorem reconnect_delay_schedule:
  "reconnect_delay_for_attempt n = nanos (min (2 ^ (unat n - 1)) 120) \<and>
   map reconnect_delay_for_attempt [1, 2, 3, 4, 5, 6, 7, 8] = map nanos [1, 2, 4, 8, 16, 32, 64, 120]"
proof -
  have d: "reconnect_delay_for_attempt m = nanos (min (2 ^ (unat m - 1)) 120)" for m
  proof (cases "m = 0")
    case True
    then show ?thesis
      by (simp add: reconnect_delay_for_attempt_def checked_shl_one_def saturating_sub_word_def duration_saturating_mul_def
          RECONNECT_INITIAL_DELAY_def RECONNECT_MAX_DELAY_def duration_max_def nanos_def)
  next
    case False
    then have "1 \<le> unat m" by (simp add: unat_gt_0 Suc_le_eq)
    moreover have "unat m < 2 ^ 32" using unsigned_less [of m] by simp
    ultimately show ?thesis using reconnect_delay_nat [of "unat m"] by simp
  qed
  show ?thesis using d by (simp add: nanos_def)
qed

definition clock_reading :: "bool \<Rightarrow> (nat \<Rightarrow> nat) \<Rightarrow> (nat \<Rightarrow> nat) \<Rightarrow> nat \<Rightarrow> nat option \<times> nat" where
  "clock_reading aware clock other k = (if aware then (Some (clock k), other k) else (None, clock k))"

text \<open>
  The sleep before a reconnect ends, and not too early. With a clock that advances while the thread
  sleeps, whether the suspend aware clock is there (whatever the other clock says) or not, the loop returns
  within 121 turns for every delay of the client, and when it returns the clock has reached the deadline.
\<close>

theorem sleep_for_reconnect_returns:
  assumes "sleeps_fully (clock 0 + delay) clock" and "delay \<le> RECONNECT_MAX_DELAY" and "clock 0 + delay \<le> duration_max"
  shows "\<exists>ss. sleep_for_reconnect delay (clock_reading aware clock other 0) (map (clock_reading aware clock other) [0..<121]) = Some ss \<and>
    length ss \<le> 120 \<and> clock 0 + delay \<le> clock (length ss)"
proof -
  let ?d = "with_now delay (fst (clock_reading aware clock other 0)) (snd (clock_reading aware clock other 0))"
  let ?rs = "map (clock_reading aware clock other) [0..<121]"
  have rem: "remaining_at ?d (fst (?rs ! k)) (snd (?rs ! k)) = clock 0 + delay - clock k" if "k < 121" for k
    using that assms(3) by (simp add: clock_reading_def with_now_def remaining_at_def duration_saturating_add_def)
  have "clock 0 + delay - clock 120 \<le> delay - 120 * RECONNECT_SLEEP_QUANTUM"
    using sleeps_fully_progress [OF assms(1), of 0 120] by simp
  also have "\<dots> = 0" using assms(2) by (simp add: RECONNECT_MAX_DELAY_def RECONNECT_SLEEP_QUANTUM_def nanos_def)
  finally have "\<exists>k<length ?rs. remaining_at ?d (fst (?rs ! k)) (snd (?rs ! k)) = 0"
    using rem [of 120] by (intro exI [of _ 120]) simp
  then obtain ss where ss: "sleep_loop ?d ?rs = Some ss" using sleep_loop_returns by blast
  have "length ss < 121" using sleep_loop_Some [OF ss] by simp
  then show ?thesis
    using ss sleep_loop_Some [OF ss] rem [of "length ss"] by (auto simp: sleep_for_reconnect_def)
qed

theorem sleep_for_reconnect_returns_witness:
  "\<exists>ss. sleep_for_reconnect (nanos 3) (clock_reading True (\<lambda>k. nanos (10 + k)) (\<lambda>_. 0) 0)
      (map (clock_reading True (\<lambda>k. nanos (10 + k)) (\<lambda>_. 0)) [0..<121]) = Some ss \<and>
    length ss \<le> 120 \<and> nanos 13 \<le> nanos (10 + length ss)"
  using sleep_for_reconnect_returns [of "\<lambda>k. nanos (10 + k)" "nanos 3" True "\<lambda>_. 0"]
  by (auto simp: sleeps_fully_def RECONNECT_MAX_DELAY_def RECONNECT_SLEEP_QUANTUM_def duration_max_def nanos_def)

end
