(* ===== verification/Broker.thy ===== *)
theory Broker
  imports Handshake "HOL-Library.Multiset"
begin

text \<open>
  The broker of \<open>src/src/server.rs\<close>, the process at the remote end of the \<open>ssh\<close> connection: its
  conversations with the daemons over their sockets, the requests of the client, the start of a
  daemon, and the forwarding between client and daemon. A daemon socket is what each connect to its
  path meets. The lemmas show what is listed, what is answered, and that forwarding keeps every frame.
\<close>

section \<open>Errors and streams\<close>

datatype ServerError =
    MissingEnvironment string
  | SConnect io_error
  | SProtocol protocol_error
  | NoBrokerRequest
  | UnexpectedDaemonEof
  | UnexpectedMessage u8
  | CurrentExe io_error
  | SpawnDaemon io_error
  | WaitDaemonStarter io_error
  | ConfigureDaemonControl io_error
  | SNoSharedCapabilities
  | DaemonStarterFailed "int option"
  | DaemonNotReady string "io_error option"
  | UidMismatch u32 u32 \<comment> \<open>expected, actual\<close>
  | SSocketPath SocketPathError
  | SSessionId SessionIdError

text \<open>
  A stream to a daemon: what it sends, what it was sent, and the outcomes of the next \<open>try_clone\<close> and
  timeout calls (after these they succeed).
\<close>

record daemon_stream =
  ds_in :: reader
  ds_out :: writer
  ds_clones :: "(unit, io_error) result list"
  ds_timeouts :: "(unit, io_error) result list"

record server =
  sv_in :: reader
  sv_out :: writer
  sv_socks :: "string \<Rightarrow> (daemon_stream, io_error) result list" \<comment> \<open>the next connects to a path; then there is no socket\<close>
  sv_sent :: "(string \<times> u8 list) list" \<comment> \<open>what was written on the connections that were closed\<close>
  sv_removed :: "string list"
  sv_spawned :: "string list list"

record server_env =
  se_codec :: codec
  se_temp_dir :: string
  se_uid :: u32 \<comment> \<open>\<open>current_uid\<close>\<close>
  se_show_io :: "io_error \<Rightarrow> string"
  se_read_dir :: "string \<Rightarrow> ((string, io_error) result list, io_error) result"
  se_remove :: "string \<Rightarrow> (unit, io_error) result"
  se_gen :: gen_env
  se_current_exe :: "(unit, io_error) result"
  se_spawn :: "(unit, io_error) result"
  se_starter :: "(int option, io_error) result"
  se_delay :: "nat \<Rightarrow> nat" \<comment> \<open>the time that a turn of the ready loop takes beyond its sleep\<close>

definition try_clone :: "daemon_stream \<Rightarrow> (unit, ServerError) result \<times> daemon_stream" where
  "try_clone ds =
     (case ds_clones ds of
        [] \<Rightarrow> (Ok (), ds)
      | r # rs \<Rightarrow> (map_err SConnect r, ds\<lparr>ds_clones := rs\<rparr>))"

definition set_timeout :: "daemon_stream \<Rightarrow> (unit, ServerError) result \<times> daemon_stream" where
  "set_timeout ds =
     (case ds_timeouts ds of
        [] \<Rightarrow> (Ok (), ds)
      | r # rs \<Rightarrow> (map_err ConfigureDaemonControl r, ds\<lparr>ds_timeouts := rs\<rparr>))"

definition daemon_send ::
  "codec \<Rightarrow> msg_type \<Rightarrow> body \<Rightarrow> daemon_stream \<Rightarrow> (unit, ServerError) result \<times> daemon_stream" where
  "daemon_send c ty b ds =
     (case write_body c ty 0 b (ds_out ds) of (res, w) \<Rightarrow> (map_err SProtocol res, ds\<lparr>ds_out := w\<rparr>))"

definition client_send :: "codec \<Rightarrow> msg_type \<Rightarrow> body \<Rightarrow> server \<Rightarrow> (unit, ServerError) result \<times> server" where
  "client_send c ty b sv =
     (case write_body c ty 0 b (sv_out sv) of (res, w) \<Rightarrow> (map_err SProtocol res, sv\<lparr>sv_out := w\<rparr>))"

section \<open>Conversations with a daemon\<close>

function await_daemon_frame :: "msg_type \<Rightarrow> daemon_stream \<Rightarrow> (Frame, ServerError) result \<times> daemon_stream" where
  "await_daemon_frame expected ds =
     (case read_frame (ds_in ds) of
        (Err e, r) \<Rightarrow> (Err (SProtocol e), ds\<lparr>ds_in := r\<rparr>)
      | (Ok None, r) \<Rightarrow> (Err UnexpectedDaemonEof, ds\<lparr>ds_in := r\<rparr>)
      | (Ok (Some f), r) \<Rightarrow>
          if frame_msg_type f = expected then (Ok f, ds\<lparr>ds_in := r\<rparr>)
          else if msg_name (frame_msg_type f) = None then await_daemon_frame expected (ds\<lparr>ds_in := r\<rparr>)
          else (Err (UnexpectedMessage (frame_msg_type f)), ds\<lparr>ds_in := r\<rparr>))"
  by pat_completeness auto
termination
  by (relation "measure (\<lambda>(_, ds). length (ds_in ds))") (auto dest!: read_frame_consumes [OF sym])

declare await_daemon_frame.simps [simp del]

definition exchange_daemon_capabilities ::
  "codec \<Rightarrow> daemon_stream \<Rightarrow> (string list, ServerError) result \<times> daemon_stream" where
  "exchange_daemon_capabilities c ds =
     bind_io (try_clone ds) (\<lambda>_ ds.
     bind_io (try_clone ds) (\<lambda>_ ds.
     bind_io (daemon_send c CAPABILITIES (BCapabilities DEFAULT_CAPABILITIES) ds) (\<lambda>_ ds.
     bind_io (await_daemon_frame CAPABILITIES ds) (\<lambda>f ds.
       (case decode_Capabilities c f of
          Err e \<Rightarrow> (Err (SProtocol e), ds)
        | Ok peer \<Rightarrow>
            let shared = intersection DEFAULT_CAPABILITIES peer in
            if shared = [] then (Err SNoSharedCapabilities, ds) else (Ok shared, ds))))))"

definition configure_daemon_control_stream :: "daemon_stream \<Rightarrow> (unit, ServerError) result \<times> daemon_stream" where
  "configure_daemon_control_stream ds = bind_io (set_timeout ds) (\<lambda>_. set_timeout)"

definition attach_daemon ::
  "codec \<Rightarrow> WindowSize option \<Rightarrow> daemon_stream \<Rightarrow> (unit, ServerError) result \<times> daemon_stream" where
  "attach_daemon c initial_window_size ds =
     bind_io (exchange_daemon_capabilities c ds) (\<lambda>capabilities ds.
     bind_io (try_clone ds) (\<lambda>_ ds.
     bind_io (case initial_window_size of
                Some window_size \<Rightarrow>
                  if CAP_INITIAL_WINDOW_SIZE_V1 \<in> set capabilities
                  then daemon_send c INITIAL_WINDOW_SIZE (BWindowSize window_size) ds else (Ok (), ds)
              | None \<Rightarrow> (Ok (), ds)) (\<lambda>_ ds.
       daemon_send c BROKER_ATTACH BBrokerAttachRequest ds)))"

definition detach_conversation :: "codec \<Rightarrow> daemon_stream \<Rightarrow> (unit, ServerError) result \<times> daemon_stream" where
  "detach_conversation c ds =
     bind_io (configure_daemon_control_stream ds) (\<lambda>_ ds.
     bind_io (exchange_daemon_capabilities c ds) (\<lambda>_ ds.
       daemon_send c DETACH BDetachRequest ds))"

definition info_conversation :: "codec \<Rightarrow> daemon_stream \<Rightarrow> (SessionRecord, ServerError) result \<times> daemon_stream" where
  "info_conversation c ds =
     bind_io (configure_daemon_control_stream ds) (\<lambda>_ ds.
     bind_io (exchange_daemon_capabilities c ds) (\<lambda>_ ds.
     bind_io (try_clone ds) (\<lambda>_ ds.
     bind_io (daemon_send c DAEMON_INFO_REQUEST BDaemonInfoRequest ds) (\<lambda>_ ds.
     bind_io (await_daemon_frame DAEMON_INFO ds) (\<lambda>f ds.
       (map_err SProtocol (decode_DaemonInfo c f), ds))))))"

definition connect_socket :: "string \<Rightarrow> server \<Rightarrow> (daemon_stream, io_error) result \<times> server" where
  "connect_socket path sv =
     (case sv_socks sv path of
        [] \<Rightarrow> (Err NotFound, sv)
      | r # rs \<Rightarrow> (r, sv\<lparr>sv_socks := (sv_socks sv)(path := rs)\<rparr>))"

definition connect_daemon :: "string \<Rightarrow> server \<Rightarrow> (daemon_stream, ServerError) result \<times> server" where
  "connect_daemon path sv = (case connect_socket path sv of (r, sv) \<Rightarrow> (map_err SConnect r, sv))"

text \<open>A conversation on a connection of its own, which is closed at its end.\<close>

definition with_daemon ::
  "string \<Rightarrow> (daemon_stream \<Rightarrow> ('a, ServerError) result \<times> daemon_stream) \<Rightarrow> server \<Rightarrow> ('a, ServerError) result \<times> server" where
  "with_daemon path conversation sv =
     bind_io (connect_daemon path sv) (\<lambda>ds sv.
       (case conversation ds of
          (res, ds) \<Rightarrow> (res, sv\<lparr>sv_sent := sv_sent sv @ [(path, wr_out (ds_out ds))]\<rparr>)))"

definition detach_via_socket :: "codec \<Rightarrow> string \<Rightarrow> server \<Rightarrow> (unit, ServerError) result \<times> server" where
  "detach_via_socket c path = with_daemon path (detach_conversation c)"

definition query_daemon_info :: "codec \<Rightarrow> string \<Rightarrow> server \<Rightarrow> (SessionRecord, ServerError) result \<times> server" where
  "query_daemon_info c path = with_daemon path (info_conversation c)"

text \<open>\<open>remove_stale_socket\<close> connects once more to see whether the socket is stale.\<close>

definition drop_stale_socket :: "server_env \<Rightarrow> string \<Rightarrow> server \<Rightarrow> (bool, ServerError) result \<times> server" where
  "drop_stale_socket env path sv =
     (case connect_socket path sv of
        (probe, sv1) \<Rightarrow>
          (case remove_stale_socket (se_show_io env) (case probe of Ok _ \<Rightarrow> Ok () | Err e \<Rightarrow> Err e) (se_remove env path) path of
             (res, removed) \<Rightarrow>
               (map_err SSocketPath res, sv1\<lparr>sv_removed := sv_removed sv1 @ (if removed then [path] else [])\<rparr>)))"

fun query_daemons ::
  "server_env \<Rightarrow> string \<Rightarrow> SessionId list \<Rightarrow> server \<Rightarrow> (SessionRecord list, ServerError) result \<times> server" where
  "query_daemons env dir [] sv = (Ok [], sv)"
| "query_daemons env dir (session_id # session_ids) sv =
     (case socket_path dir session_id of
        Err e \<Rightarrow> (Err (SSocketPath e), sv)
      | Ok path \<Rightarrow>
          (case query_daemon_info (se_codec env) path sv of
             (Ok info, sv1) \<Rightarrow>
               bind_io (query_daemons env dir session_ids sv1) (\<lambda>infos sv. (Ok (info # infos), sv))
           | (Err (SConnect e), sv1) \<Rightarrow>
               if e = ConnectionRefused \<or> e = NotFound
               then bind_io (drop_stale_socket env path sv1) (\<lambda>_. query_daemons env dir session_ids)
               else (Err (SConnect e), sv1)
           | (Err e, sv1) \<Rightarrow> (Err e, sv1)))"

definition enumerate_daemons ::
  "server_env \<Rightarrow> string \<Rightarrow> server \<Rightarrow> (SessionRecord list, ServerError) result \<times> server" where
  "enumerate_daemons env dir sv =
     (case list_session_socket_ids (se_show_io env) dir (se_read_dir env dir) of
        Err e \<Rightarrow> (Err (SSocketPath e), sv)
      | Ok session_ids \<Rightarrow>
          bind_io (query_daemons env dir session_ids sv) (\<lambda>infos sv. (Ok (sort_key rec_session_id infos), sv)))"

section \<open>Starting a daemon\<close>

definition daemon_args :: "SessionId \<Rightarrow> WindowSize option \<Rightarrow> string list" where
  "daemon_args session_id initial_window_size =
     [''--daemon'', ''--session'', session_id] @
     (case initial_window_size of
        None \<Rightarrow> []
      | Some ws \<Rightarrow>
          [''--rows'', show_nat (unat (rows ws)), ''--cols'', show_nat (unat (cols ws)),
           ''--pixel-width'', show_nat (unat (pixel_width ws)), ''--pixel-height'', show_nat (unat (pixel_height ws))])"

text \<open>
  The loop of \<open>wait_for_daemon_ready\<close>. \<open>elapsed\<close> is the time since its start; a turn that goes on takes the 25
  milliseconds of the sleep, which \<open>thread::sleep\<close> guarantees, and \<open>delay turn\<close> beyond that. The limit is 2 seconds.
\<close>

definition READY_TIMEOUT :: nat where
  "READY_TIMEOUT = nanos 2"

definition READY_SLEEP :: nat where
  "READY_SLEEP = 25000000"

function ready_loop ::
  "codec \<Rightarrow> string \<Rightarrow> (nat \<Rightarrow> nat) \<Rightarrow> nat \<Rightarrow> nat \<Rightarrow> io_error option \<Rightarrow> server \<Rightarrow> (unit, ServerError) result \<times> server" where
  "ready_loop c path delay k elapsed last_error sv =
     (if elapsed < READY_TIMEOUT then
        (case query_daemon_info c path sv of
           (Ok _, sv1) \<Rightarrow> (Ok (), sv1)
         | (Err (SConnect e), sv1) \<Rightarrow>
             if e = NotFound \<or> e = ConnectionRefused
             then ready_loop c path delay (Suc k) (elapsed + READY_SLEEP + delay k) (Some e) sv1
             else (Err (SConnect e), sv1)
         | (Err e, sv1) \<Rightarrow> (Err e, sv1))
      else (Err (DaemonNotReady path last_error), sv))"
  by pat_completeness auto
termination
  by (relation "measure (\<lambda>(c, path, delay, k, elapsed, e, sv). READY_TIMEOUT - elapsed)") (auto simp: READY_SLEEP_def)

declare ready_loop.simps [simp del]

definition wait_for_daemon_ready :: "server_env \<Rightarrow> string \<Rightarrow> server \<Rightarrow> (unit, ServerError) result \<times> server" where
  "wait_for_daemon_ready env path sv = ready_loop (se_codec env) path (se_delay env) 0 0 None sv"

definition launch_daemon ::
  "server_env \<Rightarrow> u32 \<Rightarrow> WindowSize option \<Rightarrow> server \<Rightarrow> (SessionId, ServerError) result \<times> server" where
  "launch_daemon env uid initial_window_size sv =
     (if uid \<noteq> se_uid env then (Err (UidMismatch (se_uid env) uid), sv)
      else
        let dir = socket_dir_for_uid (se_temp_dir env) uid in
        bind_io (map_err SSocketPath (list_session_socket_ids (se_show_io env) dir (se_read_dir env dir)), sv) (\<lambda>existing sv.
        bind_io (map_err SSessionId (generate_session_id (se_gen env) existing), sv) (\<lambda>session_id sv.
        bind_io (map_err SSocketPath (socket_path dir session_id), sv) (\<lambda>path sv.
        bind_io (map_err CurrentExe (se_current_exe env), sv) (\<lambda>_ sv.
        bind_io (map_err SpawnDaemon (se_spawn env), sv) (\<lambda>_ sv0.
          let sv = sv0\<lparr>sv_spawned := sv_spawned sv0 @ [daemon_args session_id initial_window_size]\<rparr> in
          bind_io (map_err WaitDaemonStarter (se_starter env), sv) (\<lambda>status sv.
            if status \<noteq> Some 0 then (Err (DaemonStarterFailed status), sv)
            else bind_io (wait_for_daemon_ready env path sv) (\<lambda>_ sv. (Ok session_id, sv)))))))))"

section \<open>Requests of the client\<close>

text \<open>The variables of the loop of \<open>handle_broker_request\<close>.\<close>

record broker_state =
  bs_saw_request :: bool
  bs_keepalive :: bool
  bs_window :: "WindowSize option"

text \<open>The loop goes on, the broker returns, or it goes over to forwarding on a daemon connection.\<close>

datatype broker_end = Returned "(unit, ServerError) result" | Proxying daemon_stream bool

datatype broker_progress = Continue broker_state | Stop broker_end

definition stop_err :: "ServerError \<Rightarrow> broker_progress" where
  "stop_err e = Stop (Returned (Err e))"

text \<open>\<open>?\<close> in the loop.\<close>

definition or_stop ::
  "('a, ServerError) result \<times> server \<Rightarrow> ('a \<Rightarrow> server \<Rightarrow> broker_progress \<times> server) \<Rightarrow> broker_progress \<times> server" where
  "or_stop p f = (case p of (Err e, sv) \<Rightarrow> (stop_err e, sv) | (Ok a, sv) \<Rightarrow> f a sv)"

definition request_body :: "('a, protocol_error) result \<Rightarrow> server \<Rightarrow> ('a, ServerError) result \<times> server" where
  "request_body r sv = (map_err SProtocol r, sv)"

definition on_capabilities :: "server_env \<Rightarrow> Frame \<Rightarrow> broker_state \<Rightarrow> server \<Rightarrow> broker_progress \<times> server" where
  "on_capabilities env f st sv =
     or_stop (request_body (decode_Capabilities (se_codec env) f) sv) (\<lambda>peer sv.
     or_stop (client_send (se_codec env) CAPABILITIES (BCapabilities DEFAULT_CAPABILITIES) sv) (\<lambda>_ sv.
       (Continue (st\<lparr>bs_keepalive := CAP_KEEPALIVE_V1 \<in> set peer\<rparr>), sv)))"

definition on_initial_window_size :: "server_env \<Rightarrow> Frame \<Rightarrow> broker_state \<Rightarrow> server \<Rightarrow> broker_progress \<times> server" where
  "on_initial_window_size env f st sv =
     or_stop (request_body (decode_WindowSize (se_codec env) f) sv) (\<lambda>window_size sv.
       (Continue (st\<lparr>bs_window := Some window_size\<rparr>), sv))"

definition on_session_list :: "server_env \<Rightarrow> u32 \<Rightarrow> Frame \<Rightarrow> broker_state \<Rightarrow> server \<Rightarrow> broker_progress \<times> server" where
  "on_session_list env uid f st sv =
     or_stop (request_body (decode_SessionListRequest (se_codec env) f) sv) (\<lambda>continue_after_response sv.
     or_stop (enumerate_daemons env (socket_dir_for_uid (se_temp_dir env) uid) sv) (\<lambda>sessions sv.
     or_stop (client_send (se_codec env) SESSION_LIST (BSessionList sessions) sv) (\<lambda>_ sv.
       (if continue_after_response then Continue st else Stop (Returned (Ok ())), sv))))"

definition on_detach :: "server_env \<Rightarrow> u32 \<Rightarrow> Frame \<Rightarrow> server \<Rightarrow> broker_progress \<times> server" where
  "on_detach env uid f sv =
     or_stop (request_body (decode_DetachSessionRequest (se_codec env) f) sv) (\<lambda>session_id sv.
     or_stop (map_err SSocketPath (socket_path_for_uid (se_temp_dir env) uid session_id), sv) (\<lambda>path sv.
     or_stop (detach_via_socket (se_codec env) path sv) (\<lambda>_ sv. (Stop (Returned (Ok ())), sv))))"

definition attach_and_proxy ::
  "server_env \<Rightarrow> u32 \<Rightarrow> string \<Rightarrow> broker_state \<Rightarrow> server \<Rightarrow> broker_progress \<times> server" where
  "attach_and_proxy env uid session_id st sv =
     or_stop (map_err SSocketPath (socket_path_for_uid (se_temp_dir env) uid session_id), sv) (\<lambda>path sv.
     or_stop (connect_daemon path sv) (\<lambda>daemon sv.
       (case attach_daemon (se_codec env) (bs_window st) daemon of
          (Err e, daemon) \<Rightarrow> (stop_err e, sv)
        | (Ok _, daemon) \<Rightarrow>
            or_stop (client_send (se_codec env) ATTACHED_SESSION (BAttachedSession session_id) sv) (\<lambda>_ sv.
              (Stop (Proxying daemon (bs_keepalive st)), sv)))))"

definition on_attach :: "server_env \<Rightarrow> u32 \<Rightarrow> Frame \<Rightarrow> broker_state \<Rightarrow> server \<Rightarrow> broker_progress \<times> server" where
  "on_attach env uid f st sv =
     or_stop (request_body (decode_AttachSessionRequest (se_codec env) f) sv) (\<lambda>session_id sv.
       attach_and_proxy env uid session_id st sv)"

text \<open>The body of a new session request is empty: decoding checks only that it is one.\<close>

definition on_new_session :: "server_env \<Rightarrow> u32 \<Rightarrow> Frame \<Rightarrow> broker_state \<Rightarrow> server \<Rightarrow> broker_progress \<times> server" where
  "on_new_session env uid f st sv =
     or_stop (request_body (decode_body (se_codec env) KNewSessionRequest f) sv) (\<lambda>_ sv.
     or_stop (launch_daemon env uid (bs_window st) sv) (\<lambda>session_id sv.
       attach_and_proxy env uid session_id st sv))"

definition unsupported_message :: "msg_type \<Rightarrow> string" where
  "unsupported_message ty = ''unsupported broker request type '' @ show_nat (unat ty)"

definition on_other :: "server_env \<Rightarrow> Frame \<Rightarrow> broker_state \<Rightarrow> server \<Rightarrow> broker_progress \<times> server" where
  "on_other env f st sv =
     (if msg_name (frame_msg_type f) = None then (Continue st, sv)
      else
        or_stop (client_send (se_codec env) ERROR (BErrorMessage (unsupported_message (frame_msg_type f))) sv) (\<lambda>_ sv.
          (stop_err (UnexpectedMessage (frame_msg_type f)), sv)))"

definition on_frame :: "server_env \<Rightarrow> u32 \<Rightarrow> Frame \<Rightarrow> broker_state \<Rightarrow> server \<Rightarrow> broker_progress \<times> server" where
  "on_frame env uid f st sv =
     (let ty = frame_msg_type f in
      if ty = CAPABILITIES then on_capabilities env f st sv
      else if ty = INITIAL_WINDOW_SIZE then on_initial_window_size env f st sv
      else if ty = SESSION_LIST_REQUEST then on_session_list env uid f st sv
      else if ty = DETACH then on_detach env uid f sv
      else if ty = ATTACH_SESSION then on_attach env uid f st sv
      else if ty = NEW_SESSION then on_new_session env uid f st sv
      else on_other env f st sv)"

text \<open>A request does not touch the rest of the client's stream.\<close>

named_theorems keeps_in

lemma bind_io_in [keeps_in]:
  "sv_in (snd p) = r \<Longrightarrow> (\<And>a sv. sv_in sv = r \<Longrightarrow> sv_in (snd (f a sv)) = r) \<Longrightarrow> sv_in (snd (bind_io p f)) = r"
  by (auto simp: bind_io_def split: prod.splits result.splits)

lemma or_stop_in [keeps_in]:
  "sv_in (snd p) = r \<Longrightarrow> (\<And>a sv. sv_in sv = r \<Longrightarrow> sv_in (snd (f a sv)) = r) \<Longrightarrow> sv_in (snd (or_stop p f)) = r"
  by (auto simp: or_stop_def split: prod.splits result.splits)

lemma connect_in [keeps_in]:
  "sv_in sv = r \<Longrightarrow> sv_in (snd (connect_socket path sv)) = r" "sv_in sv = r \<Longrightarrow> sv_in (snd (connect_daemon path sv)) = r"
  by (auto simp: connect_socket_def connect_daemon_def split: list.split prod.split)

lemma client_send_in [keeps_in]: "sv_in sv = r \<Longrightarrow> sv_in (snd (client_send c ty b sv)) = r"
  by (simp add: client_send_def split: prod.split)

lemma with_daemon_in [keeps_in]: "sv_in sv = r \<Longrightarrow> sv_in (snd (with_daemon path conv sv)) = r"
  unfolding with_daemon_def by (rule bind_io_in) (auto simp: keeps_in split: prod.split)

lemma query_daemon_info_in [keeps_in]:
  "sv_in sv = r \<Longrightarrow> sv_in (snd (query_daemon_info c path sv)) = r"
  "sv_in sv = r \<Longrightarrow> sv_in (snd (detach_via_socket c path sv)) = r"
  unfolding query_daemon_info_def detach_via_socket_def by (simp_all add: keeps_in)

lemma drop_stale_socket_in [keeps_in]: "sv_in sv = r \<Longrightarrow> sv_in (snd (drop_stale_socket env path sv)) = r"
  using connect_in(1) [of sv r path] by (auto simp: drop_stale_socket_def split: prod.split)

lemma query_daemons_in [keeps_in]: "sv_in sv = r \<Longrightarrow> sv_in (snd (query_daemons env dir ids sv)) = r"
proof (induction ids arbitrary: sv)
  case (Cons i ids)
  have q: "query_daemon_info (se_codec env) path sv = (res, sv1) \<Longrightarrow> sv_in sv1 = r" for path res sv1
    using query_daemon_info_in(1) [OF Cons.prems] by (metis snd_conv)
  show ?case
    using Cons.prems q Cons.IH
    by (auto intro!: keeps_in split: result.splits prod.splits ServerError.splits)
qed simp

lemma enumerate_daemons_in [keeps_in]: "sv_in sv = r \<Longrightarrow> sv_in (snd (enumerate_daemons env dir sv)) = r"
  unfolding enumerate_daemons_def by (auto intro!: keeps_in split: result.splits)

lemma ready_loop_in [keeps_in]: "sv_in sv = r \<Longrightarrow> sv_in (snd (ready_loop c path delay k elapsed e sv)) = r"
proof (induction c path delay k elapsed e sv rule: ready_loop.induct)
  case (1 c path delay k elapsed e sv)
  obtain res sv1 where q: "query_daemon_info c path sv = (res, sv1)" by fastforce
  then have in1: "sv_in sv1 = r" using query_daemon_info_in(1) [OF "1.prems", of c path] by simp
  show ?case
  proof (cases "elapsed < READY_TIMEOUT \<and> (\<exists>x. res = Err (SConnect x) \<and> (x = NotFound \<or> x = ConnectionRefused))")
    case True
    then obtain x where x: "res = Err (SConnect x)" "x = NotFound \<or> x = ConnectionRefused" by blast
    have "sv_in (snd (ready_loop c path delay (Suc k) (elapsed + READY_SLEEP + delay k) (Some x) sv1)) = r"
      using "1.IH" [OF _ q [symmetric] x(1) refl x(2) in1] True by blast
    then show ?thesis using True q x by (simp add: ready_loop.simps [of c path delay k elapsed])
  next
    case False
    then show ?thesis
      using q in1 "1.prems" by (auto simp: ready_loop.simps [of c path delay k elapsed] split: result.splits ServerError.splits)
  qed
qed

lemma launch_daemon_in [keeps_in]: "sv_in sv = r \<Longrightarrow> sv_in (snd (launch_daemon env uid ws sv)) = r"
  unfolding launch_daemon_def wait_for_daemon_ready_def Let_def by (auto intro!: keeps_in)

lemma attach_and_proxy_in [keeps_in]: "sv_in sv = r \<Longrightarrow> sv_in (snd (attach_and_proxy env uid i st sv)) = r"
  unfolding attach_and_proxy_def by (auto intro!: keeps_in split: prod.split result.split)

lemma on_frame_keeps: "sv_in (snd (on_frame env uid f st sv)) = sv_in sv"
  unfolding on_frame_def on_capabilities_def on_initial_window_size_def on_session_list_def on_detach_def on_attach_def
    on_new_session_def on_other_def request_body_def Let_def
  by (auto intro!: keeps_in)

lemma on_frame_in: "on_frame env uid f st sv = (p, sv') \<Longrightarrow> sv_in sv' = sv_in sv"
  using on_frame_keeps [of env uid f st sv] by simp

function broker_loop :: "server_env \<Rightarrow> u32 \<Rightarrow> broker_state \<Rightarrow> server \<Rightarrow> broker_end \<times> server" where
  "broker_loop env uid st sv =
     (case read_frame (sv_in sv) of
        (Err e, r) \<Rightarrow> (Returned (Err (SProtocol e)), sv\<lparr>sv_in := r\<rparr>)
      | (Ok None, r) \<Rightarrow> (Returned (if bs_saw_request st then Ok () else Err NoBrokerRequest), sv\<lparr>sv_in := r\<rparr>)
      | (Ok (Some f), r) \<Rightarrow>
          (case on_frame env uid f (st\<lparr>bs_saw_request := True\<rparr>) (sv\<lparr>sv_in := r\<rparr>) of
             (Stop result, sv1) \<Rightarrow> (result, sv1)
           | (Continue st1, sv1) \<Rightarrow> broker_loop env uid st1 sv1))"
  by pat_completeness auto
termination
  by (relation "measure (\<lambda>(env, uid, st, sv). length (sv_in sv))")
     (auto dest!: read_frame_consumes [OF sym] on_frame_in [OF sym])

declare broker_loop.simps [simp del]

definition handle_broker_request :: "server_env \<Rightarrow> u32 \<Rightarrow> server \<Rightarrow> broker_end \<times> server" where
  "handle_broker_request env uid sv =
     broker_loop env uid \<lparr>bs_saw_request = False, bs_keepalive = False, bs_window = None\<rparr> sv"

section \<open>Forwarding\<close>

text \<open>
  \<open>proxy_attached_session\<close>: a thread passes frames from the client to the daemon and answers pings, the
  main thread passes frames from the daemon to the client. The lock around the client's
  writer makes the handling of one frame a step. \<open>None\<close>: the thread runs; when the main thread
  returns, the process ends.
\<close>

record proxy =
  px_client_in :: reader
  px_client_out :: writer
  px_daemon_in :: reader
  px_daemon_out :: writer
  px_up :: "(unit, ServerError) result option"
  px_down :: "(unit, ServerError) result option"
  px_write_shut :: bool \<comment> \<open>\<open>Shutdown::Write\<close> of the daemon stream\<close>
  px_both_shut :: bool
  px_pings :: nat \<comment> \<open>pings reported to the keepalive monitor\<close>

definition answer_ping :: "codec \<Rightarrow> bool \<Rightarrow> Frame \<Rightarrow> proxy \<Rightarrow> proxy" where
  "answer_ping c keepalive_enabled f px =
     (if \<not> keepalive_enabled then px\<lparr>px_up := Some (Err (UnexpectedMessage (frame_msg_type f)))\<rparr>
      else
        (case decode_Keepalive c f of
           Err e \<Rightarrow> px\<lparr>px_up := Some (Err (SProtocol e))\<rparr>
         | Ok nonce \<Rightarrow>
             (case write_body c PONG 0 (BKeepalive nonce) (px_client_out px) of
                (Err e, w) \<Rightarrow> px\<lparr>px_pings := Suc (px_pings px), px_client_out := w, px_up := Some (Err (SProtocol e))\<rparr>
              | (Ok _, w) \<Rightarrow> px\<lparr>px_pings := Suc (px_pings px), px_client_out := w\<rparr>)))"

definition forward_up :: "Frame \<Rightarrow> proxy \<Rightarrow> proxy" where
  "forward_up f px =
     (case write_to f (px_daemon_out px) of
        (Err e, w) \<Rightarrow> px\<lparr>px_daemon_out := w, px_up := Some (Err (SProtocol e))\<rparr>
      | (Ok _, w) \<Rightarrow>
          if frame_msg_type f = DETACH then px\<lparr>px_daemon_out := w, px_up := Some (Ok ()), px_write_shut := True\<rparr>
          else px\<lparr>px_daemon_out := w\<rparr>)"

definition up_step :: "codec \<Rightarrow> bool \<Rightarrow> proxy \<Rightarrow> proxy" where
  "up_step c keepalive_enabled px =
     (if px_up px \<noteq> None then px
      else
        (case read_frame (px_client_in px) of
           (Err e, r) \<Rightarrow> px\<lparr>px_client_in := r, px_up := Some (Err (SProtocol e))\<rparr>
         | (Ok None, r) \<Rightarrow> px\<lparr>px_client_in := r, px_up := Some (Ok ()), px_write_shut := True\<rparr>
         | (Ok (Some f), r) \<Rightarrow>
             if frame_msg_type f = PING then answer_ping c keepalive_enabled f (px\<lparr>px_client_in := r\<rparr>)
             else forward_up f (px\<lparr>px_client_in := r\<rparr>)))"

definition closes :: "Frame \<Rightarrow> bool" where
  "closes f \<longleftrightarrow> frame_msg_type f \<in> {CLIENT_SHOULD_EXIT, EXIT_STATUS, SESSION_BUSY, ERROR}"

definition down_step :: "proxy \<Rightarrow> proxy" where
  "down_step px =
     (case read_frame (px_daemon_in px) of
        (Err e, r) \<Rightarrow> px\<lparr>px_daemon_in := r, px_down := Some (Err (SProtocol e))\<rparr>
      | (Ok None, r) \<Rightarrow> px\<lparr>px_daemon_in := r, px_both_shut := True, px_down := Some (Ok ())\<rparr>
      | (Ok (Some f), r) \<Rightarrow>
          (case write_to f (px_client_out px) of
             (Err e, w) \<Rightarrow> px\<lparr>px_daemon_in := r, px_client_out := w, px_down := Some (Err (SProtocol e))\<rparr>
           | (Ok _, w) \<Rightarrow>
               if closes f
               then px\<lparr>px_daemon_in := r, px_client_out := w, px_both_shut := True, px_down := Some (Ok ())\<rparr>
               else px\<lparr>px_daemon_in := r, px_client_out := w\<rparr>))"

text \<open>A schedule says which thread moves: \<open>True\<close> for the main thread.\<close>

fun proxy_run :: "codec \<Rightarrow> bool \<Rightarrow> bool list \<Rightarrow> proxy \<Rightarrow> proxy" where
  "proxy_run c keepalive_enabled [] px = px"
| "proxy_run c keepalive_enabled (main # schedule) px =
     (if px_down px \<noteq> None then px
      else proxy_run c keepalive_enabled schedule (if main then down_step px else up_step c keepalive_enabled px))"

definition start_proxy :: "server \<Rightarrow> daemon_stream \<Rightarrow> proxy" where
  "start_proxy sv daemon =
     \<lparr>px_client_in = sv_in sv, px_client_out = sv_out sv, px_daemon_in = ds_in daemon, px_daemon_out = ds_out daemon,
      px_up = None, px_down = None, px_write_shut = False, px_both_shut = False, px_pings = 0\<rparr>"

definition proxy_attached_session ::
  "codec \<Rightarrow> bool list \<Rightarrow> server \<Rightarrow> daemon_stream \<Rightarrow> bool \<Rightarrow> (proxy, ServerError) result" where
  "proxy_attached_session c schedule sv daemon keepalive_enabled =
     (case bind_io (try_clone daemon) (\<lambda>_ daemon.
           bind_io (try_clone daemon) (\<lambda>_ daemon.
             if keepalive_enabled then try_clone daemon else (Ok (), daemon))) of
        (Err e, _) \<Rightarrow> Err e
      | (Ok _, daemon) \<Rightarrow> Ok (proxy_run c keepalive_enabled schedule (start_proxy sv daemon)))"

text \<open>The keepalive monitor, on the gaps before the events it receives: whether it shuts the daemon stream.\<close>

datatype KeepaliveMonitorEvent = Ping | StopMonitor

definition BROKER_KEEPALIVE_TIMEOUT :: nat where
  "BROKER_KEEPALIVE_TIMEOUT = nanos 45"

text \<open>\<open>None\<close>: still waiting; an event that comes after the timeout is not seen.\<close>

fun keepalive_monitor :: "nat \<Rightarrow> (nat \<times> KeepaliveMonitorEvent) list \<Rightarrow> bool option" where
  "keepalive_monitor timeout [] = None"
| "keepalive_monitor timeout ((gap, ev) # evs) =
     (if timeout < gap then Some True
      else (case ev of Ping \<Rightarrow> keepalive_monitor timeout evs | StopMonitor \<Rightarrow> Some False))"

section \<open>Local commands\<close>

definition detach_from_env :: "server_env \<Rightarrow> string option \<Rightarrow> server \<Rightarrow> (unit, ServerError) result \<times> server" where
  "detach_from_env env env_socket sv =
     (case env_socket of
        None \<Rightarrow> (Err (MissingEnvironment ''SSH_OBI_SOCKET''), sv)
      | Some socket \<Rightarrow> detach_via_socket (se_codec env) socket sv)"

definition detach_local_session :: "server_env \<Rightarrow> string \<Rightarrow> server \<Rightarrow> (unit, ServerError) result \<times> server" where
  "detach_local_session env session_id sv =
     (case socket_path (socket_dir_for_uid (se_temp_dir env) (se_uid env)) session_id of
        Err e \<Rightarrow> (Err (SSocketPath e), sv)
      | Ok socket \<Rightarrow> detach_via_socket (se_codec env) socket sv)"

definition list_local_sessions ::
  "server_env \<Rightarrow> (SystemTime \<Rightarrow> string) \<Rightarrow> string option \<Rightarrow> server \<Rightarrow> (string, ServerError) result \<times> server" where
  "list_local_sessions env display_time current_session_id sv =
     bind_io (enumerate_daemons env (socket_dir_for_uid (se_temp_dir env) (se_uid env)) sv) (\<lambda>infos sv.
       (map_err SSessionId
          (and_then (collect_results (map from_record infos))
             (\<lambda>sessions. Ok (render_session_list_table display_time sessions current_session_id))), sv))"

section \<open>Lemmas\<close>

subsection \<open>Forwarding\<close>

lemma shuffles_snoc:
  "zs \<in> shuffles xs ys \<Longrightarrow> zs @ [x] \<in> shuffles (xs @ [x]) ys"
proof (induction zs arbitrary: xs ys)
  case (Cons z zs)
  then show ?case using Cons.IH [of "[]" zs] by (auto simp: Cons_in_shuffles_iff hd_append neq_Nil_conv)
qed simp

lemma shuffles_snoc2: "zs \<in> shuffles xs ys \<Longrightarrow> zs @ [y] \<in> shuffles xs (ys @ [y])"
  using shuffles_snoc [of zs ys xs y] by (simp add: shuffles_commutes)

abbreviation is_ping :: "Frame \<Rightarrow> bool" where
  "is_ping f \<equiv> frame_msg_type f = PING"

definition pong_of :: "codec \<Rightarrow> Frame \<Rightarrow> Frame" where
  "pong_of c f =
     (case decode_Keepalive c f of
        Ok nonce \<Rightarrow> (case from_body c PONG 0 (BKeepalive nonce) of Ok g \<Rightarrow> g | Err _ \<Rightarrow> f)
      | Err _ \<Rightarrow> f)"

text \<open>A ping that the broker can answer.\<close>

definition answerable :: "codec \<Rightarrow> bool \<Rightarrow> Frame \<Rightarrow> bool" where
  "answerable c keepalive_enabled f \<longleftrightarrow>
     frame_ok f \<and>
     (is_ping f \<longrightarrow> keepalive_enabled \<and>
        (\<exists>nonce. decode_Keepalive c f = Ok nonce \<and> from_body c PONG 0 (BKeepalive nonce) = Ok (pong_of c f)))"

definition until_close :: "Frame list \<Rightarrow> Frame list" where
  "until_close gs = takeWhile (\<lambda>g. \<not> closes g) gs @ take 1 (dropWhile (\<lambda>g. \<not> closes g) gs)"

lemma until_close_no_close:
  assumes "list_all (\<lambda>g. \<not> closes g) gs" shows "until_close gs = gs"
proof -
  have w: "takeWhile (\<lambda>g. \<not> closes g) gs = gs" "dropWhile (\<lambda>g. \<not> closes g) gs = []"
    using assms by (simp_all add: list_all_iff)
  show ?thesis unfolding until_close_def w by simp
qed

lemma until_close_at:
  assumes "list_all (\<lambda>g. \<not> closes g) (take n gs)" "n < length gs" "closes (gs ! n)"
  shows "until_close gs = take (Suc n) gs"
proof -
  have gs: "gs = take n gs @ gs ! n # drop (Suc n) gs" using assms(2) by (simp add: id_take_nth_drop)
  have "until_close (take n gs @ gs ! n # drop (Suc n) gs) = take n gs @ [gs ! n]"
    using assms(1,3) by (auto simp: until_close_def list_all_iff takeWhile_append2 dropWhile_append2)
  then show ?thesis using gs assms(2) by (simp add: take_Suc_conv_app_nth)
qed

definition stream_of :: "Frame list \<Rightarrow> reader" where
  "stream_of fs = reader_of (concat (map frame_bytes fs))"

lemma read_stream:
  assumes "list_all frame_ok fs"
  shows "read_frame (stream_of (drop m fs)) =
     (if m < length fs then (Ok (Some (fs ! m)), stream_of (drop (Suc m) fs)) else (Ok None, []))"
proof (cases "m < length fs")
  case True
  then have "stream_of (drop m fs) = reader_of (frame_bytes (fs ! m)) @ stream_of (drop (Suc m) fs)"
    by (simp add: stream_of_def flip: Cons_nth_drop_Suc)
  moreover have "frame_ok (fs ! m)" using assms True by (simp add: list_all_length)
  ultimately show ?thesis using True by (simp add: read_frame_bytes)
qed (simp add: stream_of_def read_frame_def)

text \<open>\<open>m\<close> frames of the client and \<open>n\<close> of the daemon were handled; \<open>zs\<close> is what the client was sent.\<close>

definition forwarded ::
  "codec \<Rightarrow> Frame list \<Rightarrow> Frame list \<Rightarrow> u8 list \<Rightarrow> u8 list \<Rightarrow> nat \<Rightarrow> nat \<Rightarrow> Frame list \<Rightarrow> proxy \<Rightarrow> bool" where
  "forwarded c fs gs d0 c0 m n zs px \<longleftrightarrow>
     m \<le> length fs \<and> n \<le> length gs \<and>
     wr_budget (px_client_out px) = None \<and> wr_budget (px_daemon_out px) = None \<and>
     wr_out (px_daemon_out px) = d0 @ concat (map frame_bytes (filter (\<lambda>f. \<not> is_ping f) (take m fs))) \<and>
     wr_out (px_client_out px) = c0 @ concat (map frame_bytes zs) \<and>
     zs \<in> shuffles (map (pong_of c) (filter is_ping (take m fs))) (take n gs) \<and>
     px_up px \<in> {None, Some (Ok ())} \<and>
     (px_up px = None \<longrightarrow> px_client_in px = stream_of (drop m fs)) \<and>
     (if px_down px = None then px_daemon_in px = stream_of (drop n gs) \<and> list_all (\<lambda>g. \<not> closes g) (take n gs)
      else px_down px = Some (Ok ()) \<and> take n gs = until_close gs)"

lemma forwarded_down:
  assumes inv: "forwarded c fs gs d0 c0 m n zs px" and run: "px_down px = None" and ok: "list_all frame_ok gs"
  shows "(\<exists>zs'. forwarded c fs gs d0 c0 m (Suc n) zs' (down_step px) \<and> n < length gs) \<or>
    forwarded c fs gs d0 c0 m n zs (down_step px) \<and> px_down (down_step px) \<noteq> None"
proof (cases "n < length gs")
  case True
  let ?f = "gs ! n"
  have f: "frame_ok ?f" using ok True by (simp add: list_all_length)
  have r: "read_frame (px_daemon_in px) = (Ok (Some ?f), stream_of (drop (Suc n) gs))"
    using inv run read_stream [OF ok, of n] True by (simp add: forwarded_def)
  have w: "write_to ?f (px_client_out px) =
      (Ok (), (px_client_out px)\<lparr>wr_out := wr_out (px_client_out px) @ frame_bytes ?f\<rparr>)"
    using inv f by (intro write_to_no_budget) (simp_all add: forwarded_def)
  have t: "take (Suc n) gs = take n gs @ [?f]" using True by (simp add: take_Suc_conv_app_nth)
  have s: "zs @ [?f] \<in> shuffles (map (pong_of c) (filter is_ping (take m fs))) (take (Suc n) gs)"
    using inv unfolding t by (intro shuffles_snoc2) (simp add: forwarded_def)
  have nc: "list_all (\<lambda>g. \<not> closes g) (take n gs)" using inv run by (simp add: forwarded_def)
  let ?px = "px\<lparr>px_daemon_in := stream_of (drop (Suc n) gs),
      px_client_out := (px_client_out px)\<lparr>wr_out := wr_out (px_client_out px) @ frame_bytes ?f\<rparr>\<rparr>"
  have step: "down_step px = (if closes ?f then ?px\<lparr>px_both_shut := True, px_down := Some (Ok ())\<rparr> else ?px)"
    by (simp add: down_step_def r w)
  have "forwarded c fs gs d0 c0 m (Suc n) (zs @ [?f]) (down_step px)"
  proof (cases "closes ?f")
    case closed: True
    then have u: "take (Suc n) gs = until_close gs" using until_close_at [OF nc True] by simp
    show ?thesis
      using inv run True s u closed unfolding step by (simp add: forwarded_def)
  next
    case False
    then have "list_all (\<lambda>g. \<not> closes g) (take (Suc n) gs)" using nc unfolding t by simp
    then show ?thesis
      using inv run True s False unfolding step by (simp add: forwarded_def)
  qed
  then show ?thesis using True by blast
next
  case False
  then have n: "n = length gs" using inv by (simp add: forwarded_def)
  have r: "read_frame (px_daemon_in px) = (Ok None, [])"
    using inv run read_stream [OF ok, of n] False by (simp add: forwarded_def)
  have "until_close gs = gs" using inv run n by (intro until_close_no_close) (simp add: forwarded_def)
  moreover have "down_step px = px\<lparr>px_daemon_in := [], px_both_shut := True, px_down := Some (Ok ())\<rparr>"
    by (simp add: down_step_def r)
  ultimately show ?thesis using inv run n by (simp add: forwarded_def)
qed

lemma forwarded_up:
  assumes inv: "forwarded c fs gs d0 c0 m n zs px" and ok: "list_all (answerable c en) fs"
  shows "\<exists>m' zs'. forwarded c fs gs d0 c0 m' n zs' (up_step c en px) \<and> px_down (up_step c en px) = px_down px"
proof (cases "px_up px = None \<and> m < length fs")
  case True
  let ?f = "fs ! m"
  have a: "answerable c en ?f" using ok True by (simp add: list_all_length)
  have fok: "list_all frame_ok fs" using ok by (auto simp: list_all_iff answerable_def)
  have r: "read_frame (px_client_in px) = (Ok (Some ?f), stream_of (drop (Suc m) fs))"
    using inv True read_stream [OF fok, of m] by (simp add: forwarded_def)
  have t: "take (Suc m) fs = take m fs @ [?f]" using True by (simp add: take_Suc_conv_app_nth)
  show ?thesis
  proof (cases "is_ping ?f")
    case ping: True
    then obtain nonce where p: "decode_Keepalive c ?f = Ok nonce" "from_body c PONG 0 (BKeepalive nonce) = Ok (pong_of c ?f)" "en"
      using a by (auto simp: answerable_def)
    have "frame_ok (pong_of c ?f)" using p(2) by (auto simp: from_body_Ok_iff frame_ok_def)
    then have w: "write_body c PONG 0 (BKeepalive nonce) (px_client_out px) =
        (Ok (), (px_client_out px)\<lparr>wr_out := wr_out (px_client_out px) @ frame_bytes (pong_of c ?f)\<rparr>)"
      using inv p(2) by (simp add: write_body_def write_to_no_budget forwarded_def)
    have "zs @ [pong_of c ?f] \<in> shuffles (map (pong_of c) (filter is_ping (take m fs)) @ [pong_of c ?f]) (take n gs)"
      using inv by (intro shuffles_snoc) (simp add: forwarded_def)
    moreover have step: "up_step c en px = px\<lparr>px_client_in := stream_of (drop (Suc m) fs), px_pings := Suc (px_pings px),
        px_client_out := (px_client_out px)\<lparr>wr_out := wr_out (px_client_out px) @ frame_bytes (pong_of c ?f)\<rparr>\<rparr>"
      using True ping p w by (simp add: up_step_def r answer_ping_def)
    ultimately have "forwarded c fs gs d0 c0 (Suc m) n (zs @ [pong_of c ?f]) (up_step c en px)"
      using inv True ping unfolding step by (simp add: forwarded_def t)
    then show ?thesis unfolding step by auto
  next
    case False
    have "frame_ok ?f" using a by (simp add: answerable_def)
    then have w: "write_to ?f (px_daemon_out px) =
        (Ok (), (px_daemon_out px)\<lparr>wr_out := wr_out (px_daemon_out px) @ frame_bytes ?f\<rparr>)"
      using inv by (intro write_to_no_budget) (simp_all add: forwarded_def)
    let ?px = "px\<lparr>px_client_in := stream_of (drop (Suc m) fs),
        px_daemon_out := (px_daemon_out px)\<lparr>wr_out := wr_out (px_daemon_out px) @ frame_bytes ?f\<rparr>\<rparr>"
    have step: "up_step c en px = (if frame_msg_type ?f = DETACH then ?px\<lparr>px_up := Some (Ok ()), px_write_shut := True\<rparr> else ?px)"
      using True False w by (simp add: up_step_def r forward_up_def)
    have "forwarded c fs gs d0 c0 (Suc m) n zs (up_step c en px)"
      using inv True False unfolding step by (simp add: forwarded_def t)
    moreover have "px_down (up_step c en px) = px_down px" unfolding step by simp
    ultimately show ?thesis by blast
  qed
next
  case False
  show ?thesis
  proof (cases "px_up px = None")
    case True
    then have m: "m = length fs" using False inv by (simp add: forwarded_def)
    have "read_frame (px_client_in px) = (Ok None, [])"
      using inv True m by (simp add: forwarded_def stream_of_def read_frame_def)
    then have step: "up_step c en px = px\<lparr>px_client_in := [], px_up := Some (Ok ()), px_write_shut := True\<rparr>"
      using True by (simp add: up_step_def)
    have "forwarded c fs gs d0 c0 m n zs (up_step c en px)" using inv unfolding step by (simp add: forwarded_def)
    then show ?thesis unfolding step by auto
  next
    case stopped: False
    then have "up_step c en px = px" by (simp add: up_step_def)
    then show ?thesis using inv by metis
  qed
qed

lemma forwarded_run:
  assumes "forwarded c fs gs d0 c0 m n zs px" "list_all (answerable c en) fs" "list_all frame_ok gs"
  shows "\<exists>m' n' zs'. forwarded c fs gs d0 c0 m' n' zs' (proxy_run c en schedule px) \<and>
    (px_down px = None \<and> length gs - n < length (filter id schedule) \<or> px_down px \<noteq> None \<longrightarrow>
     px_down (proxy_run c en schedule px) \<noteq> None)"
  using assms(1)
proof (induction schedule arbitrary: m n zs px)
  case Nil
  then show ?case by auto
next
  case (Cons main schedule)
  show ?case
  proof (cases "px_down px = None")
    case False
    then show ?thesis using Cons.prems by auto
  next
    case True
    show ?thesis
    proof (cases main)
      case m: True
      consider zs' where "forwarded c fs gs d0 c0 m (Suc n) zs' (down_step px)" "n < length gs"
        | "forwarded c fs gs d0 c0 m n zs (down_step px)" "px_down (down_step px) \<noteq> None"
        using forwarded_down [OF Cons.prems True assms(3)] by blast
      then show ?thesis
      proof cases
        case 1
        show ?thesis using Cons.IH [OF 1(1)] 1(2) True m by fastforce
      next
        case 2
        show ?thesis using Cons.IH [OF 2(1)] 2(2) True m by fastforce
      qed
    next
      case False
      obtain m' zs' where "forwarded c fs gs d0 c0 m' n zs' (up_step c en px)" "px_down (up_step c en px) = px_down px"
        using forwarded_up [OF Cons.prems assms(2)] by blast
      then show ?thesis using Cons.IH [of m' n zs' "up_step c en px"] True False by simp
    qed
  qed
qed

subsection \<open>Listing\<close>

text \<open>What the daemon behind a path answers to the next info request.\<close>

definition first_answer :: "codec \<Rightarrow> server \<Rightarrow> string \<Rightarrow> (SessionRecord, ServerError) result" where
  "first_answer c sv path =
     (case sv_socks sv path of
        [] \<Rightarrow> Err (SConnect NotFound)
      | Err e # _ \<Rightarrow> Err (SConnect e)
      | Ok ds # _ \<Rightarrow> fst (info_conversation c ds))"

lemma query_daemon_info_answer:
  assumes "query_daemon_info c path sv = (res, sv')"
  shows "res = first_answer c sv path" and "q \<noteq> path \<Longrightarrow> sv_socks sv' q = sv_socks sv q"
  using assms
  by (auto simp: query_daemon_info_def with_daemon_def first_answer_def connect_daemon_def connect_socket_def bind_io_def
      split: list.splits result.splits prod.splits)

lemma drop_stale_socket_others:
  "drop_stale_socket env path sv = (res, sv') \<Longrightarrow> q \<noteq> path \<Longrightarrow> sv_socks sv' q = sv_socks sv q"
  by (auto simp: drop_stale_socket_def connect_socket_def split: list.splits prod.splits)

lemma socket_path_inj:
  assumes "socket_path dir i = Ok p" "socket_path dir j = Ok p" shows "i = j"
proof -
  have p: "\<exists>pre. \<forall>k q. socket_path dir k = Ok q \<longrightarrow> q = pre @ k @ ''.sock''"
  proof (intro exI allI impI)
    fix k q assume q: "socket_path dir k = Ok q"
    then have "8 \<le> length k" "list_all is_base32_char k"
      by (auto simp: socket_path_def session_id_new_def split: result.splits if_splits)
    then have "take 1 (k @ ''.sock'') \<noteq> ''/''"
      using base32_no_slash [of k] by (cases k) auto
    then show "q = (if dir \<noteq> [] \<and> last dir \<noteq> CHR ''/'' then dir @ ''/'' else dir) @ k @ ''.sock''"
      using q by (auto simp: socket_path_def session_id_new_def path_join_def Let_def split: result.splits if_splits)
  qed
  then obtain pre where "\<forall>k q. socket_path dir k = Ok q \<longrightarrow> q = pre @ k @ ''.sock''" by blast
  then have "pre @ i @ ''.sock'' = pre @ j @ ''.sock''" using assms by metis
  then show ?thesis by simp
qed

definition alive :: "server_env \<Rightarrow> server \<Rightarrow> string \<Rightarrow> SessionId \<Rightarrow> SessionRecord list" where
  "alive env sv dir i =
     (case socket_path dir i of
        Ok p \<Rightarrow> (case first_answer (se_codec env) sv p of Ok r \<Rightarrow> [r] | Err _ \<Rightarrow> [])
      | Err _ \<Rightarrow> [])"

definition stale_or_alive :: "server_env \<Rightarrow> server \<Rightarrow> string \<Rightarrow> SessionId \<Rightarrow> bool" where
  "stale_or_alive env sv dir i \<longleftrightarrow>
     (\<exists>p. socket_path dir i = Ok p \<and>
        ((\<exists>r. first_answer (se_codec env) sv p = Ok r) \<or>
         first_answer (se_codec env) sv p \<in> {Err (SConnect ConnectionRefused), Err (SConnect NotFound)}))"

lemma alive_cong:
  assumes "\<And>p. socket_path dir i = Ok p \<Longrightarrow> sv_socks sv' p = sv_socks sv p"
  shows "alive env sv' dir i = alive env sv dir i" "stale_or_alive env sv' dir i = stale_or_alive env sv dir i"
  using assms by (auto simp: alive_def stale_or_alive_def first_answer_def split: result.split)

lemma query_daemons_Ok:
  assumes "query_daemons env dir ids sv = (Ok infos, sv')" "distinct ids"
  shows "infos = concat (map (alive env sv dir) ids) \<and> list_all (stale_or_alive env sv dir) ids"
  using assms
proof (induction ids arbitrary: sv infos)
  case (Cons i ids)
  obtain p where p: "socket_path dir i = Ok p" using Cons.prems(1) by (auto split: result.splits)
  obtain res sv1 where q: "query_daemon_info (se_codec env) p sv = (res, sv1)" by fastforce
  note ans = query_daemon_info_answer [OF q]
  have others: "alive env sv2 dir j = alive env sv dir j \<and> stale_or_alive env sv2 dir j = stale_or_alive env sv dir j"
    if "j \<in> set ids" "\<And>q. q \<noteq> p \<Longrightarrow> sv_socks sv2 q = sv_socks sv q" for j sv2
  proof -
    have "r \<noteq> p" if "socket_path dir j = Ok r" for r
      using socket_path_inj [OF p] that \<open>j \<in> set ids\<close> Cons.prems(2) by auto
    then show ?thesis using alive_cong [of dir j sv2 sv env] that(2) by blast
  qed
  have rest: "rs = concat (map (alive env sv dir) ids) \<and> list_all (stale_or_alive env sv dir) ids"
    if "query_daemons env dir ids sv2 = (Ok rs, sv')" "\<And>q. q \<noteq> p \<Longrightarrow> sv_socks sv2 q = sv_socks sv q" for rs sv2
    using Cons.IH [OF that(1)] Cons.prems(2) others [OF _ that(2)] by (auto simp: list_all_iff cong: map_cong)
  show ?case
  proof (cases res)
    case (Ok info)
    then obtain rs where "query_daemons env dir ids sv1 = (Ok rs, sv')" "infos = info # rs"
      using Cons.prems(1) p q by (auto simp: bind_io_Ok)
    then show ?thesis
      using rest [of sv1 rs] ans(2) ans(1) [symmetric] Ok p
      by (simp add: alive_def [of env sv dir i] stale_or_alive_def [of env sv dir i])
  next
    case (Err e)
    then obtain x where x: "e = SConnect x" "x = ConnectionRefused \<or> x = NotFound"
      using Cons.prems(1) p q by (auto split: ServerError.splits if_splits)
    then obtain b sv2 where d: "drop_stale_socket env p sv1 = (Ok b, sv2)" "query_daemons env dir ids sv2 = (Ok infos, sv')"
      using Cons.prems(1) p q Err by (auto simp: bind_io_Ok)
    have "sv_socks sv2 r = sv_socks sv r" if "r \<noteq> p" for r
      using drop_stale_socket_others [OF d(1) that] ans(2) [OF that] by simp
    from rest [OF d(2) this] show ?thesis
      using ans(1) [symmetric] Err x p by (auto simp: alive_def [of env sv dir i] stale_or_alive_def [of env sv dir i])
  qed
qed simp

subsection \<open>Keepalive\<close>

text \<open>The monitor shuts the daemon stream exactly when the first gap above the timeout comes before a stop.\<close>

lemma keepalive_monitor_fires:
  "keepalive_monitor timeout evs = Some True \<longleftrightarrow>
    (case dropWhile (\<lambda>(gap, ev). gap \<le> timeout \<and> ev = Ping) evs of [] \<Rightarrow> False | (gap, ev) # _ \<Rightarrow> timeout < gap)"
  by (induction timeout evs rule: keepalive_monitor.induct) (auto split: KeepaliveMonitorEvent.split)

subsection \<open>Answers\<close>

lemma client_send_Ok:
  assumes "from_body c ty 0 b = Ok f" "wr_budget (sv_out sv) = None"
  shows "client_send c ty b sv = (Ok (), sv\<lparr>sv_out := (sv_out sv)\<lparr>wr_out := wr_out (sv_out sv) @ frame_bytes f\<rparr>\<rparr>)"
proof -
  have "frame_ok f" using assms(1) by (auto simp: from_body_Ok_iff frame_ok_def)
  then show ?thesis using assms by (simp add: client_send_def write_body_def write_to_no_budget)
qed

lemma broker_loop_frame:
  assumes "frame_ok f" "sv_in sv = reader_of (frame_bytes f) @ r"
  shows "broker_loop env uid st sv =
     (case on_frame env uid f (st\<lparr>bs_saw_request := True\<rparr>) (sv\<lparr>sv_in := r\<rparr>) of
        (Stop result, sv1) \<Rightarrow> (result, sv1)
      | (Continue st1, sv1) \<Rightarrow> broker_loop env uid st1 sv1)"
  using assms by (simp add: broker_loop.simps [of env uid st sv] read_frame_bytes)

lemma on_capabilities_Ok:
  assumes "codec_round_trips (se_codec env)" "from_body (se_codec env) CAPABILITIES 0 (BCapabilities caps) = Ok f"
    and "from_body (se_codec env) CAPABILITIES 0 (BCapabilities DEFAULT_CAPABILITIES) = Ok g" "wr_budget (sv_out sv) = None"
  shows "on_frame env uid f st sv =
     (Continue (st\<lparr>bs_keepalive := CAP_KEEPALIVE_V1 \<in> set caps\<rparr>),
      sv\<lparr>sv_out := (sv_out sv)\<lparr>wr_out := wr_out (sv_out sv) @ frame_bytes g\<rparr>\<rparr>)"
proof -
  have "frame_msg_type f = CAPABILITIES" using assms(2) by (auto simp: from_body_Ok_iff)
  then show ?thesis
    using decode_typed_from_body(1) [OF assms(1,2) refl] client_send_Ok [OF assms(3,4)]
    by (simp add: on_frame_def on_capabilities_def request_body_def or_stop_def)
qed

lemma on_attach_frame:
  assumes "codec_round_trips (se_codec env)" "from_body (se_codec env) ATTACH_SESSION 0 (BAttachSessionRequest x) = Ok f"
  shows "on_frame env uid f st sv = attach_and_proxy env uid x st sv"
proof -
  have "frame_msg_type f = ATTACH_SESSION" using assms(2) by (auto simp: from_body_Ok_iff)
  then show ?thesis
    using decode_typed_from_body(5) [OF assms refl]
    by (simp add: on_frame_def on_attach_def request_body_def or_stop_def obi_consts)
qed

text \<open>A request to attach to a session whose socket cannot be connected is not answered.\<close>

lemma attach_missing:
  assumes "socket_path_for_uid (se_temp_dir env) uid x = Ok p" "sv_socks sv p = []"
  shows "attach_and_proxy env uid x st sv = (stop_err (SConnect NotFound), sv)"
  using assms by (simp add: attach_and_proxy_def or_stop_def connect_daemon_def connect_socket_def)

lemma broker_missing_session:
  assumes c: "codec_round_trips (se_codec env)"
    and fc: "from_body (se_codec env) CAPABILITIES 0 (BCapabilities DEFAULT_CAPABILITIES) = Ok fc"
    and fa: "from_body (se_codec env) ATTACH_SESSION 0 (BAttachSessionRequest x) = Ok fa"
    and p: "socket_path_for_uid (se_temp_dir env) uid x = Ok p" "sv_socks sv p = []"
    and sv: "sv_in sv = reader_of (frame_bytes fc @ frame_bytes fa) @ r" "wr_budget (sv_out sv) = None"
  shows "fst (handle_broker_request env uid sv) = Returned (Err (SConnect NotFound))"
    and "wr_out (sv_out (snd (handle_broker_request env uid sv))) = wr_out (sv_out sv) @ frame_bytes fc"
proof -
  let ?sv1 = "sv\<lparr>sv_in := reader_of (frame_bytes fa) @ r,
      sv_out := (sv_out sv)\<lparr>wr_out := wr_out (sv_out sv) @ frame_bytes fc\<rparr>\<rparr>"
  have ok: "frame_ok fc" "frame_ok fa" using fc fa by (auto simp: from_body_Ok_iff frame_ok_def)
  have "handle_broker_request env uid sv = broker_loop env uid
      \<lparr>bs_saw_request = True, bs_keepalive = CAP_KEEPALIVE_V1 \<in> set DEFAULT_CAPABILITIES, bs_window = None\<rparr> ?sv1"
    unfolding handle_broker_request_def
    using broker_loop_frame [OF ok(1), of sv "reader_of (frame_bytes fa) @ r"] sv on_capabilities_Ok [OF c fc fc] by simp
  also have "\<dots> = (Returned (Err (SConnect NotFound)), ?sv1\<lparr>sv_in := r\<rparr>)"
    using broker_loop_frame [OF ok(2), of ?sv1 r] on_attach_frame [OF c fa] attach_missing [OF p(1)] p(2)
    by (simp add: stop_err_def)
  finally show "fst (handle_broker_request env uid sv) = Returned (Err (SConnect NotFound))"
    and "wr_out (sv_out (snd (handle_broker_request env uid sv))) = wr_out (sv_out sv) @ frame_bytes fc"
    by simp_all
qed

text \<open>A daemon that answers an info request, sends a little output and the exit status, for witnesses.\<close>

definition demo_record :: SessionRecord where
  "demo_record = \<lparr>rec_session_id = ''abcdefgh'', rec_init_time = 0, rec_last_detach_time = None,
     rec_current_command = ''sh'', rec_attached = False\<rparr>"

definition info_codec :: codec where
  "info_codec =
     \<lparr>cbor_enc = (\<lambda>b. Some []),
      cbor_dec = (\<lambda>k bs. case k of
          KCapabilities \<Rightarrow> Some (BCapabilities DEFAULT_CAPABILITIES)
        | KDaemonInfo \<Rightarrow> Some (BDaemonInfo demo_record)
        | _ \<Rightarrow> None)\<rparr>"

definition demo_frame :: "msg_type \<Rightarrow> Frame" where
  "demo_frame ty = \<lparr>frame_msg_type = ty, frame_flags = 0, frame_payload = []\<rparr>"

definition demo_stream :: "Frame list \<Rightarrow> daemon_stream" where
  "demo_stream fs = \<lparr>ds_in = stream_of fs, ds_out = empty_writer, ds_clones = [], ds_timeouts = []\<rparr>"

definition demo_daemon :: daemon_stream where
  "demo_daemon = demo_stream [demo_frame PTY_DATA, demo_frame EXIT_STATUS]"

definition demo_server :: server where
  "demo_server =
     \<lparr>sv_in = stream_of [demo_frame PTY_DATA], sv_out = empty_writer,
      sv_socks = (\<lambda>p. if p = ''/t/abcdefgh.sock'' then [Ok (demo_stream [demo_frame CAPABILITIES, demo_frame DAEMON_INFO])] else []),
      sv_sent = [], sv_removed = [], sv_spawned = []\<rparr>"

definition demo_server_env :: server_env where
  "demo_server_env =
     \<lparr>se_codec = info_codec, se_temp_dir = ''/t'', se_uid = 1000, se_show_io = (\<lambda>_. []),
      se_read_dir = (\<lambda>_. Ok [Ok ''/t/abcdefgh.sock'', Ok ''/t/note'']), se_remove = (\<lambda>_. Ok ()), se_gen = demo_env,
      se_current_exe = Ok (), se_spawn = Ok (), se_starter = Ok (Some 0), se_delay = (\<lambda>_. 0)\<rparr>"

lemma demo_send:
  "wr_budget (ds_out ds) = None \<Longrightarrow> daemon_send info_codec ty b ds =
     (Ok (), ds\<lparr>ds_out := (ds_out ds)\<lparr>wr_out := wr_out (ds_out ds) @ frame_bytes (demo_frame ty)\<rparr>\<rparr>)"
  by (simp add: daemon_send_def write_body_def from_body_def info_codec_def frame_new_def write_to_no_budget frame_ok_def
      demo_frame_def)

lemma demo_await:
  "ds_in ds = stream_of (demo_frame ty # fs) \<Longrightarrow> await_daemon_frame ty ds = (Ok (demo_frame ty), ds\<lparr>ds_in := stream_of fs\<rparr>)"
  by (simp add: await_daemon_frame.simps [of ty ds] stream_of_def read_frame_bytes frame_ok_def demo_frame_def)

lemma demo_info_answer:
  "fst (info_conversation (se_codec demo_server_env) (demo_stream [demo_frame CAPABILITIES, demo_frame DAEMON_INFO])) =
     Ok demo_record"
proof -
  have d: "decode_Capabilities info_codec f = Ok DEFAULT_CAPABILITIES" "decode_DaemonInfo info_codec f = Ok demo_record" for f
    by (simp_all add: decode_Capabilities_def decode_DaemonInfo_def decode_as_def decode_body_def info_codec_def)
  have "DEFAULT_CAPABILITIES \<noteq> []" "se_codec demo_server_env = info_codec"
    by (simp_all add: DEFAULT_CAPABILITIES_def demo_server_env_def)
  then show ?thesis
    by (simp add: info_conversation_def configure_daemon_control_stream_def exchange_daemon_capabilities_def set_timeout_def
        try_clone_def demo_stream_def empty_writer_def bind_io_def demo_send demo_await d Let_def)
qed

section \<open>Properties\<close>

text \<open>
  C16. Forwarding keeps every frame, under every schedule of the two threads. The daemon receives the
  client's frames without the pings, unchanged and in order; the client receives the daemon's frames and one
  pong for each ping handled, each sequence in order and no frame torn. Once the main thread has
  moved more often than the daemon sent frames, it has returned without an error and has passed on everything
  up to the first closing frame.
\<close>

theorem proxy_forwards_frames:
  assumes "list_all (answerable c en) fs" and "list_all frame_ok gs"
    and "sv_in sv = stream_of fs" and "ds_in daemon = stream_of gs" and "ds_clones daemon = []"
    and "wr_budget (sv_out sv) = None" and "wr_budget (ds_out daemon) = None"
  shows "\<exists>px m n zs. proxy_attached_session c schedule sv daemon en = Ok px \<and>
    wr_out (px_daemon_out px) = wr_out (ds_out daemon) @ concat (map frame_bytes (filter (\<lambda>f. \<not> is_ping f) (take m fs))) \<and>
    wr_out (px_client_out px) = wr_out (sv_out sv) @ concat (map frame_bytes zs) \<and>
    zs \<in> shuffles (map (pong_of c) (filter is_ping (take m fs))) (take n gs) \<and>
    (length gs < length (filter id schedule) \<longrightarrow> px_down px = Some (Ok ()) \<and> take n gs = until_close gs)"
proof -
  have "forwarded c fs gs (wr_out (ds_out daemon)) (wr_out (sv_out sv)) 0 0 [] (start_proxy sv daemon)"
    using assms by (simp add: forwarded_def start_proxy_def)
  from forwarded_run [OF this assms(1,2), of schedule]
  obtain m n zs where r: "forwarded c fs gs (wr_out (ds_out daemon)) (wr_out (sv_out sv)) m n zs
      (proxy_run c en schedule (start_proxy sv daemon))"
    "length gs < length (filter id schedule) \<Longrightarrow> px_down (proxy_run c en schedule (start_proxy sv daemon)) \<noteq> None"
    by (auto simp: start_proxy_def)
  have "proxy_attached_session c schedule sv daemon en = Ok (proxy_run c en schedule (start_proxy sv daemon))"
    using assms(5) by (simp add: proxy_attached_session_def bind_io_def try_clone_def)
  then show ?thesis using r unfolding forwarded_def by (metis (no_types, lifting))
qed

theorem proxy_forwards_frames_witness:
  "\<exists>px. proxy_attached_session pty_codec [False, True, True, True] demo_server demo_daemon False = Ok px \<and>
     px_down px = Some (Ok ()) \<and>
     wr_out (px_client_out px) = concat (map frame_bytes [demo_frame PTY_DATA, demo_frame EXIT_STATUS])"
proof -
  have ok: "list_all (answerable pty_codec False) [demo_frame PTY_DATA]"
    "list_all frame_ok [demo_frame PTY_DATA, demo_frame EXIT_STATUS]"
    "\<not> is_ping (demo_frame PTY_DATA)" "\<not> closes (demo_frame PTY_DATA)" "closes (demo_frame EXIT_STATUS)"
    by (simp_all add: answerable_def demo_frame_def frame_ok_def closes_def obi_consts)
  have close: "until_close [demo_frame PTY_DATA, demo_frame EXIT_STATUS] = [demo_frame PTY_DATA, demo_frame EXIT_STATUS]"
    using ok by (simp add: until_close_def)
  have d: "sv_in demo_server = stream_of [demo_frame PTY_DATA]"
    "ds_in demo_daemon = stream_of [demo_frame PTY_DATA, demo_frame EXIT_STATUS]" "ds_clones demo_daemon = []"
    "wr_budget (sv_out demo_server) = None" "wr_budget (ds_out demo_daemon) = None" "wr_out (sv_out demo_server) = []"
    by (simp_all add: demo_server_def demo_daemon_def demo_stream_def empty_writer_def)
  have len: "length [demo_frame PTY_DATA, demo_frame EXIT_STATUS] < length (filter id [False, True, True, True])" by simp
  obtain px m n zs where px: "proxy_attached_session pty_codec [False, True, True, True] demo_server demo_daemon False = Ok px"
      "wr_out (px_client_out px) = wr_out (sv_out demo_server) @ concat (map frame_bytes zs)"
      "zs \<in> shuffles (map (pong_of pty_codec) (filter is_ping (take m [demo_frame PTY_DATA])))
         (take n [demo_frame PTY_DATA, demo_frame EXIT_STATUS])"
      "px_down px = Some (Ok ())"
      "take n [demo_frame PTY_DATA, demo_frame EXIT_STATUS] = [demo_frame PTY_DATA, demo_frame EXIT_STATUS]"
    using proxy_forwards_frames [OF ok(1,2) d(1-5), of "[False, True, True, True]"] len unfolding close by blast
  have "filter is_ping (take m [demo_frame PTY_DATA]) = []"
    using ok(3) in_set_takeD [of _ m "[demo_frame PTY_DATA]"] by (auto simp: filter_empty_conv)
  then have "zs = [demo_frame PTY_DATA, demo_frame EXIT_STATUS]" using px(3) unfolding px(5) by simp
  then show ?thesis using px(1,2,4) d(6) by auto
qed

text \<open>
  C17. The session list holds exactly the sessions that are alive: when listing succeeds, it is sorted
  by session id and has the answers of the daemons behind the sockets of the directory, one for each
  socket whose daemon answers; every other socket was missing or refused the connection.
\<close>

theorem listed_sessions_are_alive:
  assumes "list_session_socket_ids (se_show_io env) dir (se_read_dir env dir) = Ok ids" and "distinct ids"
    and "enumerate_daemons env dir sv = (Ok infos, sv')"
  shows "sorted (map rec_session_id infos) \<and> mset infos = mset (concat (map (alive env sv dir) ids)) \<and>
    list_all (stale_or_alive env sv dir) ids"
proof -
  obtain rs where rs: "query_daemons env dir ids sv = (Ok rs, sv')" "infos = sort_key rec_session_id rs"
    using assms(1,3) by (auto simp: enumerate_daemons_def bind_io_Ok)
  from query_daemons_Ok [OF rs(1) assms(2)] show ?thesis using rs(2) by simp
qed

theorem listed_sessions_are_alive_witness:
  "\<exists>infos sv. enumerate_daemons demo_server_env ''/t'' demo_server = (Ok infos, sv) \<and> infos = [demo_record]"
proof -
  have ids: "list_session_socket_ids (se_show_io demo_server_env) ''/t'' (se_read_dir demo_server_env ''/t'') = Ok [''abcdefgh'']"
  proof -
    have "session_id_from_socket_path ''/t/abcdefgh.sock'' = Ok ''abcdefgh''"
      "session_id_from_socket_path ''/t/note'' = Err InvalidCharacter" by code_simp+
    then show ?thesis by (simp add: demo_server_env_def list_session_socket_ids_def)
  qed
  have p: "socket_path ''/t'' ''abcdefgh'' = Ok ''/t/abcdefgh.sock''" by code_simp
  have a: "first_answer (se_codec demo_server_env) demo_server ''/t/abcdefgh.sock'' = Ok demo_record"
    by (simp add: first_answer_def demo_server_def demo_info_answer)
  obtain sv1 where "query_daemon_info (se_codec demo_server_env) ''/t/abcdefgh.sock'' demo_server = (Ok demo_record, sv1)"
    using query_daemon_info_answer(1) a by (metis surj_pair)
  then have "enumerate_daemons demo_server_env ''/t'' demo_server = (Ok (sort_key rec_session_id [demo_record]), sv1)"
    using ids p by (simp add: enumerate_daemons_def bind_io_def)
  from listed_sessions_are_alive [OF ids _ this] this show ?thesis by (auto simp: alive_def p a)
qed

end
