(* ===== verification/Foreground.thy ===== *)
theory Foreground
  imports Handshake
begin

text \<open>
  The foreground command of a session (\<open>src/src/foreground.rs\<close>, Linux): the process group of the terminal is
  looked up in the process table. A directory entry of \<open>/proc\<close> is its name and what reading its
  \<open>stat\<close> and \<open>cmdline\<close> gives. Strings are UTF-8 bytes; white space is ASCII. The lemmas
  show that the process table the kernel prints is read back, whatever a process calls itself.
\<close>

section \<open>Definitions\<close>

datatype ForegroundError = Ioctl io_error | ReadProc io_error

record ProcStat =
  ps_comm :: string
  ps_pgrp :: int

text \<open>\<open>str::parse::<i32>\<close>.\<close>

definition parse_i32 :: "string \<Rightarrow> int option" where
  "parse_i32 s =
     (let (negative, ds) =
        (case s of
           [] \<Rightarrow> (False, [])
         | c # cs \<Rightarrow> if c = CHR ''-'' then (True, cs) else if c = CHR ''+'' then (False, cs) else (False, s)) in
      if ds = [] then None
      else (case parse_digits 0 ds of
              None \<Rightarrow> None
            | Some n \<Rightarrow>
                let i = (if negative then - int n else int n) in
                if - (2 ^ 31) \<le> i \<and> i < 2 ^ 31 then Some i else None))"

text \<open>\<open>str::split_whitespace\<close>.\<close>

function split_whitespace :: "string \<Rightarrow> string list" where
  "split_whitespace [] = []"
| "split_whitespace (c # cs) =
     (if is_space c then split_whitespace cs
      else (c # takeWhile (\<lambda>c. \<not> is_space c) cs) # split_whitespace (dropWhile (\<lambda>c. \<not> is_space c) cs))"
  by pat_completeness auto
termination
  by (relation "measure length") (auto simp: le_imp_less_Suc length_dropWhile_le)

definition find_char :: "char \<Rightarrow> string \<Rightarrow> nat option" where
  "find_char c s = (let i = length (takeWhile (\<lambda>x. x \<noteq> c) s) in if i < length s then Some i else None)"

definition rfind_char :: "char \<Rightarrow> string \<Rightarrow> nat option" where
  "rfind_char c s = map_option (\<lambda>i. length s - 1 - i) (find_char c (rev s))"

definition parse_stat :: "string \<Rightarrow> ProcStat option" where
  "parse_stat stat =
     (case find_char CHR ''('' stat of None \<Rightarrow> None | Some left \<Rightarrow>
      case rfind_char CHR '')'' stat of None \<Rightarrow> None | Some right \<Rightarrow>
      if right \<le> left then None
      else
        let comm = take (right - (left + 1)) (drop (left + 1) stat);
            fields = split_whitespace (drop (right + 1) stat) in
        if length fields \<le> 2 then None
        else map_option (\<lambda>pgrp. \<lparr>ps_comm = comm, ps_pgrp = pgrp\<rparr>) (parse_i32 (fields ! 2)))"

text \<open>An argument as it is shown: made valid UTF-8, line breaks and tabs replaced.\<close>

definition shown_arg :: "u8 list \<Rightarrow> string" where
  "shown_arg arg =
     map (\<lambda>c. if c \<in> {CHR 0x0D, CHR 0x0A, CHR 0x09} then CHR '' '' else c) (map char_of (from_utf8_lossy (map unat arg)))"

definition vanished :: "io_error \<Rightarrow> bool" where
  "vanished e \<longleftrightarrow> e = NotFound \<or> e = PermissionDenied"

definition read_command :: "(u8 list, io_error) result \<Rightarrow> string \<Rightarrow> (string, ForegroundError) result" where
  "read_command cmdline comm =
     (case cmdline of
        Err e \<Rightarrow> if vanished e then Ok comm else Err (ReadProc e)
      | Ok bytes \<Rightarrow>
          let args = map shown_arg (filter (\<lambda>arg. arg \<noteq> []) (split_on 0 bytes)) in
          if args = [] then Ok comm else Ok (join_with '' '' args))"

text \<open>\<open>fs::read_to_string\<close> on what reading the file gives.\<close>

abbreviation InvalidData :: io_error where
  "InvalidData \<equiv> OtherKind 0"

definition read_to_string :: "(string, io_error) result \<Rightarrow> (string, io_error) result" where
  "read_to_string file = and_then file (\<lambda>s. if is_utf8 s then Ok s else Err InvalidData)"

record proc_entry =
  pe_name :: string
  pe_stat :: "(string, io_error) result"
  pe_cmdline :: "(u8 list, io_error) result"

text \<open>The loop over the directory, with \<open>fallback\<close> the first command found.\<close>

fun scan_entries ::
  "int \<Rightarrow> string option \<Rightarrow> (proc_entry, io_error) result list \<Rightarrow> (string option, ForegroundError) result" where
  "scan_entries pgrp fallback [] = Ok fallback"
| "scan_entries pgrp fallback (Err e # entries) = Err (ReadProc e)"
| "scan_entries pgrp fallback (Ok entry # entries) =
     (case (if is_utf8 (pe_name entry) then parse_i32 (pe_name entry) else None) of
        None \<Rightarrow> scan_entries pgrp fallback entries
      | Some pid \<Rightarrow>
          (case read_to_string (pe_stat entry) of
             Err e \<Rightarrow> if vanished e then scan_entries pgrp fallback entries else Err (ReadProc e)
           | Ok stat \<Rightarrow>
               (case parse_stat stat of
                  None \<Rightarrow> scan_entries pgrp fallback entries
                | Some ps \<Rightarrow>
                    if ps_pgrp ps \<noteq> pgrp then scan_entries pgrp fallback entries
                    else
                      (case read_command (pe_cmdline entry) (ps_comm ps) of
                         Err e \<Rightarrow> Err e
                       | Ok command \<Rightarrow>
                           if pid = pgrp then Ok (Some command)
                           else scan_entries pgrp (if fallback = None then Some command else fallback) entries))))"

definition command_for_process_group ::
  "int \<Rightarrow> ((proc_entry, io_error) result list, io_error) result \<Rightarrow> (string option, ForegroundError) result" where
  "command_for_process_group pgrp dir =
     (case dir of Err e \<Rightarrow> Err (ReadProc e) | Ok entries \<Rightarrow> scan_entries pgrp None entries)"

text \<open>The \<open>ioctl\<close> fails with a number that means that there is no terminal, or with another error.\<close>

datatype ioctl_error = ENOTTY | EINVAL | OtherErrno io_error

definition foreground_command_for_pty ::
  "(int, ioctl_error) result \<Rightarrow> ((proc_entry, io_error) result list, io_error) result \<Rightarrow> (string option, ForegroundError) result" where
  "foreground_command_for_pty ioctl dir =
     (case ioctl of
        Err ENOTTY \<Rightarrow> Ok None
      | Err EINVAL \<Rightarrow> Ok None
      | Err (OtherErrno e) \<Rightarrow> Err (Ioctl e)
      | Ok pgrp \<Rightarrow> if pgrp \<le> 0 then Ok None else command_for_process_group pgrp dir)"

section \<open>The process table\<close>

text \<open>
  A process as the kernel prints it (the files \<open>stat\<close> and \<open>cmdline\<close> of \<open>proc(5)\<close>). The name
  that a process gives itself may hold any bytes; the fields behind it hold no bracket. \<open>process_ok\<close>: the file is UTF-8.
\<close>

record process =
  pr_pid :: nat
  pr_comm :: string
  pr_state :: string
  pr_ppid :: nat
  pr_pgrp :: nat
  pr_more :: string
  pr_args :: "u8 list list"

definition stat_text :: "process \<Rightarrow> string" where
  "stat_text p = show_nat (pr_pid p) @ '' ('' @ pr_comm p @ '') '' @ pr_state p @ '' '' @ show_nat (pr_ppid p) @ '' '' @
     show_nat (pr_pgrp p) @ '' '' @ pr_more p"

definition entry_of :: "process \<Rightarrow> proc_entry" where
  "entry_of p =
     \<lparr>pe_name = show_nat (pr_pid p), pe_stat = Ok (stat_text p),
      pe_cmdline = Ok (concat (map (\<lambda>arg. arg @ [0]) (pr_args p)))\<rparr>"

definition process_ok :: "process \<Rightarrow> bool" where
  "process_ok p \<longleftrightarrow>
     pr_pid p < 2 ^ 31 \<and> pr_pgrp p < 2 ^ 31 \<and> is_utf8 (stat_text p) \<and>
     pr_state p \<noteq> [] \<and> list_all (\<lambda>c. \<not> is_space c \<and> c \<noteq> CHR '')'') (pr_state p) \<and> CHR '')'' \<notin> set (pr_more p) \<and>
     list_all (\<lambda>arg. 0 \<notin> set arg) (pr_args p)"

text \<open>What is shown for a process: its arguments, or its name when it has none.\<close>

definition command_of :: "process \<Rightarrow> string" where
  "command_of p =
     (let args = filter (\<lambda>arg. arg \<noteq> []) (pr_args p) in
      if args = [] then pr_comm p else join_with '' '' (map shown_arg args))"

text \<open>The command of a group: that of its leader, or else that of its first member.\<close>

definition group_command :: "nat \<Rightarrow> process list \<Rightarrow> string option" where
  "group_command pgrp procs =
     (let members = filter (\<lambda>p. pr_pgrp p = pgrp) procs in
      case find (\<lambda>p. pr_pid p = pgrp) members of
        Some p \<Rightarrow> Some (command_of p)
      | None \<Rightarrow> (case members of [] \<Rightarrow> None | p # _ \<Rightarrow> Some (command_of p)))"

section \<open>Lemmas\<close>

lemma parse_i32_show_nat: "n < 2 ^ 31 \<Longrightarrow> parse_i32 (show_nat n) = Some (int n)"
proof -
  assume n: "n < 2 ^ 31"
  obtain c cs where c: "show_nat n = c # cs" by (cases "show_nat n") auto
  then obtain d where "d < 10" "c = digit_char d" using digit_chars_show_nat [of c n] by auto
  then have "c \<noteq> CHR ''+''" "digit_of c = Some d" using digit_char_no_plus by auto
  moreover have "digit_of (CHR ''-'') = None" by (simp add: digit_of_def)
  ultimately have "c \<noteq> CHR ''+''" "c \<noteq> CHR ''-''" by auto
  then show ?thesis using n c parse_digits_show_nat [of n] by (simp add: parse_i32_def Let_def)
qed

lemma show_nat_plain: "list_all (\<lambda>c. \<not> is_space c \<and> c \<noteq> CHR '')'' \<and> c \<noteq> CHR ''('') (show_nat n)"
proof -
  have "\<not> is_space c \<and> c \<noteq> CHR '')'' \<and> c \<noteq> CHR ''(''" if c: "c \<in> set (show_nat n)" for c
  proof -
    obtain d where "d < 10" "c = digit_char d" using digit_chars_show_nat [OF c] by blast
    then have "digit_of c = Some d" by simp
    then show ?thesis by (auto simp: digit_of_def is_space_def Let_def split: if_splits)
  qed
  then show ?thesis by (simp add: list_all_iff)
qed

lemma utf8_ascii: "list_all (\<lambda>b. b < 128) bs \<Longrightarrow> utf8_ok bs"
  by (induction bs) auto

lemma show_nat_utf8: "is_utf8 (show_nat n)"
proof -
  have "of_char c < (128 :: nat)" if c: "c \<in> set (show_nat n)" for c
  proof -
    obtain d where "d < 10" "c = digit_char d" using digit_chars_show_nat [OF c] by blast
    then show ?thesis by (simp add: digit_char_def)
  qed
  then show ?thesis unfolding is_utf8_def by (intro utf8_ascii) (simp add: list_all_iff)
qed

lemma find_char_at: "c \<notin> set xs \<Longrightarrow> find_char c (xs @ c # ys) = Some (length xs)"
proof -
  assume "c \<notin> set xs"
  then have "takeWhile (\<lambda>x. x \<noteq> c) (xs @ c # ys) = xs" by (subst takeWhile_append2) auto
  then show ?thesis by (simp add: find_char_def)
qed

lemma rfind_char_at: "c \<notin> set ys \<Longrightarrow> rfind_char c (xs @ c # ys) = Some (length xs)"
  using find_char_at [of c "rev ys" "rev xs"] by (simp add: rfind_char_def)

lemma split_word: "w \<noteq> [] \<Longrightarrow> list_all (\<lambda>c. \<not> is_space c) w \<Longrightarrow> is_space s \<Longrightarrow>
    split_whitespace (w @ s # r) = w # split_whitespace r"
proof -
  assume w: "w \<noteq> []" "list_all (\<lambda>c. \<not> is_space c) w" and s: "is_space s"
  then obtain c cs where c: "w = c # cs" "\<not> is_space c" "\<forall>x\<in>set cs. \<not> is_space x"
    by (cases w) (auto simp: list_all_iff)
  then have "takeWhile (\<lambda>c. \<not> is_space c) (cs @ s # r) = cs" "dropWhile (\<lambda>c. \<not> is_space c) (cs @ s # r) = s # r"
    using s by (simp_all add: takeWhile_append2 dropWhile_append2)
  then show ?thesis using c s by simp
qed

lemma is_space_blank: "is_space CHR '' ''"
  by (simp add: is_space_def)

lemma split_fields:
  assumes "w1 \<noteq> []" "w2 \<noteq> []" "w3 \<noteq> []" and "list_all (\<lambda>c. \<not> is_space c) w1" "list_all (\<lambda>c. \<not> is_space c) w2"
    "list_all (\<lambda>c. \<not> is_space c) w3"
  shows "split_whitespace ('' '' @ w1 @ '' '' @ w2 @ '' '' @ w3 @ '' '' @ r) = w1 # w2 # w3 # split_whitespace r"
  using assms by (simp add: split_word is_space_blank)

lemma parse_stat_text:
  assumes "process_ok p"
  shows "parse_stat (stat_text p) = Some \<lparr>ps_comm = pr_comm p, ps_pgrp = int (pr_pgrp p)\<rparr>"
proof -
  let ?head = "show_nat (pr_pid p) @ '' ''" and ?fields = "'' '' @ pr_state p @ '' '' @ show_nat (pr_ppid p) @ '' '' @
     show_nat (pr_pgrp p) @ '' '' @ pr_more p"
  have t: "stat_text p = ?head @ CHR ''('' # pr_comm p @ CHR '')'' # ?fields" by (simp add: stat_text_def)
  have "CHR ''('' \<notin> set ?head" using show_nat_plain [of "pr_pid p"] by (auto simp: list_all_iff)
  then have left: "find_char CHR ''('' (stat_text p) = Some (length ?head)" unfolding t by (rule find_char_at)
  have "CHR '')'' \<notin> set ?fields"
    using assms show_nat_plain [of "pr_ppid p"] show_nat_plain [of "pr_pgrp p"] by (auto simp: process_ok_def list_all_iff)
  then have right: "rfind_char CHR '')'' (stat_text p) = Some (length (?head @ CHR ''('' # pr_comm p))"
    using rfind_char_at [of "CHR '')''" ?fields "?head @ CHR ''('' # pr_comm p"] by (simp add: t)
  have plain: "list_all (\<lambda>c. \<not> is_space c) (pr_state p)" "list_all (\<lambda>c. \<not> is_space c) (show_nat n)" for n
    using assms show_nat_plain [of n] by (auto simp: process_ok_def list_all_iff)
  have fields: "split_whitespace ?fields = pr_state p # show_nat (pr_ppid p) # show_nat (pr_pgrp p) # split_whitespace (pr_more p)"
    using assms plain by (intro split_fields) (auto simp: process_ok_def)
  have comm: "take (length (?head @ CHR ''('' # pr_comm p) - (length ?head + 1)) (drop (length ?head + 1) (stat_text p)) = pr_comm p"
    and rest: "drop (length (?head @ CHR ''('' # pr_comm p) + 1) (stat_text p) = ?fields"
    by (simp_all add: t eval_nat_numeral)
  have "parse_i32 (show_nat (pr_pgrp p)) = Some (int (pr_pgrp p))" using assms by (intro parse_i32_show_nat) (simp add: process_ok_def)
  then show ?thesis
    unfolding parse_stat_def left right option.case Let_def comm rest fields by simp
qed

lemma split_terminated: "list_all (\<lambda>arg. (0 :: u8) \<notin> set arg) args \<Longrightarrow>
    split_on 0 (concat (map (\<lambda>arg. arg @ [0]) args)) = args @ [[]]"
  by (induction args) (simp_all add: split_on_append_sep split_on_no_sep)

lemma read_command_entry:
  "process_ok p \<Longrightarrow> read_command (pe_cmdline (entry_of p)) (pr_comm p) = Ok (command_of p)"
  by (simp add: process_ok_def entry_of_def read_command_def split_terminated command_of_def Let_def filter_empty_conv)

lemma scan_process:
  assumes "process_ok p"
  shows "scan_entries (int pgrp) fallback (Ok (entry_of p) # entries) =
    (if pr_pgrp p \<noteq> pgrp then scan_entries (int pgrp) fallback entries
     else if pr_pid p = pgrp then Ok (Some (command_of p))
     else scan_entries (int pgrp) (if fallback = None then Some (command_of p) else fallback) entries)"
proof -
  have "is_utf8 (pe_name (entry_of p))" "parse_i32 (pe_name (entry_of p)) = Some (int (pr_pid p))"
    "read_to_string (pe_stat (entry_of p)) = Ok (stat_text p)"
    using assms by (simp_all add: entry_of_def parse_i32_show_nat process_ok_def read_to_string_def show_nat_utf8)
  then show ?thesis using parse_stat_text [OF assms] read_command_entry [OF assms] by simp
qed

text \<open>What else is in the directory is passed over.\<close>

definition other_entry :: "string \<Rightarrow> proc_entry" where
  "other_entry name = \<lparr>pe_name = name, pe_stat = Err NotFound, pe_cmdline = Err NotFound\<rparr>"

abbreviation dir_entry :: "process + string \<Rightarrow> (proc_entry, io_error) result" where
  "dir_entry \<equiv> (\<lambda>x. Ok (case_sum entry_of other_entry x))"

definition dir_ok :: "process + string \<Rightarrow> bool" where
  "dir_ok x \<longleftrightarrow> (case x of Inl p \<Rightarrow> process_ok p | Inr name \<Rightarrow> parse_i32 name = None)"

fun processes :: "(process + string) list \<Rightarrow> process list" where
  "processes [] = []"
| "processes (Inl p # xs) = p # processes xs"
| "processes (Inr name # xs) = processes xs"

lemma scan_table:
  "list_all dir_ok xs \<Longrightarrow> scan_entries (int pgrp) fallback (map dir_entry xs) =
    Ok (case find (\<lambda>p. pr_pid p = pgrp) (filter (\<lambda>p. pr_pgrp p = pgrp) (processes xs)) of
          Some p \<Rightarrow> Some (command_of p)
        | None \<Rightarrow> if fallback = None then group_command pgrp (processes xs) else fallback)"
proof (induction xs arbitrary: fallback)
  case (Cons x xs)
  show ?case
  proof (cases x)
    case (Inl p)
    then have "process_ok p" using Cons.prems by (simp add: dir_ok_def)
    note scan_process [OF this, of pgrp fallback "map dir_entry xs"]
    moreover have "map dir_entry (x # xs) = Ok (entry_of p) # map dir_entry xs" using Inl by simp
    ultimately show ?thesis
      using Inl Cons.IH Cons.prems by (auto simp: group_command_def simp del: scan_entries.simps split: option.split)
  next
    case (Inr name)
    then show ?thesis using Cons.IH Cons.prems by (auto simp: dir_ok_def other_entry_def split: option.split)
  qed
qed (simp add: group_command_def)

text \<open>A process whose file is not UTF-8 ends the search, unless the leader was found before it.\<close>

lemma scan_not_utf8:
  "pr_pid q < 2 ^ 31 \<Longrightarrow> \<not> is_utf8 (stat_text q) \<Longrightarrow>
    scan_entries pgrp fallback (Ok (entry_of q) # entries) = Err (ReadProc InvalidData)"
  by (simp add: entry_of_def show_nat_utf8 parse_i32_show_nat read_to_string_def vanished_def)

lemma scan_table_not_utf8:
  assumes "pr_pid q < 2 ^ 31" "\<not> is_utf8 (stat_text q)"
  shows "list_all dir_ok xs \<Longrightarrow> \<not> list_ex (\<lambda>p. pr_pgrp p = pgrp \<and> pr_pid p = pgrp) (processes xs) \<Longrightarrow>
    scan_entries (int pgrp) fallback (map dir_entry xs @ Ok (entry_of q) # entries) = Err (ReadProc InvalidData)"
proof (induction xs arbitrary: fallback)
  case Nil
  then show ?case using scan_not_utf8 [OF assms] by simp
next
  case (Cons x xs)
  show ?case
  proof (cases x)
    case (Inl p)
    then have "process_ok p" using Cons.prems by (simp add: dir_ok_def)
    note scan_process [OF this, of pgrp fallback "map dir_entry xs @ Ok (entry_of q) # entries"]
    moreover have "map dir_entry (x # xs) @ Ok (entry_of q) # entries =
        Ok (entry_of p) # map dir_entry xs @ Ok (entry_of q) # entries" using Inl by simp
    ultimately show ?thesis
      using Inl Cons.IH Cons.prems by (auto simp del: scan_entries.simps)
  next
    case (Inr name)
    then show ?thesis using Cons.IH Cons.prems by (simp add: dir_ok_def other_entry_def)
  qed
qed

definition demo_table :: "(process + string) list" where
  "demo_table =
     [Inr ''self'',
      Inl \<lparr>pr_pid = 12, pr_comm = '') S 1 7 ('', pr_state = ''S'', pr_ppid = 1, pr_pgrp = 9, pr_more = ''9 0'', pr_args = []\<rparr>,
      Inl \<lparr>pr_pid = 9, pr_comm = ''vim'', pr_state = ''S'', pr_ppid = 1, pr_pgrp = 9, pr_more = ''9 0'', pr_args = [[118, 105], [110, 10]]\<rparr>]"

definition demo_rogue :: process where
  "demo_rogue = \<lparr>pr_pid = 3, pr_comm = [CHR 0xFF], pr_state = ''S'', pr_ppid = 1, pr_pgrp = 3, pr_more = [], pr_args = []\<rparr>"

lemma demo_table_ok: "list_all dir_ok demo_table" "\<not> is_utf8 (stat_text demo_rogue)"
proof -
  have "is_utf8 (stat_text p)" if "Inl p \<in> set demo_table" for p
    using that unfolding demo_table_def by simp (elim disjE; hypsubst; code_simp)
  moreover have "parse_i32 ''self'' = None" by (simp add: parse_i32_def digit_of_def)
  ultimately show "list_all dir_ok demo_table"
    by (simp add: demo_table_def dir_ok_def process_ok_def is_space_def)
  show "\<not> is_utf8 (stat_text demo_rogue)" by code_simp
qed

section \<open>Properties\<close>

text \<open>
  C22. The foreground command is the one of the process table. For every table the kernel prints, with other entries
  between the processes and names that hold brackets and blanks, the
  answer for a group is the command of its leader if it is there, else that of the first member, else none: its
  arguments joined by blanks, or its name when it has none. But one process whose name is not UTF-8, of whichever group, turns the
  answer into an error, unless the leader comes before it.
\<close>

theorem foreground_command_correct:
  assumes "list_all dir_ok xs" and "0 < pgrp" and "pr_pid q < 2 ^ 31" and "\<not> is_utf8 (stat_text q)"
  shows "foreground_command_for_pty (Ok (int pgrp)) (Ok (map dir_entry xs)) = Ok (group_command pgrp (processes xs)) \<and>
    (\<not> list_ex (\<lambda>p. pr_pgrp p = pgrp \<and> pr_pid p = pgrp) (processes xs) \<longrightarrow>
      foreground_command_for_pty (Ok (int pgrp)) (Ok (map dir_entry xs @ Ok (entry_of q) # rest)) = Err (ReadProc InvalidData))"
  using assms(2) scan_table [OF assms(1), of pgrp None] scan_table_not_utf8 [OF assms(3,4,1), of pgrp None rest]
  by (simp add: foreground_command_for_pty_def command_for_process_group_def group_command_def split: option.split)

theorem foreground_command_correct_witness:
  "foreground_command_for_pty (Ok 9) (Ok (map dir_entry demo_table)) = Ok (Some ''vi n '') \<and>
   foreground_command_for_pty (Ok 8) (Ok (map dir_entry demo_table @ [Ok (entry_of demo_rogue)])) = Err (ReadProc InvalidData)"
proof -
  have q: "pr_pid demo_rogue < 2 ^ 31" by (simp add: demo_rogue_def)
  have "foreground_command_for_pty (Ok (int 9)) (Ok (map dir_entry demo_table)) = Ok (group_command 9 (processes demo_table))"
    using foreground_command_correct [OF demo_table_ok(1) _ q demo_table_ok(2), of 9] by simp
  moreover have "group_command 9 (processes demo_table) = Some ''vi n ''" by code_simp
  moreover have "\<not> list_ex (\<lambda>p. pr_pgrp p = 8 \<and> pr_pid p = 8) (processes demo_table)" by code_simp
  ultimately show ?thesis
    using foreground_command_correct [OF demo_table_ok(1) _ q demo_table_ok(2), of 8 "[]"] by simp
qed

end
