(* ===== verification/Systemd.thy ===== *)
theory Systemd
  imports Attached
begin

text \<open>
  The scope of a new shell (\<open>src/src/systemd.rs\<close>): the child asks the user's systemd, through \<open>busctl\<close>, to move it
  into a transient scope, and waits until it is there. What \<open>busctl\<close> and \<open>/proc\<close> answer on each turn, and how much longer
  than its sleep a turn takes, are arguments. Times are nanoseconds. The lemmas bound the wait.
\<close>

section \<open>Definitions\<close>

datatype SystemdScopeError =
    Unavailable
  | SdSpawn io_error
  | SdWait io_error
  | ReadCgroup io_error
  | SdFailed "int option"
  | SdTimeout

definition START_TRANSIENT_UNIT_SIGNATURE :: string where
  "START_TRANSIENT_UNIT_SIGNATURE = ''ssa(sv)a(sa(sv))''"

definition SCOPE_START_TIMEOUT :: nat where
  "SCOPE_START_TIMEOUT = nanos 1"

definition SCOPE_POLL :: nat where
  "SCOPE_POLL = 10000000"

text \<open>
  Both loops: a turn that is not decided looks at the clock and sleeps for 10 milliseconds, or gives up. The result
  comes with the time; \<open>None\<close>: the deadline has passed.
\<close>

function poll_until :: "(nat \<Rightarrow> 'r option) \<Rightarrow> (nat \<Rightarrow> nat) \<Rightarrow> nat \<Rightarrow> nat \<Rightarrow> nat \<Rightarrow> 'r option \<times> nat" where
  "poll_until check delay deadline k now =
     (case check k of
        Some r \<Rightarrow> (Some r, now)
      | None \<Rightarrow>
          if deadline \<le> now then (None, now)
          else poll_until check delay deadline (Suc k) (now + SCOPE_POLL + delay k))"
  by pat_completeness auto
termination
  by (relation "measure (\<lambda>(check, delay, deadline, k, now). deadline - now)") (auto simp: SCOPE_POLL_def)

declare poll_until.simps [simp del]

text \<open>
  \<open>try_wait\<close> gives nothing while the process runs, else its exit code (\<open>None\<close> for a signal).
\<close>

definition command_done :: "(int option option, io_error) result \<Rightarrow> (unit, SystemdScopeError) result option" where
  "command_done w =
     (case w of
        Err e \<Rightarrow> Some (Err (SdWait e))
      | Ok None \<Rightarrow> None
      | Ok (Some status) \<Rightarrow> Some (if status = Some 0 then Ok () else Err (SdFailed status)))"

text \<open>The last component: the process was killed.\<close>

definition wait_for_command_until ::
  "(unit, io_error) result \<Rightarrow> (nat \<Rightarrow> (int option option, io_error) result) \<Rightarrow> (nat \<Rightarrow> nat) \<Rightarrow> nat \<Rightarrow> nat \<Rightarrow>
     (unit, SystemdScopeError) result \<times> nat \<times> bool" where
  "wait_for_command_until spawn try_wait delay deadline now =
     (case spawn of
        Err e \<Rightarrow> (Err (SdSpawn e), now, False)
      | Ok _ \<Rightarrow>
          (case poll_until (\<lambda>k. command_done (try_wait k)) delay deadline 0 now of
             (Some r, t) \<Rightarrow> (r, t, False)
           | (None, t) \<Rightarrow> (Err SdTimeout, t, True)))"

definition in_scope :: "string \<Rightarrow> (string, io_error) result \<Rightarrow> (unit, SystemdScopeError) result option" where
  "in_scope unit cgroup =
     (case cgroup of
        Err e \<Rightarrow> Some (Err (ReadCgroup e))
      | Ok text \<Rightarrow> if sublist unit text then Some (Ok ()) else None)"

definition wait_for_scope_membership ::
  "string \<Rightarrow> (nat \<Rightarrow> (string, io_error) result) \<Rightarrow> (nat \<Rightarrow> nat) \<Rightarrow> nat \<Rightarrow> nat \<Rightarrow> (unit, SystemdScopeError) result \<times> nat" where
  "wait_for_scope_membership unit cgroup delay deadline now =
     (case poll_until (\<lambda>k. in_scope unit (cgroup k)) delay deadline 0 now of
        (Some r, t) \<Rightarrow> (r, t)
      | (None, t) \<Rightarrow> (Err SdTimeout, t))"

definition transient_scope_command :: "nat \<Rightarrow> nat \<Rightarrow> string \<Rightarrow> string list" where
  "transient_scope_command pid ppid unit =
     [''busctl'', ''--user'', ''call'', ''org.freedesktop.systemd1'', ''/org/freedesktop/systemd1'',
      ''org.freedesktop.systemd1.Manager'', ''StartTransientUnit'', START_TRANSIENT_UNIT_SIGNATURE, unit, ''fail'', ''5'',
      ''Description'', ''s'', ''ssh-obi PTY child '' @ show_nat pid @ '' launched by process '' @ show_nat ppid,
      ''SendSIGHUP'', ''b'', ''true'', ''Slice'', ''s'', ''app-ssh_obi.slice'', ''PIDs'', ''au'', ''1'', show_nat pid,
      ''CollectMode'', ''s'', ''inactive-or-failed'', ''0'']"

definition transient_scope_unit_name :: "nat \<Rightarrow> SystemTime \<Rightarrow> string" where
  "transient_scope_unit_name pid now =
     ''ssh-obi-spawn-'' @ show_nat pid @ ''-'' @ show_nat (if now < 0 then 0 else nat now) @ ''.scope''"

record systemd_env =
  sy_booted :: bool \<comment> \<open>\<open>/run/systemd/system\<close> is a directory\<close>
  sy_xdg :: "string option"
  sy_exists :: "string \<Rightarrow> bool"
  sy_uid :: u32
  sy_time :: SystemTime
  sy_ppid :: nat
  sy_spawn :: "string list \<Rightarrow> (unit, io_error) result"
  sy_try_wait :: "string list \<Rightarrow> nat \<Rightarrow> (int option option, io_error) result"
  sy_cgroup :: "nat \<Rightarrow> (string, io_error) result"
  sy_delay :: "nat \<Rightarrow> nat"

definition user_systemd_runtime_dir :: "systemd_env \<Rightarrow> string option" where
  "user_systemd_runtime_dir env =
     (let usable = (\<lambda>dir. sy_exists env (path_join dir ''bus''));
          default = ''/run/user/'' @ show_nat (unat (sy_uid env));
          fallback = (if usable default then Some default else None) in
      if \<not> sy_booted env then None
      else (case sy_xdg env of Some dir \<Rightarrow> if usable dir then Some dir else fallback | None \<Rightarrow> fallback))"

text \<open>The result and the time it took, from a start at time 0.\<close>

definition move_pid_to_new_scope :: "systemd_env \<Rightarrow> nat \<Rightarrow> (unit, SystemdScopeError) result \<times> nat" where
  "move_pid_to_new_scope env pid =
     (case user_systemd_runtime_dir env of
        None \<Rightarrow> (Err Unavailable, 0)
      | Some dir \<Rightarrow>
          let unit = transient_scope_unit_name pid (sy_time env);
              command = transient_scope_command pid (sy_ppid env) unit in
          (case wait_for_command_until (sy_spawn env command) (sy_try_wait env command) (sy_delay env) SCOPE_START_TIMEOUT 0 of
             (Err e, t, _) \<Rightarrow> (Err e, t)
           | (Ok _, t, _) \<Rightarrow> wait_for_scope_membership unit (sy_cgroup env) (sy_delay env) SCOPE_START_TIMEOUT t))"

section \<open>Lemmas\<close>

text \<open>A loop ends at most one turn after the deadline; it is decided, or undecided to the end.\<close>

lemma poll_until_time:
  assumes "\<And>k. delay k \<le> d" "now \<le> deadline + SCOPE_POLL + d"
  shows "snd (poll_until check delay deadline k now) \<le> deadline + SCOPE_POLL + d"
  using assms
proof (induction check delay deadline k now rule: poll_until.induct)
  case (1 check delay deadline k now)
  have "now + SCOPE_POLL + delay k \<le> deadline + SCOPE_POLL + d" if "\<not> deadline \<le> now"
    using that "1.prems"(1) [of k] by simp
  then show ?case using "1.IH" "1.prems" by (auto simp: poll_until.simps [of check delay deadline k now] split: option.split)
qed

lemma poll_until_later: "now \<le> snd (poll_until check delay deadline k now)"
proof (induction check delay deadline k now rule: poll_until.induct)
  case (1 check delay deadline k now)
  then show ?case by (auto simp: poll_until.simps [of check delay deadline k now] split: option.split)
qed

lemma poll_until_Some: "fst (poll_until check delay deadline k now) = Some r \<Longrightarrow> \<exists>j\<ge>k. check j = Some r"
proof (induction check delay deadline k now rule: poll_until.induct)
  case (1 check delay deadline k now)
  show ?case
  proof (cases "check k")
    case None
    then show ?thesis
      using 1 by (auto simp: poll_until.simps [of check delay deadline k now] split: if_splits) (use Suc_leD in blast)
  qed (use "1.prems" in \<open>auto simp: poll_until.simps [of check delay deadline k now]\<close>)
qed

lemma poll_until_None: "fst (poll_until check delay deadline k now) = None \<Longrightarrow>
    check k = None \<and> deadline \<le> snd (poll_until check delay deadline k now)"
proof (induction check delay deadline k now rule: poll_until.induct)
  case (1 check delay deadline k now)
  then show ?case by (auto simp: poll_until.simps [of check delay deadline k now] split: option.splits if_splits)
qed

lemma wait_for_command_time:
  assumes "\<And>k. delay k \<le> d" "now \<le> deadline + SCOPE_POLL + d" "wait_for_command_until spawn try_wait delay deadline now = (r, t, killed)"
  shows "t \<le> deadline + SCOPE_POLL + d"
  using assms(2,3) poll_until_time [of delay d now deadline "\<lambda>k. command_done (try_wait k)" 0, OF assms(1,2)]
  by (auto simp: wait_for_command_until_def split: result.splits prod.splits option.splits)

text \<open>Success means that \<open>busctl\<close> has ended with 0.\<close>

lemma wait_for_command_Ok:
  assumes "wait_for_command_until spawn try_wait delay deadline now = (Ok (), t, killed)"
  shows "(\<exists>k. try_wait k = Ok (Some (Some 0))) \<and> \<not> killed"
proof -
  obtain s where "spawn = Ok s"
    "poll_until (\<lambda>k. command_done (try_wait k)) delay deadline 0 now = (Some (Ok ()), t)" "\<not> killed"
    using assms by (auto simp: wait_for_command_until_def split: result.splits prod.splits option.splits)
  moreover from this obtain k where "command_done (try_wait k) = Some (Ok ())"
    using poll_until_Some [of "\<lambda>k. command_done (try_wait k)" delay deadline 0 now] by auto
  ultimately show ?thesis by (auto simp: command_done_def split: result.splits option.splits if_splits)
qed

lemma scope_membership_time:
  assumes "\<And>k. delay k \<le> d" "now \<le> deadline + SCOPE_POLL + d"
  shows "snd (wait_for_scope_membership unit cgroup delay deadline now) \<le> deadline + SCOPE_POLL + d"
  using poll_until_time [of delay d now deadline "\<lambda>k. in_scope unit (cgroup k)" 0, OF assms]
  by (auto simp: wait_for_scope_membership_def split: prod.splits option.splits)

lemma scope_membership_Ok:
  assumes "fst (wait_for_scope_membership unit cgroup delay deadline now) = Ok ()"
  shows "\<exists>k text. cgroup k = Ok text \<and> sublist unit text"
proof -
  have "fst (poll_until (\<lambda>k. in_scope unit (cgroup k)) delay deadline 0 now) = Some (Ok ())"
    using assms by (auto simp: wait_for_scope_membership_def split: prod.splits option.splits)
  from poll_until_Some [OF this] obtain k where "in_scope unit (cgroup k) = Some (Ok ())" by blast
  then show ?thesis by (cases "cgroup k") (auto simp: in_scope_def split: if_splits)
qed

lemma move_pid_time:
  assumes "\<And>k. sy_delay env k \<le> d"
  shows "snd (move_pid_to_new_scope env pid) \<le> SCOPE_START_TIMEOUT + SCOPE_POLL + d"
proof -
  let ?unit = "transient_scope_unit_name pid (sy_time env)"
  let ?cmd = "transient_scope_command pid (sy_ppid env) ?unit"
  obtain r t killed where w: "wait_for_command_until (sy_spawn env ?cmd) (sy_try_wait env ?cmd) (sy_delay env) SCOPE_START_TIMEOUT 0 = (r, t, killed)"
    by (metis prod_cases3)
  have t: "t \<le> SCOPE_START_TIMEOUT + SCOPE_POLL + d" using wait_for_command_time [OF assms _ w] by simp
  note scope_membership_time [OF assms t, where unit = ?unit and cgroup = "sy_cgroup env"]
  then show ?thesis
    using w t by (auto simp: move_pid_to_new_scope_def Let_def split: option.split result.split)
qed

section \<open>Properties\<close>

text \<open>
  Moving a shell into its scope takes bounded time. Whatever \<open>busctl\<close> and systemd do, the attempt ends at most one turn of
  10 milliseconds, and what the turn is late, after its second; it is successful only when \<open>busctl\<close> ended with 0
  and the process was seen in the scope; and a \<open>busctl\<close> that does not end is killed with a timeout.
\<close>

theorem scope_move_bounded:
  assumes "\<And>k. sy_delay env k \<le> d"
  shows "snd (move_pid_to_new_scope env pid) \<le> SCOPE_START_TIMEOUT + SCOPE_POLL + d \<and>
    (fst (move_pid_to_new_scope env pid) = Ok () \<longrightarrow>
      (\<exists>k. sy_try_wait env (transient_scope_command pid (sy_ppid env) (transient_scope_unit_name pid (sy_time env))) k = Ok (Some (Some 0))) \<and>
      (\<exists>k text. sy_cgroup env k = Ok text \<and> sublist (transient_scope_unit_name pid (sy_time env)) text)) \<and>
    ((\<forall>k. try_wait k = Ok None) \<longrightarrow>
      (\<exists>t. wait_for_command_until (Ok ()) try_wait delay deadline now = (Err SdTimeout, t, True)))"
proof (intro conjI impI)
  let ?unit = "transient_scope_unit_name pid (sy_time env)"
  let ?cmd = "transient_scope_command pid (sy_ppid env) ?unit"
  obtain r t killed where w: "wait_for_command_until (sy_spawn env ?cmd) (sy_try_wait env ?cmd) (sy_delay env) SCOPE_START_TIMEOUT 0 = (r, t, killed)"
    by (metis prod_cases3)
  show "snd (move_pid_to_new_scope env pid) \<le> SCOPE_START_TIMEOUT + SCOPE_POLL + d" by (rule move_pid_time [OF assms])
  assume "fst (move_pid_to_new_scope env pid) = Ok ()"
  then have "r = Ok ()" and m: "fst (wait_for_scope_membership ?unit (sy_cgroup env) (sy_delay env) SCOPE_START_TIMEOUT t) = Ok ()"
    using w by (auto simp: move_pid_to_new_scope_def Let_def split: option.splits result.splits)
  then show "\<exists>k. sy_try_wait env ?cmd k = Ok (Some (Some 0))" using w wait_for_command_Ok by blast
  show "\<exists>k text. sy_cgroup env k = Ok text \<and> sublist ?unit text" by (rule scope_membership_Ok [OF m])
next
  assume "\<forall>k. try_wait k = Ok None"
  then have "fst (poll_until (\<lambda>k. command_done (try_wait k)) delay deadline 0 now) = None"
    using poll_until_Some [of "\<lambda>k. command_done (try_wait k)" delay deadline 0 now]
    by (cases "fst (poll_until (\<lambda>k. command_done (try_wait k)) delay deadline 0 now)") (auto simp: command_done_def)
  then show "\<exists>t. wait_for_command_until (Ok ()) try_wait delay deadline now = (Err SdTimeout, t, True)"
    by (auto simp: wait_for_command_until_def split: prod.split option.split)
qed

definition demo_systemd :: systemd_env where
  "demo_systemd =
     \<lparr>sy_booted = True, sy_xdg = None, sy_exists = (\<lambda>_. True), sy_uid = 1000, sy_time = 7, sy_ppid = 1,
      sy_spawn = (\<lambda>_. Ok ()), sy_try_wait = (\<lambda>_ _. Ok None), sy_cgroup = (\<lambda>_. Ok []), sy_delay = (\<lambda>_. 5)\<rparr>"

theorem scope_move_bounded_witness:
  "snd (move_pid_to_new_scope demo_systemd 3) \<le> 1010000005 \<and>
   (\<exists>t. wait_for_command_until (Ok ()) (\<lambda>_. Ok None) (\<lambda>_. 0) 20 0 = (Err SdTimeout, t, True))"
  using scope_move_bounded [of demo_systemd 5 3 "\<lambda>_. Ok None" "\<lambda>_. 0" 20 0]
  by (simp add: demo_systemd_def SCOPE_START_TIMEOUT_def SCOPE_POLL_def nanos_def)

end
