(* ===== verification/Pty.thy ===== *)
theory Pty
  imports Daemon Systemd
begin

text \<open>
  Terminals: the raw mode guard of the client (\<open>src/src/terminal.rs\<close>) and the pseudo terminal with its shell
  (\<open>src/src/pty.rs\<close>). What a system call returns is an argument; error numbers are those of Linux. The parent's part of \<open>spawn_pty_command\<close>
  prepares a plan, the child's part carries it out. The lemmas show that the guard restores the terminal,
  that a prepared plan is free of NUL bytes, and what the child is when it becomes the shell.
\<close>

section \<open>Raw mode\<close>

definition EINTR_no :: int where [obi_consts]: "EINTR_no = 4"
definition EINVAL_no :: int where [obi_consts]: "EINVAL_no = 22"
definition ENOTTY_no :: int where [obi_consts]: "ENOTTY_no = 25"

datatype TerminalError = GetAttr int | SetAttr int

text \<open>\<open>RawModeGuard::enable\<close> on a terminal with the given attributes; the guard is the original.\<close>

definition raw_mode_enable ::
  "('t \<Rightarrow> 't) \<Rightarrow> (unit, int) result \<Rightarrow> (unit, int) result \<Rightarrow> 't \<Rightarrow> ('t option, TerminalError) result \<times> 't" where
  "raw_mode_enable cfmakeraw tcgetattr tcsetattr attr =
     (case tcgetattr of
        Err e \<Rightarrow> (if e = ENOTTY_no \<or> e = EINVAL_no then Ok None else Err (GetAttr e), attr)
      | Ok _ \<Rightarrow>
          (case tcsetattr of
             Err e \<Rightarrow> (Err (SetAttr e), attr)
           | Ok _ \<Rightarrow> (Ok (Some attr), cfmakeraw attr)))"

definition raw_mode_drop :: "'t option \<Rightarrow> (unit, int) result \<Rightarrow> 't \<Rightarrow> 't" where
  "raw_mode_drop guard tcsetattr attr =
     (case guard of None \<Rightarrow> attr | Some original \<Rightarrow> if is_ok tcsetattr then original else attr)"

section \<open>Settings of the pseudo terminal\<close>

datatype term_flag =
    IGNBRK | BRKINT | IGNPAR | PARMRK | INPCK | ISTRIP | INLCR | IGNCR | ICRNL | IXON | IXANY | IXOFF | IMAXBEL | IUTF8
  | OPOST | ONLCR | OCRNL | ONOCR | ONLRET
  | CREAD | PARENB | PARODD | CSTOPB | HUPCL | CLOCAL
  | ECHO | ECHOE | ECHOK | ECHOKE | ECHOCTL | ECHONL | ICANON | IEXTEN | ISIG | NOFLSH | TOSTOP

datatype control_char =
    VEOF | VEOL | VERASE | VINTR | VKILL | VMIN | VQUIT | VSTART | VSTOP | VSUSP | VTIME | VLNEXT | VREPRINT | VDISCARD | VWERASE

text \<open>The flag words as sets; the character size, which \<open>CSIZE\<close> masks, and the speed apart.\<close>

record termios =
  tm_input :: "term_flag set"
  tm_output :: "term_flag set"
  tm_control :: "term_flag set"
  tm_char_size :: nat
  tm_local :: "term_flag set"
  tm_chars :: "control_char \<Rightarrow> u8"
  tm_speed :: nat

definition set_control_chars :: "(control_char \<Rightarrow> u8) \<Rightarrow> (control_char \<Rightarrow> u8)" where
  "set_control_chars cc =
     cc(VEOF := 4, VEOL := 0, VERASE := 127, VINTR := 3, VKILL := 21, VMIN := 1, VQUIT := 28, VSTART := 17, VSTOP := 19,
        VSUSP := 26, VTIME := 0, VLNEXT := 22, VREPRINT := 18, VDISCARD := 15, VWERASE := 23)"

definition interactive_termios ::
  "(unit, int) result \<Rightarrow> (termios, int) result \<Rightarrow> (unit, int) result \<Rightarrow> (termios, PtyError) result" where
  "interactive_termios openpty tcgetattr cfsetspeed =
     and_then (map_err PtyOpen openpty) (\<lambda>_.
     and_then (map_err PtyTermios tcgetattr) (\<lambda>t.
     and_then (map_err PtyTermios cfsetspeed) (\<lambda>_.
       Ok \<lparr>tm_input = tm_input t - {IGNBRK, IGNCR, INLCR, ISTRIP, IXOFF, PARMRK} \<union> {BRKINT, ICRNL, IXON} \<union> {IMAXBEL} \<union> {IUTF8},
           tm_output = tm_output t \<union> {OPOST, ONLCR},
           tm_control = tm_control t - {PARENB} \<union> {CREAD},
           tm_char_size = 8,
           tm_local = tm_local t - {ECHONL, NOFLSH, TOSTOP} \<union> {ECHO, ECHOE, ECHOK} \<union> {ECHOKE} \<union> {ECHOCTL} \<union> {ICANON, IEXTEN, ISIG},
           tm_chars = set_control_chars (tm_chars t),
           tm_speed = 38400\<rparr>)))"

section \<open>Starting the shell: the parent\<close>

text \<open>\<open>CString::new\<close>.\<close>

definition c_string :: "string \<Rightarrow> string \<Rightarrow> (string, PtyError) result" where
  "c_string what s = (if CHR 0x00 \<in> set s then Err (PtyNulByte what) else Ok s)"

fun c_env :: "(string \<times> string) list \<Rightarrow> ((string \<times> string) list, PtyError) result" where
  "c_env [] = Ok []"
| "c_env ((name, v) # env) =
     (if CHR ''='' \<in> set name then Err (PtyInvalidEnvironmentName name)
      else
        and_then (c_string ''environment'' name) (\<lambda>name.
        and_then (c_string ''environment'' v) (\<lambda>v.
        and_then (c_env env) (\<lambda>env. Ok ((name, v) # env)))))"

record plan =
  pl_program :: string
  pl_argv :: "string list"
  pl_env :: "(string \<times> string) list"
  pl_cwd :: "string option"
  pl_output :: "u8 list"
  pl_termios :: termios
  pl_size :: "WindowSize option"

record pty_calls =
  pt_openpty :: "(unit, int) result"
  pt_tcgetattr :: "(termios, int) result"
  pt_cfsetspeed :: "(unit, int) result"
  pt_forkpty :: "(nat, int) result" \<comment> \<open>the process of the child\<close>

definition spawn_pty_command ::
  "pty_calls \<Rightarrow> string \<Rightarrow> string option \<Rightarrow> string list \<Rightarrow> (string \<times> string) list \<Rightarrow> string option \<Rightarrow> u8 list \<Rightarrow>
     WindowSize option \<Rightarrow> (nat \<times> plan, PtyError) result" where
  "spawn_pty_command calls program argv0 args env_overrides cwd pre_exec_output win =
     and_then (c_string ''program'' program) (\<lambda>c_program.
     and_then (c_string ''argument'' (case argv0 of Some a \<Rightarrow> a | None \<Rightarrow> program)) (\<lambda>argv0.
     and_then (collect_results (map (c_string ''argument'') args)) (\<lambda>args.
     and_then (c_env env_overrides) (\<lambda>env.
     and_then (case cwd of None \<Rightarrow> Ok None | Some d \<Rightarrow> and_then (c_string ''cwd'' d) (\<lambda>d. Ok (Some d))) (\<lambda>cwd.
     and_then (interactive_termios (pt_openpty calls) (pt_tcgetattr calls) (pt_cfsetspeed calls)) (\<lambda>termios.
     and_then (map_err PtyFork (pt_forkpty calls)) (\<lambda>child.
       Ok (child,
           \<lparr>pl_program = c_program, pl_argv = argv0 # args, pl_env = env, pl_cwd = cwd, pl_output = pre_exec_output,
            pl_termios = termios, pl_size = win\<rparr>))))))))"

text \<open>\<open>set_window_size\<close>: the terminal gets the size unless the \<open>ioctl\<close> fails.\<close>

definition set_window_size ::
  "(unit, int) result \<Rightarrow> WindowSize \<Rightarrow> WindowSize option \<Rightarrow> (unit, PtyError) result \<times> WindowSize option" where
  "set_window_size ioctl win old =
     (case ioctl of Err e \<Rightarrow> (Err (PtySetWindowSize e), old) | Ok _ \<Rightarrow> (Ok (), Some win))"

section \<open>Starting the shell: the child\<close>

datatype write_outcome = Wrote nat | WriteFailed int

text \<open>
  The bytes written, and whether the loop has returned on the outcomes given. \<open>write\<close> reports at most what it was given.
\<close>

fun write_pre_exec_output :: "u8 list \<Rightarrow> write_outcome list \<Rightarrow> u8 list \<times> bool" where
  "write_pre_exec_output bs [] = ([], bs = [])"
| "write_pre_exec_output bs (w # ws) =
     (if bs = [] then ([], True)
      else
        (case w of
           WriteFailed e \<Rightarrow> if e = EINTR_no then write_pre_exec_output bs ws else ([], True)
         | Wrote n \<Rightarrow>
             if n = 0 then ([], True)
             else (case write_pre_exec_output (drop n bs) ws of (rest, returned) \<Rightarrow> (take n bs @ rest, returned))))"

record child =
  ch_cwd :: string
  ch_env :: "string \<Rightarrow> string option"
  ch_out :: "u8 list"

record child_calls =
  cc_systemd :: systemd_env
  cc_chdir :: bool
  cc_setenv :: "string \<Rightarrow> bool"
  cc_writes :: "write_outcome list"
  cc_exec :: bool

datatype child_end = Runs string "string list" | ChildExit nat | Stuck

fun set_env :: "(string \<Rightarrow> bool) \<Rightarrow> (string \<times> string) list \<Rightarrow> child \<Rightarrow> child option" where
  "set_env setenv [] ch = Some ch"
| "set_env setenv ((name, v) # env) ch =
     (if setenv name then set_env setenv env (ch\<lparr>ch_env := (ch_env ch)(name \<mapsto> v)\<rparr>) else None)"

text \<open>
  The branch of the child: its end, and the time that the attempt at a scope took; its result is ignored. \<open>Stuck\<close>: still writing.
\<close>

definition child_branch :: "child_calls \<Rightarrow> nat \<Rightarrow> plan \<Rightarrow> child \<Rightarrow> child_end \<times> child \<times> nat" where
  "child_branch calls pid pl ch =
     (let (_, time) = move_pid_to_new_scope (cc_systemd calls) pid in
      if pl_cwd pl \<noteq> None \<and> \<not> cc_chdir calls then (ChildExit 127, ch, time)
      else
        let ch1 = (case pl_cwd pl of Some d \<Rightarrow> ch\<lparr>ch_cwd := d\<rparr> | None \<Rightarrow> ch) in
        (case set_env (cc_setenv calls) (pl_env pl) ch1 of
           None \<Rightarrow> (ChildExit 127, ch1, time)
         | Some ch2 \<Rightarrow>
             (case write_pre_exec_output (pl_output pl) (cc_writes calls) of
                (out, returned) \<Rightarrow>
                  let ch3 = ch2\<lparr>ch_out := ch_out ch2 @ out\<rparr> in
                  if \<not> returned then (Stuck, ch3, time)
                  else if cc_exec calls then (Runs (pl_program pl) (pl_argv pl), ch3, time)
                  else (ChildExit 127, ch3, time))))"

section \<open>Lemmas\<close>

text \<open>The guard gives the terminal back as it was; without a guard nothing was changed.\<close>

lemma raw_mode_restored:
  "raw_mode_enable cfmakeraw get_attr set_attr attr = (res, attr') \<Longrightarrow>
    (case res of
       Ok guard \<Rightarrow> raw_mode_drop guard (Ok ()) attr' = attr \<and> (guard \<noteq> None \<longrightarrow> attr' = cfmakeraw attr)
     | Err _ \<Rightarrow> attr' = attr)"
  by (auto simp: raw_mode_enable_def raw_mode_drop_def split: result.splits if_splits)

text \<open>The settings of an interactive terminal do not depend on the flags that the system had set.\<close>

lemma interactive_termios_sane:
  assumes "interactive_termios op (Ok t) sp = Ok t'"
  shows "{BRKINT, ICRNL, IXON, IUTF8} \<subseteq> tm_input t' \<and> tm_input t' \<inter> {IGNBRK, IGNCR, INLCR, ISTRIP, IXOFF, PARMRK} = {} \<and>
    {ECHO, ECHOE, ICANON, ISIG, IEXTEN} \<subseteq> tm_local t' \<and> tm_local t' \<inter> {ECHONL, NOFLSH, TOSTOP} = {} \<and>
    {OPOST, ONLCR} \<subseteq> tm_output t' \<and> CREAD \<in> tm_control t' \<and> PARENB \<notin> tm_control t' \<and> tm_char_size t' = 8 \<and>
    tm_chars t' VINTR = 3 \<and> tm_chars t' VEOF = 4 \<and> tm_chars t' VERASE = 127"
  using assms by (auto simp: interactive_termios_def and_then_Ok_iff set_control_chars_def)

lemma c_string_Ok [simp]: "c_string what s = Ok t \<longleftrightarrow> t = s \<and> CHR 0x00 \<notin> set s"
  by (auto simp: c_string_def)

lemma c_env_Ok: "c_env env = Ok env' \<longleftrightarrow> env' = env \<and> list_all (\<lambda>(name, v). CHR ''='' \<notin> set name \<and> CHR 0x00 \<notin> set (name @ v)) env"
  by (induction env arbitrary: env' rule: c_env.induct) (auto simp: and_then_Ok_iff)

lemma collect_c_strings_Ok: "collect_results (map (c_string what) xs) = Ok ys \<longleftrightarrow> ys = xs \<and> list_all (\<lambda>s. CHR 0x00 \<notin> set s) xs"
  unfolding collect_results_Ok_iff by (induction xs arbitrary: ys) (auto simp: Cons_eq_map_conv)

lemma spawn_pty_command_Ok:
  assumes "spawn_pty_command calls program (Some argv0) args env (Some cwd) out win = Ok (child, pl)"
  shows "pl_program pl = program \<and> pl_argv pl = argv0 # args \<and> pl_env pl = env \<and> pl_cwd pl = Some cwd \<and> pl_output pl = out \<and>
    pl_size pl = win \<and> pt_forkpty calls = Ok child \<and> list_all (\<lambda>s. CHR 0x00 \<notin> set s) (program # argv0 # cwd # args)"
  using assms by (auto simp: spawn_pty_command_def and_then_Ok_iff c_env_Ok collect_c_strings_Ok)

text \<open>Later overrides of a name win; other variables are inherited.\<close>

lemma set_env_Some:
  "set_env setenv env ch = Some ch' \<Longrightarrow> ch' = ch\<lparr>ch_env := ch_env ch ++ map_of (rev env)\<rparr>"
  by (induction setenv env ch rule: set_env.induct) (auto split: if_splits)

lemma set_env_total: "(\<And>name. name \<in> fst ` set env \<Longrightarrow> setenv name) \<Longrightarrow> set_env setenv env ch \<noteq> None"
  by (induction setenv env ch rule: set_env.induct) auto

lemma prefix_take_drop: "prefix xs (drop n bs) \<Longrightarrow> prefix (take n bs @ xs) bs"
  by (metis append_take_drop_id same_prefix_prefix)

lemma pre_exec_output_prefix: "prefix (fst (write_pre_exec_output bs ws)) bs"
proof (induction bs ws rule: write_pre_exec_output.induct)
  case (2 bs w ws)
  then show ?case by (auto simp: prefix_take_drop split: write_outcome.split prod.split)
qed simp

text \<open>Interrupted writes are repeated: what was interrupted does not change what is written.\<close>

lemma pre_exec_output_complete:
  assumes "list_all (\<lambda>w. w = WriteFailed EINTR_no \<or> (\<exists>n>0. w = Wrote n)) ws" "length bs \<le> length (filter (\<lambda>w. w \<noteq> WriteFailed EINTR_no) ws)"
  shows "write_pre_exec_output bs ws = (bs, True)"
  using assms
proof (induction bs ws rule: write_pre_exec_output.induct)
  case (2 bs w ws)
  show ?case
  proof (cases "bs = []")
    case False
    show ?thesis
    proof (cases "w = WriteFailed EINTR_no")
      case True
      then show ?thesis using False "2.IH"(2) [of EINTR_no] "2.prems" by simp
    next
      case w: False
      then obtain n where n: "0 < n" "w = Wrote n" using "2.prems"(1) by auto
      then have "write_pre_exec_output (drop n bs) ws = (drop n bs, True)"
        using False "2.IH"(1) [of n] "2.prems" by auto
      then show ?thesis using False n by simp
    qed
  qed simp
qed simp

end
