(* ===== verification/DaemonStart.thy ===== *)
theory DaemonStart
  imports Pty Handshake
begin

text \<open>
  The start of a session daemon: \<open>run_daemon\<close> of \<open>src/src/daemon.rs\<close> up to its accept loop. The socket file is part of the
  state; a socket is listening as long as a process holds it. Two processes matter: the one that the broker
  started and waits for, and the daemon forked from it. The lemmas show what the socket is when the first one has ended, that the socket of a
  running daemon is left alone, and in which environment the shell starts.
\<close>

section \<open>Definitions\<close>

definition ENV_SESSION :: string where [obi_consts]: "ENV_SESSION = ''SSH_OBI_SESSION''"
definition ENV_SOCKET :: string where [obi_consts]: "ENV_SOCKET = ''SSH_OBI_SOCKET''"

record sock_file =
  sf_listening :: bool
  sf_mode :: u32

record daemon_env =
  de_temp_dir :: string
  de_uid :: u32
  de_show_io :: "io_error \<Rightarrow> string"
  de_dir :: dir_env
  de_connect_error :: "io_error option" \<comment> \<open>a probe that fails for another reason than the state of the socket\<close>
  de_remove :: "(unit, io_error) result"
  de_bind :: "(u32, io_error) result" \<comment> \<open>the mode that the umask leaves\<close>
  de_chmod :: "(unit, io_error) result"
  de_nonblocking :: "(unit, io_error) result"
  de_fork :: "(unit, int) result"
  de_setsid :: "(unit, int) result"
  de_fork_again :: "(unit, int) result"
  de_chdir :: "(unit, int) result"
  de_open_null :: "(unit, io_error) result"
  de_dup2 :: "nat \<Rightarrow> (unit, int) result"
  de_env_shell :: "string option"
  de_user_shell :: "string option"
  de_env_home :: "string option"
  de_user_dir :: "string option"
  de_is_dir :: "string \<Rightarrow> bool"
  de_motd :: motd_fs
  de_term :: "string option"
  de_pty :: pty_calls
  de_dup_pty :: "(unit, int) result"
  de_now :: SystemTime

definition probe_socket :: "daemon_env \<Rightarrow> sock_file option \<Rightarrow> (unit, io_error) result" where
  "probe_socket env sock =
     (case de_connect_error env of
        Some e \<Rightarrow> Err e
      | None \<Rightarrow> (case sock of None \<Rightarrow> Err NotFound | Some f \<Rightarrow> if sf_listening f then Ok () else Err ConnectionRefused))"

text \<open>An existing socket is removed when it is stale, else the start fails.\<close>

definition clear_socket :: "daemon_env \<Rightarrow> string \<Rightarrow> sock_file option \<Rightarrow> (unit, DaemonError) result \<times> sock_file option" where
  "clear_socket env path sock =
     (if sock = None then (Ok (), None)
      else
        (case remove_stale_socket (de_show_io env) (probe_socket env sock) (de_remove env) path of
           (Err e, _) \<Rightarrow> (Err (DSocketPath e), sock)
         | (Ok removed, _) \<Rightarrow> if removed then (Ok (), None) else (Err (DSocketAlreadyExists path), sock)))"

definition set_daemon_socket_permissions ::
  "daemon_env \<Rightarrow> string \<Rightarrow> sock_file \<Rightarrow> (unit, DaemonError) result \<times> sock_file" where
  "set_daemon_socket_permissions env path f =
     (case de_chmod env of Err e \<Rightarrow> (Err (DSocketPermissions path e), f) | Ok _ \<Rightarrow> (Ok (), f\<lparr>sf_mode := 384\<rparr>))"

text \<open>\<open>daemonize_after_bind\<close> in the process that goes on after the first \<open>fork\<close>.\<close>

definition daemonize_child :: "daemon_env \<Rightarrow> (unit, DaemonError) result" where
  "daemonize_child env =
     and_then (map_err DSetSid (de_setsid env)) (\<lambda>_.
     and_then (map_err DFork (de_fork_again env)) (\<lambda>_.
     and_then (map_err DChdir (de_chdir env)) (\<lambda>_.
     and_then (map_err DOpenDevNull (de_open_null env)) (\<lambda>_.
     and_then (map_err DRedirectStdio (de_dup2 env 0)) (\<lambda>_.
     and_then (map_err DRedirectStdio (de_dup2 env 1)) (\<lambda>_.
       map_err DRedirectStdio (de_dup2 env 2)))))))"

definition to_string_lossy :: "string \<Rightarrow> string" where
  "to_string_lossy s = map char_of (from_utf8_lossy (map of_char s))"

abbreviation spawn_shell :: "daemon_env \<Rightarrow> string" where
  "spawn_shell env \<equiv> shell_to_spawn (de_env_shell env) (de_user_shell env)"

abbreviation spawn_home :: "daemon_env \<Rightarrow> string" where
  "spawn_home env \<equiv> home_to_spawn (de_is_dir env) (de_env_home env) (de_user_dir env)"

definition shell_env :: "daemon_env \<Rightarrow> SessionId \<Rightarrow> string \<Rightarrow> (string \<times> string) list" where
  "shell_env env sid path =
     [(ENV_SESSION, sid), (ENV_SOCKET, to_string_lossy path), (''HOME'', spawn_home env), (''PWD'', spawn_home env),
      (''TERM'', term_to_spawn_from (de_term env))]"

definition spawn_session_shell ::
  "daemon_env \<Rightarrow> SessionId \<Rightarrow> string \<Rightarrow> WindowSize option \<Rightarrow> (nat \<times> plan, PtyError) result" where
  "spawn_session_shell env sid path win =
     (let shell = spawn_shell env; home = spawn_home env in
      spawn_pty_command (de_pty env) shell (Some (login_shell_argv0 shell)) [] (shell_env env sid path) (Some home)
        (motd_to_print (de_motd env) home) win)"

text \<open>
  The daemon process from its \<open>fork\<close> to its accept loop: the shell and the state with which the threads start (\<open>None\<close>: the
  panic of the replay buffer).
\<close>

definition daemon_process ::
  "daemon_env \<Rightarrow> SessionId \<Rightarrow> string \<Rightarrow> WindowSize option \<Rightarrow> (nat \<times> plan \<times> world option, DaemonError) result" where
  "daemon_process env sid path win =
     and_then (daemonize_child env) (\<lambda>_.
     and_then (map_err DPty (spawn_session_shell env sid path win)) (\<lambda>(child, pl).
     and_then (map_err DDupPty (de_dup_pty env)) (\<lambda>_.
       Ok (child, pl,
           map_option (\<lambda>s. init_world s win) (daemon_state_new sid (de_now env) (shell_command_name (spawn_shell env)))))))"

text \<open>
  How the started process ends (\<open>Ok\<close>: exit code 0), what becomes of the daemon (\<open>None\<close>: it was not forked), and the socket then.
\<close>

record daemon_start =
  st_starter :: "(unit, DaemonError) result"
  st_daemon :: "(nat \<times> plan \<times> world option, DaemonError) result option"
  st_socket :: "sock_file option"

definition failed_start :: "DaemonError \<Rightarrow> sock_file option \<Rightarrow> daemon_start" where
  "failed_start e sock = \<lparr>st_starter = Err e, st_daemon = None, st_socket = sock\<rparr>"

text \<open>From the bound socket on; when the last process that holds it ends, it does not listen any more.\<close>

definition start_bound :: "daemon_env \<Rightarrow> SessionId \<Rightarrow> string \<Rightarrow> WindowSize option \<Rightarrow> sock_file \<Rightarrow> daemon_start" where
  "start_bound env sid path win f =
     (let closed = (\<lambda>f. Some (f\<lparr>sf_listening := False\<rparr>)) in
      case set_daemon_socket_permissions env path f of
        (Err e, f) \<Rightarrow> failed_start e (closed f)
      | (Ok _, f) \<Rightarrow>
          (case map_err DListen (de_nonblocking env) of
             Err e \<Rightarrow> failed_start e (closed f)
           | Ok _ \<Rightarrow>
               (case map_err DFork (de_fork env) of
                  Err e \<Rightarrow> failed_start e (closed f)
                | Ok _ \<Rightarrow>
                    let daemon = daemon_process env sid path win in
                    \<lparr>st_starter = Ok (), st_daemon = Some daemon, st_socket = if is_ok daemon then Some f else closed f\<rparr>)))"

definition run_daemon :: "daemon_env \<Rightarrow> SessionId \<Rightarrow> WindowSize option \<Rightarrow> sock_file option \<Rightarrow> daemon_start" where
  "run_daemon env sid win sock =
     (let dir = socket_dir_for_uid (de_temp_dir env) (de_uid env) in
      case and_then (prepare_socket_dir (de_show_io env) (de_dir env) dir (de_uid env)) (\<lambda>_. socket_path dir sid) of
        Err e \<Rightarrow> failed_start (DSocketPath e) sock
      | Ok path \<Rightarrow>
          (case clear_socket env path sock of
             (Err e, sock) \<Rightarrow> failed_start e sock
           | (Ok _, sock) \<Rightarrow>
               (case de_bind env of
                  Err e \<Rightarrow> failed_start (DBind e) sock
                | Ok mode \<Rightarrow> start_bound env sid path win \<lparr>sf_listening = True, sf_mode = mode\<rparr>)))"

section \<open>Lemmas\<close>

lemma clear_socket_Ok: "clear_socket env path sock = (Ok (), sock') \<Longrightarrow> sock' = None \<and> (\<forall>f. sock = Some f \<longrightarrow> de_connect_error env = None \<longrightarrow> \<not> sf_listening f)"
  by (auto simp: clear_socket_def remove_stale_socket_def probe_socket_def split: if_splits prod.splits result.splits option.splits)

lemma clear_socket_Err: "clear_socket env path sock = (Err e, sock') \<Longrightarrow> sock' = sock"
  by (auto simp: clear_socket_def split: if_splits prod.splits result.splits)

lemma clear_socket_alive:
  "sf_listening f \<Longrightarrow> de_connect_error env = None \<Longrightarrow> clear_socket env path (Some f) = (Err (DSocketAlreadyExists path), Some f)"
  by (simp add: clear_socket_def remove_stale_socket_def probe_socket_def)

lemma start_bound_starter:
  "st_starter (start_bound env sid path win f) = Ok () \<Longrightarrow>
    st_daemon (start_bound env sid path win f) = Some (daemon_process env sid path win) \<and>
    st_socket (start_bound env sid path win f) = Some (f\<lparr>sf_mode := 384, sf_listening := is_ok (daemon_process env sid path win) \<and> sf_listening f\<rparr>)"
  by (auto simp: start_bound_def failed_start_def set_daemon_socket_permissions_def Let_def split: result.splits)

lemma start_bound_failed:
  "st_starter (start_bound env sid path win f) = Err e \<Longrightarrow>
    st_daemon (start_bound env sid path win f) = None \<and> (\<exists>f'. st_socket (start_bound env sid path win f) = Some f' \<and> \<not> sf_listening f')"
  by (auto simp: start_bound_def failed_start_def set_daemon_socket_permissions_def Let_def split: result.splits)

lemma daemon_process_Ok:
  assumes "daemon_process env sid path win = Ok (child, pl, w)"
  shows "pl_program pl = spawn_shell env \<and> pl_argv pl = [login_shell_argv0 (spawn_shell env)] \<and> pl_env pl = shell_env env sid path \<and>
    pl_cwd pl = Some (spawn_home env) \<and> pl_output pl = motd_to_print (de_motd env) (spawn_home env) \<and> pl_size pl = win \<and>
    (\<exists>s. w = Some (init_world s win) \<and> ds_session_id s = sid \<and> ds_broker s = None)"
proof -
  have s: "spawn_session_shell env sid path win = Ok (child, pl)"
    and w: "w = map_option (\<lambda>s. init_world s win) (daemon_state_new sid (de_now env) (shell_command_name (spawn_shell env)))"
    using assms by (auto simp: daemon_process_def and_then_Ok_iff)
  moreover obtain st where "daemon_state_new sid (de_now env) (shell_command_name (spawn_shell env)) = Some st"
    "ds_session_id st = sid" "ds_broker st = None"
    by (simp add: daemon_state_new_def replay_default_capacity_eq)
  ultimately show ?thesis
    using spawn_pty_command_Ok [OF s [unfolded spawn_session_shell_def Let_def]] by auto
qed

text \<open>The child that runs has gone through every step of its branch.\<close>

lemma child_branch_Runs:
  assumes "child_branch calls pid pl ch = (Runs prog argv, ch', time)"
  shows "prog = pl_program pl \<and> argv = pl_argv pl \<and> ch_env ch' = ch_env ch ++ map_of (rev (pl_env pl)) \<and>
    (\<forall>d. pl_cwd pl = Some d \<longrightarrow> ch_cwd ch' = d) \<and> (\<exists>out. ch_out ch' = ch_out ch @ out \<and> prefix out (pl_output pl)) \<and>
    time = snd (move_pid_to_new_scope (cc_systemd calls) pid)"
proof -
  let ?ch1 = "case pl_cwd pl of Some d \<Rightarrow> ch\<lparr>ch_cwd := d\<rparr> | None \<Rightarrow> ch"
  obtain ch2 out where c: "set_env (cc_setenv calls) (pl_env pl) ?ch1 = Some ch2"
    "write_pre_exec_output (pl_output pl) (cc_writes calls) = (out, True)" "ch' = ch2\<lparr>ch_out := ch_out ch2 @ out\<rparr>"
    "prog = pl_program pl" "argv = pl_argv pl" "time = snd (move_pid_to_new_scope (cc_systemd calls) pid)"
    using assms by (auto simp: child_branch_def Let_def split: prod.splits if_splits option.splits)
  have "prefix out (pl_output pl)" using pre_exec_output_prefix [of "pl_output pl" "cc_writes calls"] c(2) by simp
  then show ?thesis using set_env_Some [OF c(1)] c(3-) by (auto split: option.splits)
qed

section \<open>Properties\<close>

text \<open>
  C19. The socket of a session. When the process that the broker started ends with success, the socket directory belongs to the
  user with mode 0700, the socket has mode 0600, it listens exactly if the daemon came up, and no running daemon was
  behind it before. A socket behind which a daemon runs is left alone and the start fails. After a failure no daemon was
  forked and the socket is as it was, or gone, or stale, so that it can be removed later.
\<close>

theorem daemon_start_socket:
  assumes r_def: "r = run_daemon env sid win sock" and dir_def: "dir = socket_dir_for_uid (de_temp_dir env) (de_uid env)"
    and "de_connect_error env = None"
  shows "(st_starter r = Ok () \<longrightarrow>
      prepare_socket_dir (de_show_io env) (de_dir env) dir (de_uid env) = Ok () \<and> \<not> (\<exists>f. sock = Some f \<and> sf_listening f) \<and>
      (\<exists>d f. st_daemon r = Some d \<and> st_socket r = Some f \<and> sf_mode f = 384 \<and> sf_listening f = is_ok d)) \<and>
    (\<forall>f. sock = Some f \<and> sf_listening f \<longrightarrow> st_starter r \<noteq> Ok () \<and> st_socket r = sock) \<and>
    (st_starter r \<noteq> Ok () \<longrightarrow> st_daemon r = None \<and> (\<forall>f. st_socket r = Some f \<longrightarrow> sock = Some f \<or> \<not> sf_listening f))"
proof -
  let ?checked = "and_then (prepare_socket_dir (de_show_io env) (de_dir env) dir (de_uid env)) (\<lambda>_. socket_path dir sid)"
  show ?thesis
  proof (cases ?checked)
    case (Err e)
    then have "r = failed_start (DSocketPath e) sock" by (simp add: r_def run_daemon_def Let_def dir_def)
    then show ?thesis by (simp add: failed_start_def)
  next
    case (Ok path)
    then have dir: "prepare_socket_dir (de_show_io env) (de_dir env) dir (de_uid env) = Ok ()" by (auto simp: and_then_Ok_iff)
    obtain res sock' where c: "clear_socket env path sock = (res, sock')" by fastforce
    show ?thesis
    proof (cases "res = Ok () \<and> is_ok (de_bind env)")
      case False
      then obtain e where "r = failed_start e sock'"
        using Ok c by (cases res; cases "de_bind env") (auto simp: r_def run_daemon_def Let_def dir_def)
      moreover have "sock' = sock \<or> sock' = None \<and> \<not> (\<exists>f. sock = Some f \<and> sf_listening f)"
        using c clear_socket_Ok [of env path sock sock'] clear_socket_Err [of env path sock _ sock'] assms(3) by (cases res) auto
      ultimately show ?thesis by (auto simp: failed_start_def)
    next
      case True
      then obtain mode where b: "de_bind env = Ok mode" by (cases "de_bind env") auto
      then have r: "r = start_bound env sid path win \<lparr>sf_listening = True, sf_mode = mode\<rparr>"
        using Ok c True by (simp add: r_def run_daemon_def Let_def dir_def)
      have free: "\<not> (\<exists>f. sock = Some f \<and> sf_listening f)" using c True clear_socket_Ok [of env path sock sock'] assms(3) by auto
      show ?thesis
      proof (cases "st_starter r")
        case (Ok u)
        then show ?thesis using start_bound_starter [of env sid path win "\<lparr>sf_listening = True, sf_mode = mode\<rparr>"] r dir free by simp
      next
        case (Err e)
        then show ?thesis using start_bound_failed [of env sid path win "\<lparr>sf_listening = True, sf_mode = mode\<rparr>" e] r free by auto
      qed
    qed
  qed
qed

text \<open>A daemon that comes up, for witnesses.\<close>

definition demo_termios :: termios where
  "demo_termios = \<lparr>tm_input = {}, tm_output = {}, tm_control = {}, tm_char_size = 7, tm_local = {}, tm_chars = (\<lambda>_. 0), tm_speed = 0\<rparr>"

definition demo_daemon_env :: daemon_env where
  "demo_daemon_env =
     \<lparr>de_temp_dir = ''/t'', de_uid = 1000, de_show_io = (\<lambda>_. []),
      de_dir = \<lparr>dir_exists = True, dir_create = Ok (), dir_metadata = Ok \<lparr>md_is_dir = True, md_uid = 1000, md_mode = 448\<rparr>\<rparr>,
      de_connect_error = None, de_remove = Ok (), de_bind = Ok 493, de_chmod = Ok (), de_nonblocking = Ok (), de_fork = Ok (),
      de_setsid = Ok (), de_fork_again = Ok (), de_chdir = Ok (), de_open_null = Ok (), de_dup2 = (\<lambda>_. Ok ()),
      de_env_shell = Some ''/bin/sh'', de_user_shell = None, de_env_home = Some ''/h'', de_user_dir = None, de_is_dir = (\<lambda>_. True),
      de_motd = \<lparr>fs_is_file = (\<lambda>_. False), fs_len = (\<lambda>_. None), fs_read = (\<lambda>_. None), fs_read_dir = (\<lambda>_. None)\<rparr>, de_term = None,
      de_pty = \<lparr>pt_openpty = Ok (), pt_tcgetattr = Ok demo_termios, pt_cfsetspeed = Ok (), pt_forkpty = Ok 42\<rparr>,
      de_dup_pty = Ok (), de_now = 0\<rparr>"

lemma demo_socket_path: "socket_path (socket_dir_for_uid ''/t'' 1000) ''abcdefgh'' = Ok ''/t/ssh-obi-1000/abcdefgh.sock''"
  unfolding socket_dir_for_uid_def by code_simp

lemma demo_dir_ok: "prepare_socket_dir (\<lambda>_. []) (de_dir demo_daemon_env) dir 1000 = Ok ()"
  by (simp add: prepare_socket_dir_def demo_daemon_env_def)

lemma demo_home:
  "spawn_home demo_daemon_env = ''/h''" "spawn_shell demo_daemon_env = ''/bin/sh''" "term_to_spawn_from (de_term demo_daemon_env) = ''xterm-256color''"
  by (simp_all add: demo_daemon_env_def home_to_spawn_def is_directory_def shell_to_spawn_def term_to_spawn_from_def)

lemma demo_daemon_process: "\<exists>pl w. daemon_process demo_daemon_env ''abcdefgh'' ''/t/ssh-obi-1000/abcdefgh.sock'' None = Ok (42, pl, w)"
proof -
  let ?path = "''/t/ssh-obi-1000/abcdefgh.sock''"
  have names: "login_shell_argv0 ''/bin/sh'' = ''-sh''" "to_string_lossy ?path = ?path" by code_simp+
  have "\<exists>t. interactive_termios (Ok ()) (Ok demo_termios) (Ok ()) = Ok t" by (simp add: interactive_termios_def)
  then have "\<exists>pl. spawn_session_shell demo_daemon_env ''abcdefgh'' ?path None = Ok (42, pl)"
    unfolding spawn_session_shell_def shell_env_def Let_def demo_home names
    by (auto simp: spawn_pty_command_def c_string_def obi_consts) (simp_all add: demo_daemon_env_def)
  moreover have "daemonize_child demo_daemon_env = Ok ()" "de_dup_pty demo_daemon_env = Ok ()"
    by (simp_all add: daemonize_child_def demo_daemon_env_def)
  ultimately show ?thesis by (auto simp: daemon_process_def)
qed

lemma demo_run_daemon:
  "run_daemon demo_daemon_env ''abcdefgh'' None None =
     start_bound demo_daemon_env ''abcdefgh'' ''/t/ssh-obi-1000/abcdefgh.sock'' None \<lparr>sf_listening = True, sf_mode = 493\<rparr>"
proof -
  have e: "de_temp_dir demo_daemon_env = ''/t''" "de_uid demo_daemon_env = 1000" "de_show_io demo_daemon_env = (\<lambda>_. [])"
    "de_bind demo_daemon_env = Ok 493" by (simp_all add: demo_daemon_env_def)
  show ?thesis unfolding run_daemon_def Let_def e by (simp add: demo_dir_ok demo_socket_path clear_socket_def)
qed

lemma demo_start_bound:
  "start_bound demo_daemon_env ''abcdefgh'' path None \<lparr>sf_listening = True, sf_mode = 493\<rparr> =
     (let daemon = daemon_process demo_daemon_env ''abcdefgh'' path None in
      \<lparr>st_starter = Ok (), st_daemon = Some daemon, st_socket = Some \<lparr>sf_listening = is_ok daemon, sf_mode = 384\<rparr>\<rparr>)"
proof -
  have "de_chmod demo_daemon_env = Ok ()" "de_nonblocking demo_daemon_env = Ok ()" "de_fork demo_daemon_env = Ok ()"
    by (simp_all add: demo_daemon_env_def)
  then show ?thesis by (auto simp: start_bound_def set_daemon_socket_permissions_def Let_def)
qed

theorem daemon_start_socket_witness:
  "\<exists>f. st_socket (run_daemon demo_daemon_env ''abcdefgh'' None None) = Some f \<and> sf_mode f = 384 \<and> sf_listening f"
proof -
  let ?r = "run_daemon demo_daemon_env ''abcdefgh'' None None"
  obtain pl w where d: "daemon_process demo_daemon_env ''abcdefgh'' ''/t/ssh-obi-1000/abcdefgh.sock'' None = Ok (42, pl, w)"
    using demo_daemon_process by blast
  have r: "st_starter ?r = Ok ()" "st_daemon ?r = Some (Ok (42, pl, w))"
    unfolding demo_run_daemon demo_start_bound Let_def d by simp_all
  have "de_connect_error demo_daemon_env = None" by (simp add: demo_daemon_env_def)
  from daemon_start_socket [OF refl refl this, of "''abcdefgh''" None None] r show ?thesis by auto
qed

text \<open>
  C20. The shell of a session. A daemon that comes up starts, in the home directory, the login shell under its login name, on a terminal of the
  requested size, after printing at most the message of the day. The environment names the session and its socket, the
  home directory and the terminal type, and is otherwise inherited. The attempt to get a scope delays this by at most a
  second, one turn and its lateness. The daemon knows the session and nobody is attached.
\<close>

theorem session_shell_started:
  assumes "st_daemon (run_daemon env sid win sock) = Some (Ok (pid, pl, w))"
    and "child_branch calls pid pl ch = (Runs prog argv, ch', time)" and "\<And>k. sy_delay (cc_systemd calls) k \<le> d"
  shows "\<exists>path. socket_path (socket_dir_for_uid (de_temp_dir env) (de_uid env)) sid = Ok path \<and>
    prog = spawn_shell env \<and> argv = [login_shell_argv0 prog] \<and> ch_cwd ch' = spawn_home env \<and> pl_size pl = win \<and>
    ch_env ch' = (ch_env ch)(ENV_SESSION \<mapsto> sid, ENV_SOCKET \<mapsto> to_string_lossy path, ''HOME'' \<mapsto> spawn_home env,
      ''PWD'' \<mapsto> spawn_home env, ''TERM'' \<mapsto> term_to_spawn_from (de_term env)) \<and>
    (\<exists>out. ch_out ch' = ch_out ch @ out \<and> prefix out (motd_to_print (de_motd env) (spawn_home env))) \<and>
    time \<le> SCOPE_START_TIMEOUT + SCOPE_POLL + d \<and>
    (\<exists>s. w = Some (init_world s win) \<and> ds_session_id s = sid \<and> ds_broker s = None)"
proof -
  obtain path where p: "socket_path (socket_dir_for_uid (de_temp_dir env) (de_uid env)) sid = Ok path"
    and d: "daemon_process env sid path win = Ok (pid, pl, w)"
    using assms(1) by (auto simp: run_daemon_def start_bound_def failed_start_def Let_def and_then_Ok_iff
        split: result.splits prod.splits)
  note plan = daemon_process_Ok [OF d] and run = child_branch_Runs [OF assms(2)]
  have "map_of (rev (pl_env pl)) = [ENV_SESSION \<mapsto> sid, ENV_SOCKET \<mapsto> to_string_lossy path, ''HOME'' \<mapsto> spawn_home env,
      ''PWD'' \<mapsto> spawn_home env, ''TERM'' \<mapsto> term_to_spawn_from (de_term env)]"
    using plan by (simp add: shell_env_def)
  then have "ch_env ch' = (ch_env ch)(ENV_SESSION \<mapsto> sid, ENV_SOCKET \<mapsto> to_string_lossy path, ''HOME'' \<mapsto> spawn_home env,
      ''PWD'' \<mapsto> spawn_home env, ''TERM'' \<mapsto> term_to_spawn_from (de_term env))"
    using run by simp
  moreover have "time \<le> SCOPE_START_TIMEOUT + SCOPE_POLL + d"
    using run move_pid_time [OF assms(3), of pid] by simp
  ultimately show ?thesis using p plan run by auto
qed

definition demo_child_calls :: child_calls where
  "demo_child_calls = \<lparr>cc_systemd = demo_systemd, cc_chdir = True, cc_setenv = (\<lambda>_. True), cc_writes = [], cc_exec = True\<rparr>"

definition demo_child :: child where
  "demo_child = \<lparr>ch_cwd = ''/'', ch_env = (\<lambda>_. None), ch_out = []\<rparr>"

theorem session_shell_started_witness:
  "\<exists>pid pl w prog argv ch time. st_daemon (run_daemon demo_daemon_env ''abcdefgh'' None None) = Some (Ok (pid, pl, w)) \<and>
     child_branch demo_child_calls pid pl demo_child = (Runs prog argv, ch, time) \<and>
     prog = ''/bin/sh'' \<and> ch_cwd ch = ''/h'' \<and> ch_env ch ''SSH_OBI_SESSION'' = Some ''abcdefgh'' \<and> time \<le> 1010000005"
proof -
  obtain pl w where d: "daemon_process demo_daemon_env ''abcdefgh'' ''/t/ssh-obi-1000/abcdefgh.sock'' None = Ok (42, pl, w)"
    using demo_daemon_process by blast
  have r: "st_daemon (run_daemon demo_daemon_env ''abcdefgh'' None None) = Some (Ok (42, pl, w))"
    unfolding demo_run_daemon demo_start_bound Let_def d by simp
  have "motd_to_print (de_motd demo_daemon_env) home = []" for home
    by (simp add: motd_to_print_def motd_to_print_from_def append_motd_file_def demo_daemon_env_def)
  then have out: "pl_output pl = []" using daemon_process_Ok [OF d] by simp
  have cwd: "pl_cwd pl = Some ''/h''" using daemon_process_Ok [OF d] demo_home by simp
  obtain ch2 where "set_env (\<lambda>_. True) (pl_env pl) (demo_child\<lparr>ch_cwd := ''/h''\<rparr>) = Some ch2"
    using set_env_total [of "pl_env pl" "\<lambda>_. True"] by fastforce
  moreover obtain res time where "move_pid_to_new_scope demo_systemd 42 = (res, time)" by fastforce
  ultimately have run: "child_branch demo_child_calls 42 pl demo_child = (Runs (pl_program pl) (pl_argv pl), ch2, time)"
    using cwd out by (simp add: child_branch_def demo_child_calls_def)
  have "sy_delay (cc_systemd demo_child_calls) k \<le> 5" for k by (simp add: demo_child_calls_def demo_systemd_def)
  from session_shell_started [OF r run this] obtain path where
    "pl_program pl = spawn_shell demo_daemon_env" "ch_cwd ch2 = spawn_home demo_daemon_env"
    "ch_env ch2 = (ch_env demo_child)(ENV_SESSION \<mapsto> ''abcdefgh'', ENV_SOCKET \<mapsto> to_string_lossy path, ''HOME'' \<mapsto> spawn_home demo_daemon_env,
      ''PWD'' \<mapsto> spawn_home demo_daemon_env, ''TERM'' \<mapsto> term_to_spawn_from (de_term demo_daemon_env))"
    "time \<le> SCOPE_START_TIMEOUT + SCOPE_POLL + 5"
    by blast
  then show ?thesis
    using r run demo_home by (auto simp: obi_consts SCOPE_START_TIMEOUT_def SCOPE_POLL_def nanos_def)
qed

end
