(* ===== verification/ServerMain.thy ===== *)
theory ServerMain
  imports Broker DaemonStart
begin

text \<open>
  The program \<open>ssh-obi-server\<close> (\<open>src/src/bin/ssh-obi-server/main.rs\<close>): its arguments and the dispatch to daemon, detach, list and
  broker. The crate \<open>clap\<close>, which splits the command line into options, is a parameter; the values of the options are
  read here. The lemmas show that the command line with which the broker starts a daemon runs the daemon it means.
\<close>

section \<open>Arguments\<close>

record Args =
  ar_obi_version :: bool
  ar_daemon :: bool
  ar_detach :: bool
  ar_list :: bool
  ar_protocol_check :: "string option"
  ar_session :: "string option"
  ar_rows :: "u16 option"
  ar_cols :: "u16 option"
  ar_pixel_width :: "u16 option"
  ar_pixel_height :: "u16 option"

text \<open>\<open>str::parse::<u16>\<close>.\<close>

definition parse_u16 :: "string \<Rightarrow> u16 option" where
  "parse_u16 s = (case parse_usize s of None \<Rightarrow> None | Some n \<Rightarrow> if n < 2 ^ 16 then Some (word_of_nat n) else None)"

text \<open>The options that were found, with their values; a value that is no number is an error of the command line.\<close>

type_synonym options = "(string \<times> string option) list"

definition opt_value :: "options \<Rightarrow> string \<Rightarrow> string option" where
  "opt_value opts name = Option.bind (map_of opts name) id"

definition opt_u16 :: "options \<Rightarrow> string \<Rightarrow> (u16 option, unit) result" where
  "opt_u16 opts name =
     (case opt_value opts name of
        None \<Rightarrow> Ok None
      | Some s \<Rightarrow> (case parse_u16 s of None \<Rightarrow> Err () | Some n \<Rightarrow> Ok (Some n)))"

definition args_of :: "options \<Rightarrow> (Args, unit) result" where
  "args_of opts =
     (let flag = (\<lambda>name. name \<in> fst ` set opts) in
      and_then (opt_u16 opts ''rows'') (\<lambda>r.
      and_then (opt_u16 opts ''cols'') (\<lambda>c.
      and_then (opt_u16 opts ''pixel-width'') (\<lambda>w.
      and_then (opt_u16 opts ''pixel-height'') (\<lambda>h.
        Ok \<lparr>ar_obi_version = flag ''obi-version'', ar_daemon = flag ''daemon'', ar_detach = flag ''detach'', ar_list = flag ''list'',
            ar_protocol_check = opt_value opts ''protocol-check'', ar_session = opt_value opts ''session'',
            ar_rows = r, ar_cols = c, ar_pixel_width = w, ar_pixel_height = h\<rparr>)))))"

section \<open>Dispatch\<close>

record server_end =
  se_code :: "nat option" \<comment> \<open>\<open>None\<close>: still forwarding\<close>
  se_stdout :: string
  se_daemon :: "daemon_start option"
  se_server :: server

definition exits :: "nat \<Rightarrow> server \<Rightarrow> server_end" where
  "exits code sv = \<lparr>se_code = Some code, se_stdout = [], se_daemon = None, se_server = sv\<rparr>"

definition code_of :: "(unit, 'e) result \<Rightarrow> nat" where
  "code_of res = (if is_ok res then 0 else 1)"

text \<open>\<open>None\<close>: rows and columns are required together.\<close>

definition initial_window :: "Args \<Rightarrow> WindowSize option option" where
  "initial_window args =
     (case (ar_rows args, ar_cols args, ar_pixel_width args, ar_pixel_height args) of
        (None, None, None, None) \<Rightarrow> Some None
      | (Some r, Some c, w, h) \<Rightarrow>
          Some (Some \<lparr>rows = r, cols = c, pixel_width = case_option 0 id w, pixel_height = case_option 0 id h\<rparr>)
      | _ \<Rightarrow> None)"

definition main_daemon :: "server_env \<Rightarrow> daemon_env \<Rightarrow> Args \<Rightarrow> sock_file option \<Rightarrow> server \<Rightarrow> server_end" where
  "main_daemon env denv args sock sv =
     (case (case ar_session args of
              Some session \<Rightarrow> map_err (\<lambda>_. 2) (session_id_new session)
            | None \<Rightarrow> map_err (\<lambda>_. 1) (generate_session_id (se_gen env) [])) of
        Err code \<Rightarrow> exits code sv
      | Ok session_id \<Rightarrow>
          (case initial_window args of
             None \<Rightarrow> exits 2 sv
           | Some win \<Rightarrow>
               let start = run_daemon denv session_id win sock in
               (exits (code_of (st_starter start)) sv)\<lparr>se_daemon := Some start\<rparr>))"

text \<open>The broker, with a schedule of the two threads in case it comes to forwarding.\<close>

definition main_broker :: "server_env \<Rightarrow> bool list \<Rightarrow> server \<Rightarrow> server_end" where
  "main_broker env schedule sv =
     (case handle_broker_request env (se_uid env) sv of
        (Returned res, sv) \<Rightarrow> exits (code_of res) sv
      | (Proxying daemon keepalive, sv) \<Rightarrow>
          (case proxy_attached_session (se_codec env) schedule sv daemon keepalive of
             Err e \<Rightarrow> exits 1 sv
           | Ok px \<Rightarrow> (exits 0 sv)\<lparr>se_code := map_option code_of (px_down px)\<rparr>))"

record main_env =
  me_env :: server_env
  me_daemon :: daemon_env
  me_version :: string
  me_show_time :: "SystemTime \<Rightarrow> string"
  me_session_var :: "string option" \<comment> \<open>\<open>SSH_OBI_SESSION\<close>\<close>
  me_socket_var :: "string option" \<comment> \<open>\<open>SSH_OBI_SOCKET\<close>\<close>
  me_schedule :: "bool list"

definition server_main :: "main_env \<Rightarrow> Args \<Rightarrow> sock_file option \<Rightarrow> server \<Rightarrow> server_end" where
  "server_main m args sock sv =
     (let env = me_env m in
      if ar_obi_version args then (exits 0 sv)\<lparr>se_stdout := me_version m @ [CHR 0x0A]\<rparr>
      else
        (case ar_protocol_check args of
           Some baseline \<Rightarrow> exits (if supports_protocol_baseline baseline then 0 else 1) sv
         | None \<Rightarrow>
             if ar_daemon args then main_daemon env (me_daemon m) args sock sv
             else if ar_detach args then
               (case (case ar_session args of
                        Some session \<Rightarrow> detach_local_session env session sv
                      | None \<Rightarrow> detach_from_env env (me_socket_var m) sv) of
                  (res, sv) \<Rightarrow> exits (code_of res) sv)
             else if ar_list args then
               (case list_local_sessions env (me_show_time m) (me_session_var m) sv of
                  (Ok table, sv) \<Rightarrow> (exits 0 sv)\<lparr>se_stdout := table\<rparr>
                | (Err e, sv) \<Rightarrow> exits 1 sv)
             else main_broker env (me_schedule m) sv))"

text \<open>A command line that cannot be read ends the program with code 2.\<close>

definition run_server ::
  "(string list \<Rightarrow> options option) \<Rightarrow> main_env \<Rightarrow> string list \<Rightarrow> sock_file option \<Rightarrow> server \<Rightarrow> server_end" where
  "run_server clap m argv sock sv =
     (case clap argv of
        None \<Rightarrow> exits 2 sv
      | Some opts \<Rightarrow> (case args_of opts of Err _ \<Rightarrow> exits 2 sv | Ok args \<Rightarrow> server_main m args sock sv))"

section \<open>The command line parser\<close>

definition daemon_options :: "string list" where
  "daemon_options = [''session'', ''rows'', ''cols'', ''pixel-width'', ''pixel-height'']"

definition option_words :: "string \<times> string option \<Rightarrow> string list" where
  "option_words opt = (''--'' @ fst opt) # (case snd opt of None \<Rightarrow> [] | Some v \<Rightarrow> [v])"

text \<open>
  The documented reading of long options: \<open>--daemon\<close> with any of the options that go with it, each at most once and with a value that does not
  start with a dash, is read as these options.
\<close>

definition daemon_line :: "options \<Rightarrow> bool" where
  "daemon_line opts \<longleftrightarrow> distinct (map fst opts) \<and> (''daemon'', None) \<in> set opts \<and>
     list_all (\<lambda>(name, v). if name = ''daemon'' then v = None
       else name \<in> set daemon_options \<and> (case v of Some (c # cs) \<Rightarrow> c \<noteq> CHR ''-'' | _ \<Rightarrow> False)) opts"

definition reads_long_options :: "(string list \<Rightarrow> options option) \<Rightarrow> bool" where
  "reads_long_options clap \<longleftrightarrow> (\<forall>opts. daemon_line opts \<longrightarrow> clap (concat (map option_words opts)) = Some opts)"

section \<open>Lemmas\<close>

definition daemon_opts :: "SessionId \<Rightarrow> WindowSize option \<Rightarrow> options" where
  "daemon_opts sid win =
     [(''daemon'', None), (''session'', Some sid)] @
     (case win of
        None \<Rightarrow> []
      | Some ws \<Rightarrow>
          [(''rows'', Some (show_nat (unat (rows ws)))), (''cols'', Some (show_nat (unat (cols ws)))),
           (''pixel-width'', Some (show_nat (unat (pixel_width ws)))), (''pixel-height'', Some (show_nat (unat (pixel_height ws))))])"

lemma daemon_args_words: "daemon_args sid win = concat (map option_words (daemon_opts sid win))"
  by (simp add: daemon_args_def daemon_opts_def option_words_def split: option.split)

lemma show_nat_no_dash: "\<exists>c cs. show_nat n = c # cs \<and> c \<noteq> CHR ''-''"
proof -
  obtain c cs where c: "show_nat n = c # cs" by (cases "show_nat n") auto
  then obtain d where "d < 10" "c = digit_char d" using digit_chars_show_nat [of c n] by auto
  then have "digit_of c = Some d" by simp
  then have "c \<noteq> CHR ''-''" by (auto simp: digit_of_def)
  with c show ?thesis by blast
qed

lemma show_nat_value_ok: "(case show_nat n of [] \<Rightarrow> False | c # cs \<Rightarrow> c \<noteq> CHR ''-'')"
  using show_nat_no_dash [of n] by auto

lemma session_no_dash:
  assumes "session_id_new sid = Ok sid" shows "case sid of [] \<Rightarrow> False | c # cs \<Rightarrow> c \<noteq> CHR ''-''"
proof -
  have "list_all is_base32_char sid" "sid \<noteq> []" using assms by (auto simp: session_id_new_def split: if_splits)
  moreover have "\<not> is_base32_char (CHR ''-'')" by code_simp
  ultimately show ?thesis by (cases sid) auto
qed

lemma daemon_opts_line:
  assumes "session_id_new sid = Ok sid" shows "daemon_line (daemon_opts sid win)"
  using session_no_dash [OF assms] show_nat_value_ok
  by (auto simp: daemon_line_def daemon_opts_def daemon_options_def split: option.split list.splits)

lemma parse_u16_show: "parse_u16 (show_nat (unat w)) = Some w"
proof -
  have "unat w < 2 ^ 16" using unsigned_less [of w] by simp
  moreover from this have "unat w \<le> usize_max" by (simp add: usize_max_def)
  ultimately show ?thesis using parse_usize_show_nat [of "unat w"] by (simp add: parse_u16_def)
qed

lemma args_of_daemon:
  "\<exists>args. args_of (daemon_opts sid win) = Ok args \<and> ar_daemon args \<and> \<not> ar_obi_version args \<and> ar_protocol_check args = None \<and>
    ar_session args = Some sid \<and> initial_window args = Some win"
  by (cases win) (simp_all add: args_of_def daemon_opts_def opt_u16_def opt_value_def parse_u16_show initial_window_def Let_def)

text \<open>Waiting for a daemon starts no further process.\<close>

lemma with_daemon_spawned: "sv_spawned (snd (with_daemon path conv sv)) = sv_spawned sv"
  by (auto simp: with_daemon_def connect_daemon_def connect_socket_def bind_io_def split: prod.splits list.splits result.splits)

lemma ready_loop_spawned: "sv_spawned (snd (ready_loop c path delay k elapsed e sv)) = sv_spawned sv"
proof (induction c path delay k elapsed e sv rule: ready_loop.induct)
  case (1 c path delay k elapsed e sv)
  obtain res sv1 where q: "query_daemon_info c path sv = (res, sv1)" by fastforce
  then have "sv_spawned sv1 = sv_spawned sv" using with_daemon_spawned [of path "info_conversation c" sv] by (simp add: query_daemon_info_def)
  then show ?case
    using 1 q by (auto simp: ready_loop.simps [of c path delay k elapsed] split: result.splits ServerError.splits)
qed

lemma launch_daemon_spawned:
  assumes "launch_daemon env uid win sv = (Ok sid, sv')"
  shows "sv_spawned sv' = sv_spawned sv @ [daemon_args sid win] \<and> session_id_new sid = Ok sid"
proof -
  let ?dir = "socket_dir_for_uid (se_temp_dir env) uid"
  obtain existing path where g: "generate_session_id (se_gen env) existing = Ok sid" "socket_path ?dir sid = Ok path"
    and w: "wait_for_daemon_ready env path (sv\<lparr>sv_spawned := sv_spawned sv @ [daemon_args sid win]\<rparr>) = (Ok (), sv')"
    using assms by (auto simp: launch_daemon_def Let_def bind_io_Ok split: if_splits)
  have "sv_spawned sv' = sv_spawned sv @ [daemon_args sid win]"
    using ready_loop_spawned [of "se_codec env" path "se_delay env" 0 0 None "sv\<lparr>sv_spawned := sv_spawned sv @ [daemon_args sid win]\<rparr>"] w
    by (simp add: wait_for_daemon_ready_def)
  moreover have "session_id_new sid = Ok sid"
    using g(2) by (auto simp: socket_path_def session_id_new_def split: result.splits if_splits)
  ultimately show ?thesis by blast
qed

text \<open>A parser that meets the documented reading, and a start of a session, for the witness.\<close>

fun simple_clap :: "string list \<Rightarrow> options option" where
  "simple_clap [] = Some []"
| "simple_clap (w # ws) =
     (if w = ''--daemon'' then map_option (\<lambda>opts. (''daemon'', None) # opts) (simple_clap ws)
      else if take 2 w = ''--'' \<and> drop 2 w \<in> set daemon_options then
        (case ws of [] \<Rightarrow> None | v # ws \<Rightarrow> map_option (\<lambda>opts. (drop 2 w, Some v) # opts) (simple_clap ws))
      else None)"

lemma simple_clap_words:
  "list_all (\<lambda>(name, v). if name = ''daemon'' then v = None else name \<in> set daemon_options \<and> v \<noteq> None) opts \<Longrightarrow>
    simple_clap (concat (map option_words opts)) = Some opts"
proof (induction opts)
  case (Cons opt opts)
  obtain name v where opt: "opt = (name, v)" by fastforce
  have "''daemon'' \<notin> set daemon_options" by (simp add: daemon_options_def)
  then show ?case using Cons opt by (auto simp: option_words_def split: if_splits)
qed simp

lemma simple_clap_reads: "reads_long_options simple_clap"
proof -
  have "simple_clap (concat (map option_words opts)) = Some opts" if "daemon_line opts" for opts
  proof (rule simple_clap_words, rule list.pred_mono_strong)
    show "list_all (\<lambda>(name, v). if name = ''daemon'' then v = None
       else name \<in> set daemon_options \<and> (case v of Some (c # cs) \<Rightarrow> c \<noteq> CHR ''-'' | _ \<Rightarrow> False)) opts"
      using that by (simp add: daemon_line_def)
  qed (auto split: if_splits option.splits)
  then show ?thesis by (simp add: reads_long_options_def)
qed

definition fresh_server :: server where
  "fresh_server = demo_server\<lparr>sv_socks := (\<lambda>_. [Ok (demo_stream [demo_frame CAPABILITIES, demo_frame DAEMON_INFO])])\<rparr>"

definition fresh_env :: server_env where
  "fresh_env = demo_server_env\<lparr>se_read_dir := (\<lambda>_. Err NotFound)\<rparr>"

definition demo_window :: WindowSize where
  "demo_window = \<lparr>rows = 24, cols = 80, pixel_width = 0, pixel_height = 600\<rparr>"

definition demo_main :: main_env where
  "demo_main = \<lparr>me_env = demo_server_env, me_daemon = demo_daemon_env, me_version = [], me_show_time = (\<lambda>_. []), me_session_var = None,
     me_socket_var = None, me_schedule = []\<rparr>"

lemma fresh_server_launch: "\<exists>sid sv. launch_daemon fresh_env 1000 (Some demo_window) fresh_server = (Ok sid, sv)"
proof -
  have dir: "socket_dir_for_uid ''/t'' 1000 = ''/t/ssh-obi-1000''" unfolding socket_dir_for_uid_def by code_simp
  have h: "8 \<le> length (blake3_hash demo_env bs)" and n: "random_nonce demo_env k \<noteq> Err e" for bs k e
    by (simp_all add: demo_env_def)
  obtain i where i: "generate_session_id demo_env [] = Ok i" "session_id_new i = Ok i" "length i = 10"
    using generate_session_id_fresh [OF h, of "[]"] n
    by (cases "generate_session_id demo_env []") (auto dest: spec [of _ 0])
  have "length (path_join ''/t/ssh-obi-1000'' (i @ ''.sock'')) \<le> 31" using i(3) by (simp add: path_join_def)
  then obtain path where path: "socket_path ''/t/ssh-obi-1000'' i = Ok path"
    using i(2) by (simp add: socket_path_def SOCKET_PATH_LIMIT_def Let_def)
  have e: "se_temp_dir fresh_env = ''/t''" "se_uid fresh_env = 1000" "se_read_dir fresh_env = (\<lambda>_. Err NotFound)" "se_gen fresh_env = demo_env"
    "se_current_exe fresh_env = Ok ()" "se_spawn fresh_env = Ok ()" "se_starter fresh_env = Ok (Some 0)"
    "se_codec fresh_env = se_codec demo_server_env"
    by (simp_all add: fresh_env_def demo_server_env_def)
  let ?sv = "fresh_server\<lparr>sv_spawned := sv_spawned fresh_server @ [daemon_args i (Some demo_window)]\<rparr>"
  obtain sv where "query_daemon_info (se_codec demo_server_env) path ?sv = (first_answer (se_codec demo_server_env) ?sv path, sv)"
    using query_daemon_info_answer(1) by (metis surj_pair)
  moreover have "first_answer (se_codec demo_server_env) ?sv path = Ok demo_record"
    by (simp add: first_answer_def fresh_server_def demo_info_answer)
  ultimately have "wait_for_daemon_ready fresh_env path ?sv = (Ok (), sv)"
    by (simp add: wait_for_daemon_ready_def e ready_loop.simps [of _ path _ 0 0] READY_TIMEOUT_def nanos_def)
  then show ?thesis
    by (simp add: launch_daemon_def e dir Let_def bind_io_def list_session_socket_ids_def i path)
qed

section \<open>Properties\<close>

text \<open>
  C21. A new session is the one the broker asked for. When starting a daemon succeeds, the last process the broker started, read by a command line
  parser that treats long options as documented, is the daemon of that session id and of the window size the client sent,
  every number of it included; it ends with code 0 exactly when the socket was bound and the daemon forked.
\<close>

theorem new_session_daemon:
  assumes "reads_long_options clap" and "launch_daemon env uid win sv = (Ok sid, sv')"
  shows "\<exists>out. run_server clap m (last (sv_spawned sv')) sock child = out \<and>
    se_daemon out = Some (run_daemon (me_daemon m) sid win sock) \<and>
    (se_code out = Some 0 \<longleftrightarrow> st_starter (run_daemon (me_daemon m) sid win sock) = Ok ())"
proof -
  have l: "last (sv_spawned sv') = daemon_args sid win" "session_id_new sid = Ok sid"
    using launch_daemon_spawned [OF assms(2)] by simp_all
  have "clap (daemon_args sid win) = Some (daemon_opts sid win)"
    using assms(1) daemon_opts_line [OF l(2)] by (simp add: reads_long_options_def daemon_args_words)
  moreover obtain args where "args_of (daemon_opts sid win) = Ok args" "ar_daemon args" "\<not> ar_obi_version args"
    "ar_protocol_check args = None" "ar_session args = Some sid" "initial_window args = Some win"
    using args_of_daemon by blast
  ultimately have "run_server clap m (last (sv_spawned sv')) sock child = main_daemon (me_env m) (me_daemon m) args sock child"
    and "main_daemon (me_env m) (me_daemon m) args sock child =
      (exits (code_of (st_starter (run_daemon (me_daemon m) sid win sock))) child)\<lparr>se_daemon := Some (run_daemon (me_daemon m) sid win sock)\<rparr>"
    using l by (simp_all add: run_server_def server_main_def main_daemon_def Let_def)
  then show ?thesis
    by (cases "st_starter (run_daemon (me_daemon m) sid win sock)") (simp_all add: exits_def code_of_def)
qed

theorem new_session_daemon_witness:
  "\<exists>sid sv out. launch_daemon fresh_env 1000 (Some demo_window) fresh_server = (Ok sid, sv) \<and>
     run_server simple_clap demo_main (last (sv_spawned sv)) None fresh_server = out \<and>
     se_daemon out = Some (run_daemon demo_daemon_env sid (Some demo_window) None)"
proof -
  obtain sid sv where l: "launch_daemon fresh_env 1000 (Some demo_window) fresh_server = (Ok sid, sv)" using fresh_server_launch by blast
  from new_session_daemon [OF simple_clap_reads l, of demo_main None fresh_server] l show ?thesis
    by (auto simp: demo_main_def)
qed

end
