(* ===== verification/Spec2Isabelle.thy ===== *)
theory Spec2Isabelle
  imports Obi_Prelude Protocol Replay Session Daemon Cli Bootstrap SearchText Searcher SearchMarks Toc
    Dom BookTheme BookSidebar BookNav BookMenu BookCode TocPage TocChapters TocDebug Attached StdinThread Handshake Reconnect Broker Foreground
    Systemd Pty DaemonStart ServerMain
begin

text \<open>
  A model of ssh-obi and of the scripts of its documentation site, with the theorems that make them correct.

  \<^bold>\<open>The program.\<close> \<open>ssh-obi\<close> keeps remote shells alive. The \<^emph>\<open>client\<close> parses its command line (\<open>src/src/cli.rs\<close>),
  starts the system \<open>ssh\<close> with a remote command (\<open>src/src/bootstrap.rs\<close>), waits for a marker line, and then talks
  frames (\<open>src/src/protocol.rs\<close>, \<open>src/src/transport.rs\<close>) over the streams of that process: capabilities, choice of a
  session, attached session, reconnect after a loss (\<open>src/src/client.rs\<close>). At the other end the \<^emph>\<open>broker\<close>
  (\<open>src/src/server.rs\<close>) lists, starts, detaches and attaches sessions and passes frames on. Each session is a \<^emph>\<open>daemon\<close>
  (\<open>src/src/daemon.rs\<close>) with one terminal, one shell and at most one attached broker, reached by a socket whose
  name holds the session id (\<open>src/src/session.rs\<close>). The documentation under \<open>src/docs\<close> is a set of pages with
  three scripts of their own: \<open>book-a0b12cfe.js\<close>, \<open>searcher-c2a407aa.js\<close> and \<open>toc-08fdb426.js\<close>.

  \<^bold>\<open>Theories.\<close> Each follows its source in order and keeps its names.

  \<^item> \<open>Obi_Prelude\<close>: results, machine integers, readers and writers of bytes, parsing and printing of
    numbers, splitting and joining.
  \<^item> \<open>Protocol\<close> (\<open>protocol.rs\<close>, \<open>transport.rs\<close>): frames, message types, bodies, capabilities. Frames written are read
    back, every cut of a frame is rejected, the size limit holds before anything is read.
  \<^item> \<open>Replay\<close> (\<open>ReplayBuffer\<close> of \<open>daemon.rs\<close>): the ring refines the list of the last 64 KiB. Its locale \<open>recent_log\<close>
    is interpreted on the ring.
  \<^item> \<open>Session\<close> (\<open>session.rs\<close>): session ids and base 32, socket paths, safety of the socket directory, lists and selection.
  \<^item> \<open>Daemon\<close> (\<open>daemon.rs\<close>): the state behind the mutex and every thread as steps over one world: handlers, terminal reader, child
    waiter. Schedules are arbitrary lists of steps. What an attached client receives, who may release a session, and
    the races that the code has.
  \<^item> \<open>Systemd\<close> (\<open>systemd.rs\<close>), \<open>Pty\<close> (\<open>pty.rs\<close>, \<open>terminal.rs\<close>), \<open>DaemonStart\<close> (\<open>run_daemon\<close> of \<open>daemon.rs\<close>): the scope of a shell and how long waiting for it takes, raw mode, the
    shell's parent and child, the socket and the processes of a starting daemon.
  \<^item> \<open>ServerMain\<close> (\<open>bin/ssh-obi-server/main.rs\<close>): options and dispatch of the server program; what the broker starts is what it means.
  \<^item> \<open>Cli\<close> (\<open>cli.rs\<close>) and \<open>Bootstrap\<close> (\<open>bootstrap.rs\<close>): parsing and printing of command lines, quoting for the remote shell.
  \<^item> \<open>Handshake\<close>, \<open>Attached\<close>, \<open>StdinThread\<close>, \<open>Reconnect\<close> (\<open>client.rs\<close>): the start of a connection over byte streams; the loop of the
    attached session turn by turn; the input thread with its lock and condition variable as an
    inductive step relation; attempts and the reconnect loop. The client ends or goes on as promised,
    asks for the right session, passes input and output on, leaves the terminal to \<open>ssh\<close> while it
    reconnects, and reaches no \<open>unreachable!\<close>. The locale \<open>session_attempts\<close> says what the loop relies on in an
    attempt and is interpreted on \<open>run_client_attempt\<close>.
  \<^item> \<open>Broker\<close> (\<open>server.rs\<close>): conversations with daemons, requests of the client, start of a daemon, forwarding under every schedule
    of its two threads, the keepalive monitor, local commands.
  \<^item> \<open>Foreground\<close> (\<open>foreground.rs\<close>): the command of the foreground process group, against the process table that the kernel prints.
  \<^item> \<open>SearchText\<close>, \<open>Searcher\<close> and \<open>SearchMarks\<close> (\<open>searcher-c2a407aa.js\<close>): teasers, escaping, addresses and the formatting of results; all event handlers
    over one page state; the marked words.
  \<^item> \<open>Toc\<close>, \<open>TocPage\<close>, \<open>TocChapters\<close>, \<open>TocDebug\<close> (\<open>toc-08fdb426.js\<close>): the outline of headers on a store of nodes, the current header, folding,
    the chapter list, and the debug drawing.
  \<^item> \<open>Dom\<close>, \<open>BookTheme\<close>, \<open>BookSidebar\<close>, \<open>BookNav\<close>, \<open>BookMenu\<close>, \<open>BookCode\<close> (\<open>book-a0b12cfe.js\<close>, and the inline scripts of \<open>index.html\<close>): exceptions and events
    of a page; themes, sidebar, keys, menu bar and code blocks. The locale \<open>page_script\<close> carries an
    invariant through the events of a page and is interpreted for themes, sidebar, navigation, the marks and the debug drawing.
  \<^item> This theory: client and broker together, on a session that is gone.

  \<^bold>\<open>Bounds and conventions.\<close> Rust strings are lists of UTF-8 bytes, white space is ASCII; JavaScript strings are Latin-1 code units. Pixels are
  rational numbers, times are natural numbers of nanoseconds. Words keep their width; the statements
  that count attempts hold below \<open>2 ^ 32\<close> or \<open>2 ^ 64\<close>, where the code saturates. A stream is what is still to come on
  it, failures included; a writer may have a budget of bytes after which it fails. Loops that read a stream end
  because every turn takes something of it. Loops that wait for the world (the attached session,
  the reconnect loop, threads) run on the list of what their turns meet, so that an endless run is
  all its finite parts; that they end is then a theorem with the number of turns. \<open>65540\<close> steps of the input
  thread are one batch of 64 KiB read byte by byte and four steps around it.

  \<^bold>\<open>Parameters.\<close> The CBOR codec (with \<open>codec_round_trips\<close> as its law), the hash function and the random source of session
  ids, the local time format, the command line parser of \<open>clap\<close> (with \<open>reads_long_options\<close> as its law), the file system and the sockets as the outcome of each call, the
  \<open>ssh\<close> process as a function of its arguments, \<open>bootstrap.sh\<close> as the script that the remote command carries, and for the
  pages the index search, the stemmer, the URL parser, the layout and the storage of the browser.

  \<^bold>\<open>Not modelled.\<close> System calls are what they return and what they change of the state above; signals and the
  scheduler are not there. The variants for Windows, the texts of the
  error messages and what is printed on the standard error have no effect on the rest. The remaining scripts under \<open>src/docs\<close> are third-party code in minified form
  and the generated search index.
\<close>

section \<open>Client and broker together\<close>

text \<open>
  The \<open>ssh\<close> process that the client sees when the broker at the other end has written some bytes and
  has ended with an error: the ready marker, the bytes, the end of the stream, exit code 1.
\<close>

definition broker_process :: "u8 list \<Rightarrow> u64 \<Rightarrow> ssh_process" where
  "broker_process out i =
     \<lparr>sp_spawn = Ok (), sp_stdin = True, sp_stdout = True,
      sp_conn = demo_conn\<lparr>cn_in := marker_line READY_MARKER False @ reader_of out\<rparr>,
      sp_window = Ok None, sp_attached_io = Ok (), sp_start = idle_turn 0, sp_turns = [heard i (Ok None)],
      sp_wait = (\<lambda>_. Ok (Some 1))\<rparr>"

lemma send_body_Ok:
  assumes "from_body c ty 0 b = Ok f" "wr_budget (cn_out cn) = None"
  shows "send_body c ty b cn = (Ok (), cn\<lparr>cn_out := (cn_out cn)\<lparr>wr_out := wr_out (cn_out cn) @ frame_bytes f\<rparr>\<rparr>)"
proof -
  have "frame_ok f" using assms(1) by (auto simp: from_body_Ok_iff frame_ok_def)
  then show ?thesis using assms by (simp add: send_body_def write_body_def write_to_no_budget)
qed

lemma exchange_capabilities_Ok:
  assumes c: "codec_round_trips c" and fc: "from_body c CAPABILITIES 0 (BCapabilities DEFAULT_CAPABILITIES) = Ok fc"
    and cn: "cn_in cn = reader_of (frame_bytes fc) @ r" "wr_budget (cn_out cn) = None"
  shows "\<exists>cn'. exchange_capabilities c cn = (Ok DEFAULT_CAPABILITIES, cn') \<and> wr_budget (cn_out cn') = None"
proof -
  have f: "frame_ok fc" "frame_msg_type fc = CAPABILITIES" using fc by (auto simp: from_body_Ok_iff frame_ok_def)
  have "DEFAULT_CAPABILITIES \<noteq> []" by (simp add: DEFAULT_CAPABILITIES_def)
  then show ?thesis
    using send_body_Ok [OF fc cn(2)] cn f decode_typed_from_body(1) [OF c fc refl]
    by (simp add: exchange_capabilities_def bind_io_def read_expected_broker_frame.simps [of CAPABILITIES]
        read_frame_bytes decoded_def Let_def)
qed

lemma attempt_at_ended_broker:
  assumes c: "codec_round_trips (ce_codec env)"
    and fc: "from_body (ce_codec env) CAPABILITIES 0 (BCapabilities DEFAULT_CAPABILITIES) = Ok fc"
    and fa: "from_body (ce_codec env) ATTACH_SESSION 0 (BAttachSessionRequest x) = Ok fa"
    and args: "ca_action args = Attach" "ca_session args = Some x"
  shows "run_client_attempt env args i (\<lambda>_. broker_process (frame_bytes fc) i) =
    Some (Ok (AttemptAttached (Err (None, UnexpectedBrokerEof))))"
proof -
  let ?p = "broker_process (frame_bytes fc) i"
  let ?cn = "demo_conn\<lparr>cn_in := reader_of (frame_bytes fc)\<rparr>"
  have w: "wait_for_bootstrap (sp_conn ?p) = (Ok (), ?cn)"
    using wait_ready [of "sp_conn ?p" False "reader_of (frame_bytes fc)"] by (simp add: broker_process_def)
  obtain cn where x: "exchange_capabilities (ce_codec env) ?cn = (Ok DEFAULT_CAPABILITIES, cn)" "wr_budget (cn_out cn) = None"
    using exchange_capabilities_Ok [OF c fc, of ?cn "[]"] by (auto simp: demo_conn_def empty_writer_def)
  have "open_connection env args ?p = Ok (DEFAULT_CAPABILITIES, InitialAttached (Some x))"
    using w x send_body_Ok [OF fa x(2)]
    by (simp add: open_connection_def broker_process_def initial_window_size_def handle_initial_action_def args
        initial_attach_def bind_io_def write_initial_window_size_def raising_def)
  moreover have "run_attached_session (ce_codec env) (Some x) i en (idle_turn 0) [heard i (Ok None)] =
      Ended (start_attached 0) (Err (None, UnexpectedBrokerEof))" for en
    by (simp add: run_attached_session_def send_window_size_if_changed_def idle_turn_def talk_turn start_attached_def
        KEEPALIVE_INTERVAL_def session_fails_def)
  ultimately show ?thesis
    by (simp add: run_client_attempt_def attached_attempt_def) (simp add: broker_process_def)
qed

text \<open>
  C18. A session that no longer exists is asked for again and again. The broker, asked to attach to a session without a
  socket, returns an error but sends nothing after its capabilities. The client takes the end of the stream for a
  lost connection: however often the same happens, it sleeps and goes on, and never ends with an error.
\<close>

theorem missing_session_retried_forever:
  assumes "codec_round_trips (se_codec senv)" and "ce_codec env = se_codec senv"
    and "from_body (se_codec senv) CAPABILITIES 0 (BCapabilities DEFAULT_CAPABILITIES) = Ok fc"
    and "from_body (se_codec senv) ATTACH_SESSION 0 (BAttachSessionRequest x) = Ok fa"
    and "socket_path_for_uid (se_temp_dir senv) uid x = Ok p" and "sv_socks sv p = []"
    and "sv_in sv = reader_of (frame_bytes fc @ frame_bytes fa) @ r" and "sv_out sv = empty_writer"
    and "ca_action args = Attach" and "ca_session args = Some x" and "n < 2 ^ 32"
  shows "fst (handle_broker_request senv uid sv) = Returned (Err (SConnect NotFound)) \<and>
    (\<exists>st. run_client (run_client_attempt env) args first
        (map (\<lambda>k. (\<lambda>_. broker_process (wr_out (sv_out (snd (handle_broker_request senv uid sv)))) (word_of_nat (k + 1)), detach k)) [0..<n])
        = Again st \<and> length (rc_slept st) = n)"
proof
  have b: "wr_budget (sv_out sv) = None" "wr_out (sv_out sv) = []" using assms(8) by (simp_all add: empty_writer_def)
  note broker = broker_missing_session [OF assms(1,3-7) b(1)]
  show "fst (handle_broker_request senv uid sv) = Returned (Err (SConnect NotFound))" by (rule broker(1))
  let ?pss = "map (\<lambda>k. (\<lambda>_ :: string list. broker_process (frame_bytes fc) (word_of_nat (k + 1)), detach k)) [0..<n]"
  have a: "run_client_attempt env args i (\<lambda>_. broker_process (frame_bytes fc) i) =
      Some (Ok (AttemptAttached (Err (None, UnexpectedBrokerEof))))" for i
    using attempt_at_ended_broker [OF _ _ _ assms(9,10), of env fc fa] assms(1-4) by simp
  let ?st = "start_loop args False"
  have pss: "run_client_attempt env (rc_args ?st) (word_of_nat (0 + k + 1)) (fst (?pss ! k)) =
      Some (Ok (AttemptAttached (Err (None, UnexpectedBrokerEof))))" if "k < length ?pss" for k
    using a that by (simp add: start_loop_def)
  have st: "is_ambiguous_disconnect UnexpectedBrokerEof" "rc_known ?st = Some x" "rc_args ?st = reconnect_attach_args args x"
    "rc_attempt_id ?st = word_of_nat 0" "rc_attempts ?st = word_of_nat 0" "0 + length ?pss < 2 ^ 64" "0 + length ?pss < 2 ^ 32"
    using assms(9-11) by (simp_all add: is_ambiguous_disconnect_def start_loop_def reconnect_attach_args_same)
  have "\<exists>st'. client_loop (run_client_attempt env) args ?pss ?st = Again st' \<and>
      rc_slept st' = rc_slept ?st @ slept_delays 0 (length ?pss)"
    using lost_loop [of ?pss "run_client_attempt env" ?st 0 UnexpectedBrokerEof x args 0] pss st by blast
  then show "\<exists>st. run_client (run_client_attempt env) args first
      (map (\<lambda>k. (\<lambda>_. broker_process (wr_out (sv_out (snd (handle_broker_request senv uid sv)))) (word_of_nat (k + 1)), detach k)) [0..<n])
      = Again st \<and> length (rc_slept st) = n"
    using assms(9) broker(2) b(2) by (auto simp: run_client_def slept_delays_def start_loop_def)
qed

definition attach_codec :: codec where
  "attach_codec =
     \<lparr>cbor_enc = (\<lambda>b. if b = BCapabilities DEFAULT_CAPABILITIES then Some [1]
                     else if b = BAttachSessionRequest ''abcdefgh'' then Some [2] else None),
      cbor_dec = (\<lambda>k bs. if k = KCapabilities \<and> bs = [1] then Some (BCapabilities DEFAULT_CAPABILITIES)
                        else if k = KAttachSessionRequest \<and> bs = [2] then Some (BAttachSessionRequest ''abcdefgh'') else None)\<rparr>"

definition attach_frames :: "Frame list" where
  "attach_frames =
     [\<lparr>frame_msg_type = CAPABILITIES, frame_flags = 0, frame_payload = [1]\<rparr>,
      \<lparr>frame_msg_type = ATTACH_SESSION, frame_flags = 0, frame_payload = [2]\<rparr>]"

definition gone_server :: server where
  "gone_server = \<lparr>sv_in = stream_of attach_frames, sv_out = empty_writer, sv_socks = (\<lambda>_. []), sv_sent = [], sv_removed = [],
     sv_spawned = []\<rparr>"

theorem missing_session_retried_forever_witness:
  "\<exists>st. run_client (run_client_attempt (talk_env\<lparr>ce_codec := attach_codec\<rparr>)) talk_args (\<lambda>_. broker_process [] 0)
      (map (\<lambda>k. (\<lambda>_. broker_process (wr_out (sv_out (snd (handle_broker_request (demo_server_env\<lparr>se_codec := attach_codec\<rparr>) 1000 gone_server))))
                   (word_of_nat (k + 1)), \<lambda>_. broker_process [] 0)) [0..<1000])
      = Again st \<and> length (rc_slept st) = 1000"
proof -
  let ?env = "talk_env\<lparr>ce_codec := attach_codec\<rparr>" and ?senv = "demo_server_env\<lparr>se_codec := attach_codec\<rparr>"
  have rt: "codec_round_trips attach_codec" by (auto simp: codec_round_trips_def attach_codec_def split: if_splits)
  have f: "from_body attach_codec CAPABILITIES 0 (BCapabilities DEFAULT_CAPABILITIES) = Ok (attach_frames ! 0)"
    "from_body attach_codec ATTACH_SESSION 0 (BAttachSessionRequest ''abcdefgh'') = Ok (attach_frames ! 1)"
    by (simp_all add: from_body_def attach_codec_def frame_new_def MAX_PAYLOAD_LEN_def attach_frames_def)
  have p: "socket_path_for_uid ''/t'' 1000 ''abcdefgh'' = Ok ''/t/ssh-obi-1000/abcdefgh.sock''"
    unfolding socket_path_for_uid_def socket_dir_for_uid_def by code_simp
  have "sv_in gone_server = reader_of (frame_bytes (attach_frames ! 0) @ frame_bytes (attach_frames ! 1)) @ []"
    by (simp add: gone_server_def stream_of_def attach_frames_def)
  then show ?thesis
    using missing_session_retried_forever [of ?senv ?env "attach_frames ! 0" "''abcdefgh''" "attach_frames ! 1" 1000
        "''/t/ssh-obi-1000/abcdefgh.sock''" gone_server "[]" talk_args 1000 "\<lambda>_. broker_process [] 0"
        "\<lambda>_ _. broker_process [] 0"] rt f p
    by (simp add: talk_args_def demo_server_env_def gone_server_def del: upt_Suc upt_rec_numeral)
qed

end
